(* ===== verification/Prelude.thy ===== *)
theory Prelude
  imports Main "HOL-Library.Multiset" "HOL-Library.Finite_Map" "HOL-Library.List_Lexorder"
      "HOL-Library.Char_ord"
begin

text \<open>
  Shared vocabulary of the development: Go results (a value, an error return or a panic),
  effectful calls against an abstract world, the loops that thread them, and the order in
  which Go enumerates a map. Strings are lists of bytes and are compared bytewise, as in Go.
\<close>

named_theorems result_simps \<open>equations of the result type and its combinators\<close>
named_theorems eff_simps \<open>unfolding of effectful calls that returned\<close>

named_theorems keeps_intros \<open>calls and loops that keep a view of the world\<close>

section \<open>Results\<close>

text \<open>
  A Go function returning \<open>(T, error)\<close> gives \<open>Ok\<close> or \<open>Err\<close>; a run-time
  panic unwinds the caller and is the third outcome. \<open>errors.WithStack\<close> only records a
  stack trace and is the identity here; \<open>errors.Wrap\<close> adds a message.
\<close>

datatype error =
    NotFound
  | MalformedManager
  | UnsupportedType
  | InvalidLabel string
  | ApiError string
  | Wrapped string error

datatype panic = NilDereference | NilMapWrite | SliceOutOfRange | MustFailed error

datatype 'a result = Ok 'a | Err error | Panic panic

fun bind_result :: "'a result \<Rightarrow> ('a \<Rightarrow> 'b result) \<Rightarrow> 'b result" where
  "bind_result (Ok x) f = f x"
| "bind_result (Err e) f = Err e"
| "bind_result (Panic p) f = Panic p"

fun wrap_error :: "string \<Rightarrow> 'a result \<Rightarrow> 'a result" where
  "wrap_error m (Err e) = Err (Wrapped m e)"
| "wrap_error m r = r"

fun map_results :: "('a \<Rightarrow> 'b result) \<Rightarrow> 'a list \<Rightarrow> 'b list result" where
  "map_results f [] = Ok []"
| "map_results f (x # xs) =
     bind_result (f x) (\<lambda>y. bind_result (map_results f xs) (\<lambda>ys. Ok (y # ys)))"

definition is_ok :: "'a result \<Rightarrow> bool" where
  "is_ok r = (case r of Ok _ \<Rightarrow> True | _ \<Rightarrow> False)"

lemma is_ok_simps [simp]: "is_ok (Ok x)" "\<not> is_ok (Err e)" "\<not> is_ok (Panic p)"
  by (simp_all add: is_ok_def)

lemma bind_result_Ok [simp]: "bind_result r Ok = r"
  by (cases r) simp_all

lemma bind_result_eq_Ok [result_simps]:
  "bind_result r f = Ok y \<longleftrightarrow> (\<exists>x. r = Ok x \<and> f x = Ok y)"
  by (cases r) auto

lemma bind_result_eq_Panic [result_simps]:
  "bind_result r f = Panic p \<longleftrightarrow> r = Panic p \<or> (\<exists>x. r = Ok x \<and> f x = Panic p)"
  by (cases r) auto

lemma wrap_error_eq_Ok [simp]: "wrap_error m r = Ok x \<longleftrightarrow> r = Ok x"
  by (cases r) auto

lemma map_results_eq_Ok:
  "map_results f xs = Ok ys \<longleftrightarrow> list_all2 (\<lambda>x y. f x = Ok y) xs ys"
  by (induction xs arbitrary: ys) (auto simp: result_simps list_all2_Cons1)

lemma map_results_pure: "(\<And>x. x \<in> set xs \<Longrightarrow> f x = Ok (g x)) \<Longrightarrow> map_results f xs = Ok (map g xs)"
  by (induction xs) auto

lemma map_results_Panic:
  "map_results f xs = Panic p \<Longrightarrow> \<exists>x \<in> set xs. f x = Panic p"
  by (induction xs) (auto simp: result_simps)

section \<open>Effectful calls\<close>

text \<open>
  A call that talks to the API server takes the world and returns its result and the next
  world. A read may change the world too: nothing here says that nobody else writes.
\<close>

type_synonym ('w, 'a) eff = "'w \<Rightarrow> 'a result \<times> 'w"

definition lift_result :: "'a result \<Rightarrow> ('w, 'a) eff" where
  "lift_result r w = (r, w)"

abbreviation return :: "'a \<Rightarrow> ('w, 'a) eff" where
  "return x \<equiv> lift_result (Ok x)"

definition bind_eff :: "('w, 'a) eff \<Rightarrow> ('a \<Rightarrow> ('w, 'b) eff) \<Rightarrow> ('w, 'b) eff" where
  "bind_eff m f w =
     (case m w of
        (Ok x, w') \<Rightarrow> f x w'
      | (Err e, w') \<Rightarrow> (Err e, w')
      | (Panic p, w') \<Rightarrow> (Panic p, w'))"

fun for_each :: "'a list \<Rightarrow> ('a \<Rightarrow> ('w, unit) eff) \<Rightarrow> ('w, unit) eff" where
  "for_each [] f = return ()"
| "for_each (x # xs) f = bind_eff (f x) (\<lambda>_. for_each xs f)"

fun fold_eff :: "('a \<Rightarrow> 's \<Rightarrow> ('w, 's) eff) \<Rightarrow> 'a list \<Rightarrow> 's \<Rightarrow> ('w, 's) eff" where
  "fold_eff f [] s = return s"
| "fold_eff f (x # xs) s = bind_eff (f x s) (\<lambda>s'. fold_eff f xs s')"

lemma lift_result_simps [simp]: "lift_result r w = (r, w)"
  by (simp add: lift_result_def)

lemma bind_eff_return [simp]: "bind_eff (lift_result (Ok x)) f = f x"
  by (rule ext) (simp add: bind_eff_def)

lemma bind_eff_Err [simp]: "bind_eff (lift_result (Err e)) f = lift_result (Err e)"
  by (rule ext) (simp add: bind_eff_def)

lemma bind_eff_Panic [simp]: "bind_eff (lift_result (Panic p)) f = lift_result (Panic p)"
  by (rule ext) (simp add: bind_eff_def)

lemma bind_eff_Ok [eff_simps]:
  "bind_eff m f w = (Ok y, w') \<longleftrightarrow> (\<exists>x w1. m w = (Ok x, w1) \<and> f x w1 = (Ok y, w'))"
  by (auto simp: bind_eff_def split: prod.splits result.splits)

lemma bind_eff_step: "m w = (Ok x, w1) \<Longrightarrow> bind_eff m f w = f x w1"
  by (simp add: bind_eff_def)

lemma bind_eff_fail:
  "m w = (Err e, w1) \<Longrightarrow> bind_eff m f w = (Err e, w1)"
  "m w = (Panic p, w1) \<Longrightarrow> bind_eff m f w = (Panic p, w1)"
  by (simp_all add: bind_eff_def)

lemma bind_eff_assoc: "bind_eff (bind_eff m f) g = bind_eff m (\<lambda>x. bind_eff (f x) g)"
  by (rule ext) (auto simp: bind_eff_def split: prod.split result.split)

text \<open>Whatever the outcome, the world after a sequence satisfies what every call keeps.\<close>

lemma bind_eff_cases:
  assumes "bind_eff m f w = (r, w')"
  obtains (first) r1 where "m w = (r1, w')" "\<And>x. r1 \<noteq> Ok x" "\<And>x. r \<noteq> Ok x"
    | (second) x w1 where "m w = (Ok x, w1)" "f x w1 = (r, w')"
  using assms by (auto simp: bind_eff_def split: prod.splits result.splits)

lemma for_each_invariant:
  assumes "for_each xs f w = (r, w')" and "P w"
    and "\<And>x v r1 v'. x \<in> set xs \<Longrightarrow> P v \<Longrightarrow> f x v = (r1, v') \<Longrightarrow> P v'"
  shows "P w'"
  using assms
proof (induction xs arbitrary: w)
  case Nil
  then show ?case by simp
next
  case (Cons x xs)
  from Cons.prems(1) have "bind_eff (f x) (\<lambda>_. for_each xs f) w = (r, w')" by simp
  then show ?case
  proof (cases rule: bind_eff_cases)
    case (first r1)
    with Cons.prems show ?thesis by (metis list.set_intros(1))
  next
    case (second u w1)
    with Cons.prems have "P w1" by (metis list.set_intros(1))
    moreover have "\<And>x v r1 v'. x \<in> set xs \<Longrightarrow> P v \<Longrightarrow> f x v = (r1, v') \<Longrightarrow> P v'"
      using Cons.prems(3) by auto
    ultimately show ?thesis using Cons.IH second by blast
  qed
qed

lemma fold_eff_invariant:
  assumes "fold_eff f xs s w = (r, w')" and "P w"
    and "\<And>x s v r1 v'. x \<in> set xs \<Longrightarrow> P v \<Longrightarrow> f x s v = (r1, v') \<Longrightarrow> P v'"
  shows "P w'"
  using assms
proof (induction xs arbitrary: w s)
  case Nil
  then show ?case by simp
next
  case (Cons x xs)
  from Cons.prems(1) have "bind_eff (f x s) (\<lambda>s'. fold_eff f xs s') w = (r, w')" by simp
  then show ?case
  proof (cases rule: bind_eff_cases)
    case (first r1)
    with Cons.prems show ?thesis by (metis list.set_intros(1))
  next
    case (second s1 w1)
    with Cons.prems have "P w1" by (metis list.set_intros(1))
    moreover have "\<And>x s v r1 v'. x \<in> set xs \<Longrightarrow> P v \<Longrightarrow> f x s v = (r1, v') \<Longrightarrow> P v'"
      using Cons.prems(3) by (metis list.set_intros(2))
    ultimately show ?thesis using Cons.IH second by blast
  qed
qed

lemma for_each_append_Ok [eff_simps]:
  "for_each (xs @ ys) f w = (Ok u, w') \<longleftrightarrow>
   (\<exists>w1. for_each xs f w = (Ok (), w1) \<and> for_each ys f w1 = (Ok u, w'))"
  by (induction xs arbitrary: w) (auto simp: eff_simps)

text \<open>A loop that returned has run its body, successfully, once for every element.\<close>

lemma for_each_body_Ok:
  "for_each xs f w = (Ok u, w') \<Longrightarrow> x \<in> set xs \<Longrightarrow> \<exists>v v'. f x v = (Ok (), v')"
  by (induction xs arbitrary: w) (auto simp: eff_simps)

text \<open>A call that never changes a view of the world, whatever it returns.\<close>

definition keeps :: "('w \<Rightarrow> 'v) \<Rightarrow> ('w, 'a) eff \<Rightarrow> bool" where
  "keeps view m \<longleftrightarrow> (\<forall>w. view (snd (m w)) = view w)"

lemma keepsD: "keeps view m \<Longrightarrow> m w = (r, w') \<Longrightarrow> view w' = view w"
  unfolding keeps_def by (metis snd_conv)

lemma keepsI: "(\<And>w r w'. m w = (r, w') \<Longrightarrow> view w' = view w) \<Longrightarrow> keeps view m"
  unfolding keeps_def by (metis prod.collapse)

lemma keeps_lift [keeps_intros]: "keeps view (lift_result r)"
  by (simp add: keeps_def)

lemma keeps_Pair [keeps_intros]: "keeps view (Pair r)"
  by (simp add: keeps_def)

lemma keeps_part: "keeps view m \<Longrightarrow> keeps (\<lambda>w. f (view w)) m"
  by (simp add: keeps_def)

lemma keeps_bind [keeps_intros]:
  assumes "keeps view m" and "\<And>x. keeps view (f x)"
  shows "keeps view (bind_eff m f)"
proof (rule keepsI)
  fix w r w'
  assume "bind_eff m f w = (r, w')"
  then show "view w' = view w"
    by (cases rule: bind_eff_cases) (metis assms keepsD)+
qed

lemma keeps_for_each [keeps_intros]: "(\<And>x. x \<in> set xs \<Longrightarrow> keeps view (f x)) \<Longrightarrow> keeps view (for_each xs f)"
  by (induction xs) (auto intro!: keeps_intros)

lemma keeps_fold_eff [keeps_intros]: "(\<And>x s. keeps view (f x s)) \<Longrightarrow> keeps view (fold_eff f xs s)"
  by (induction xs arbitrary: s) (auto intro!: keeps_intros)

text \<open>
  Loops that write to a part \<open>K x\<close> of a view: what they leave of it, whatever their outcome,
  and what is there when they return. \<open>Q x k v\<close> says that \<open>v\<close> is what \<open>x\<close> writes at \<open>k\<close>.
\<close>

definition writes_at :: "'x list \<Rightarrow> ('x \<Rightarrow> 'k set) \<Rightarrow> ('x \<Rightarrow> 'k \<Rightarrow> 'v \<Rightarrow> bool) \<Rightarrow> 'k \<Rightarrow> 'v \<Rightarrow> bool" where
  "writes_at xs K Q k v \<longleftrightarrow> (\<exists>x \<in> set xs. k \<in> K x \<and> Q x k v)"

lemma fold_eff_frame:
  assumes run: "fold_eff f xs s w = (r, w')"
    and step: "\<forall>x \<in> set xs. \<forall>s w r w' k. f x s w = (r, w') \<longrightarrow> view w' k = view w k \<or> k \<in> K x \<and> Q x k (view w' k)"
  shows "view w' k = view w k \<or> writes_at xs K Q k (view w' k)"
  using run
proof (rule fold_eff_invariant [where P = "\<lambda>v. view v k = view w k \<or> writes_at xs K Q k (view v k)"])
  fix x s v r v'
  assume "x \<in> set xs" "view v k = view w k \<or> writes_at xs K Q k (view v k)" "f x s v = (r, v')"
  with step show "view v' k = view w k \<or> writes_at xs K Q k (view v' k)"
    unfolding writes_at_def by metis
qed simp

lemma fold_eff_done:
  assumes run: "fold_eff f xs s w = (Ok s', w')"
    and step: "\<forall>x \<in> set xs. \<forall>s w r w' k. f x s w = (r, w') \<longrightarrow> view w' k = view w k \<or> k \<in> K x \<and> Q x k (view w' k)"
    and all: "\<forall>x \<in> set xs. \<forall>s w s' w'. f x s w = (Ok s', w') \<longrightarrow> s' = D x s \<and> (\<forall>k \<in> K x. Q x k (view w' k))"
  shows "s' = fold D xs s \<and> (\<forall>x \<in> set xs. \<forall>k \<in> K x. writes_at xs K Q k (view w' k))"
  using assms
proof (induction xs arbitrary: s w)
  case (Cons x xs)
  from Cons.prems(1) obtain s1 w1 where one: "f x s w = (Ok s1, w1)"
    and rest: "fold_eff f xs s1 w1 = (Ok s', w')" by (auto simp: eff_simps)
  have ih: "s' = fold D xs s1 \<and> (\<forall>y \<in> set xs. \<forall>k \<in> K y. writes_at xs K Q k (view w' k))"
    using Cons.IH [OF rest] Cons.prems(2,3) by simp
  have x: "s1 = D x s" "\<forall>k \<in> K x. Q x k (view w1 k)"
    using Cons.prems(3) one by (meson list.set_intros(1))+
  have "writes_at (x # xs) K Q k (view w' k)" if k: "k \<in> K x" for k
    using fold_eff_frame [OF rest, of view K Q k] Cons.prems(2) x(2) k by (auto simp: writes_at_def)
  moreover have "writes_at (x # xs) K Q k v" if "writes_at xs K Q k v" for k v
    using that by (auto simp: writes_at_def)
  ultimately show ?case using ih x(1) by auto
qed simp

section \<open>Map iteration order\<close>

text \<open>
  \<open>range\<close> over a Go map visits every key once, in an order the runtime picks. An
  iteration order gives, for each set of keys, the list in which they are visited.
\<close>

type_synonym 'k order = "'k fset \<Rightarrow> 'k list"

definition range_order :: "'k order \<Rightarrow> bool" where
  "range_order ord \<longleftrightarrow> (\<forall>S. distinct (ord S) \<and> set (ord S) = fset S)"

lemma range_order_set [simp]: "range_order ord \<Longrightarrow> set (ord S) = fset S"
  by (simp add: range_order_def)

lemma range_order_distinct [simp]: "range_order ord \<Longrightarrow> distinct (ord S)"
  by (simp add: range_order_def)

lemma range_order_sorted: "range_order (sorted_list_of_fset :: 'k::linorder fset \<Rightarrow> 'k list)"
  by (simp add: range_order_def sorted_list_of_fset.rep_eq)

text \<open>The body of a \<open>range\<close> loop, run for every entry in the runtime's order.\<close>

definition range_fold :: "'k order \<Rightarrow> ('k \<Rightarrow> 'v \<Rightarrow> 's \<Rightarrow> 's) \<Rightarrow> ('k, 'v) fmap \<Rightarrow> 's \<Rightarrow> 's" where
  "range_fold ord f m s =
     fold (\<lambda>k s. case fmlookup m k of Some v \<Rightarrow> f k v s | None \<Rightarrow> s) (ord (fmdom m)) s"

text \<open>Copying entries: the result does not depend on the order.\<close>

lemma fmlookup_fold_copy:
  assumes "distinct ks" and "\<And>k. k \<in> set ks \<Longrightarrow> k |\<in>| fmdom m"
  shows "fmlookup (fold (\<lambda>k s. case fmlookup m k of Some v \<Rightarrow> fmupd k (g k v) s | None \<Rightarrow> s) ks s) x =
    (if x \<in> set ks then map_option (g x) (fmlookup m x) else fmlookup s x)"
  using assms
proof (induction ks arbitrary: s)
  case (Cons k ks)
  then obtain v where "fmlookup m k = Some v" by (auto simp: fmlookup_dom_iff)
  with Cons show ?case by auto
qed simp

lemma fmlookup_range_copy:
  "range_order ord \<Longrightarrow>
   fmlookup (range_fold ord (\<lambda>k v s. fmupd k (g k v) s) m s) x =
     (case fmlookup m x of Some v \<Rightarrow> Some (g x v) | None \<Rightarrow> fmlookup s x)"
  by (subst range_fold_def, subst fmlookup_fold_copy)
    (auto simp: fmdom'_alt_def [symmetric] fmlookup_dom'_iff fmlookup_dom_iff split: option.splits)

text \<open>Reading a map of slices: a missing key reads as the nil slice.\<close>

definition lookup_list :: "('k, 'v list) fmap \<Rightarrow> 'k \<Rightarrow> 'v list" where
  "lookup_list m k = (case fmlookup m k of Some vs \<Rightarrow> vs | None \<Rightarrow> [])"

lemma lookup_list_simps [simp]:
  "lookup_list fmempty k = []"
  "lookup_list (fmupd k' vs m) k = (if k = k' then vs else lookup_list m k)"
  by (simp_all add: lookup_list_def)

section \<open>Sorting by name\<close>

text \<open>
  \<open>sort.Slice\<close> is not stable, but on a list whose keys are pairwise different there is
  one sorted permutation only, so any sorting algorithm returns \<open>sort_key\<close>.
\<close>

lemma sorted_permutation_unique:
  fixes key :: "'a \<Rightarrow> 'k::linorder"
  assumes "mset ys = mset xs" and "sorted (map key ys)" and "distinct (map key xs)"
  shows "ys = sort_key key xs"
proof -
  have "distinct (map key ys)"
    using assms by (metis (mono_tags) distinct_map mset_eq_imp_distinct_iff mset_eq_setD)
  show ?thesis
  proof (rule properties_for_sort_key [symmetric])
    show "mset ys = mset xs" by (rule assms)
    show "sorted (map key ys)" by (rule assms)
    show "filter (\<lambda>x. key k = key x) ys = filter (\<lambda>x. key k = key x) xs" if "k \<in> set ys" for k
    proof -
      have "k \<in> set xs" using that assms(1) by (metis mset_eq_setD)
      have same: "filter (\<lambda>x. key k = key x) zs = [k]" if "distinct (map key zs)" "k \<in> set zs" for zs
        using that by (induction zs) (auto simp: filter_empty_conv image_iff)
      show "filter (\<lambda>x. key k = key x) ys = filter (\<lambda>x. key k = key x) xs"
        using same [of xs] same [of ys] \<open>k \<in> set xs\<close> that \<open>distinct (map key ys)\<close> assms(3)
        by simp
    qed
  qed
qed

end
