(* ===== verification/GoStrings.thy ===== *)
theory GoStrings
  imports Prelude
begin

text \<open>
  The functions of Go's \<open>strings\<close> and \<open>fmt\<close> packages that the program uses, on byte
  strings: \<open>Split\<close>, \<open>ReplaceAll\<close>, \<open>Join\<close> and \<open>Sprintf\<close> with the format
  \<open>%s-%s\<close>, with the facts the components need about them.
\<close>

section \<open>Split, join and replace\<close>

function split_from :: "string \<Rightarrow> string \<Rightarrow> string \<Rightarrow> string list" where
  "split_from sep cur [] = [rev cur]"
| "split_from sep cur (c # cs) =
     (if sep \<noteq> [] \<and> take (length sep) (c # cs) = sep
      then rev cur # split_from sep [] (drop (length sep) (c # cs))
      else split_from sep (c # cur) cs)"
  by pat_completeness auto
termination
  by (relation "measure (\<lambda>(sep, cur, s). length s)") auto

text \<open>\<open>strings.Split(s, sep)\<close> for a non-empty separator, which is all the program uses.\<close>

definition go_split :: "string \<Rightarrow> string \<Rightarrow> string list" where
  "go_split s sep = split_from sep [] s"

fun join_with :: "string \<Rightarrow> string list \<Rightarrow> string" where
  "join_with sep [] = []"
| "join_with sep [s] = s"
| "join_with sep (s # t # ts) = s @ sep @ join_with sep (t # ts)"

text \<open>\<open>strings.ReplaceAll(s, old, new)\<close>: every piece between two occurrences is kept.\<close>

definition replace_all :: "string \<Rightarrow> string \<Rightarrow> string \<Rightarrow> string" where
  "replace_all s old new = join_with new (go_split s old)"

definition sprintf_dash :: "string \<Rightarrow> string \<Rightarrow> string" where
  "sprintf_dash a b = a @ ''-'' @ b"

lemma split_from_nonempty [simp]: "split_from sep cur s \<noteq> []"
  by (induction sep cur s rule: split_from.induct) auto

lemma go_split_nonempty [simp]: "go_split s sep \<noteq> []"
  by (simp add: go_split_def)

lemma join_with_Cons: "ts \<noteq> [] \<Longrightarrow> join_with sep (s # ts) = s @ sep @ join_with sep ts"
  by (cases ts) auto

lemma join_split_from: "join_with sep (split_from sep cur s) = rev cur @ s"
proof (induction sep cur s rule: split_from.induct)
  case (1 sep cur)
  then show ?case by simp
next
  case (2 sep cur c cs)
  show ?case
  proof (cases "sep \<noteq> [] \<and> take (length sep) (c # cs) = sep")
    case True
    then have "sep @ drop (length sep) (c # cs) = c # cs"
      by (metis append_take_drop_id)
    with 2 True show ?thesis by (simp add: join_with_Cons)
  next
    case False
    with 2 show ?thesis by auto
  qed
qed

lemma join_go_split: "join_with sep (go_split s sep) = s"
  by (simp add: go_split_def join_split_from)

lemma split_from_absent:
  "c \<notin> set s \<Longrightarrow> split_from (c # sep) cur s = [rev cur @ s]"
  by (induction s arbitrary: cur) auto

lemma split_from_first:
  "c \<notin> set a \<Longrightarrow> split_from (c # sep) cur (a @ (c # sep) @ b) = (rev cur @ a) # split_from (c # sep) [] b"
  by (induction a arbitrary: cur) auto

lemma go_split_absent: "c \<notin> set s \<Longrightarrow> go_split s (c # sep) = [s]"
  by (simp add: go_split_def split_from_absent)

lemma go_split_first:
  "c \<notin> set a \<Longrightarrow> go_split (a @ (c # sep) @ b) (c # sep) = a # go_split b (c # sep)"
  using split_from_first [of c a sep "[]" b] by (simp add: go_split_def)

lemma go_split_char_count: "length (go_split s [c]) = Suc (count_list s c)"
proof -
  have "length (split_from [c] cur s) = Suc (count_list s c)" for cur
    by (induction s arbitrary: cur) auto
  then show ?thesis by (simp add: go_split_def)
qed

lemma split_from_char_pieces: "c \<notin> set cur \<Longrightarrow> p \<in> set (split_from [c] cur s) \<Longrightarrow> c \<notin> set p"
proof (induction s arbitrary: cur)
  case (Cons a s)
  then show ?case
    using Cons.IH [of "[]"] Cons.IH [of "a # cur"] by (auto split: if_splits)
qed auto

lemma go_split_char_pieces: "p \<in> set (go_split s [c]) \<Longrightarrow> c \<notin> set p"
  using split_from_char_pieces [of c "[]" p s] by (simp add: go_split_def)

text \<open>Splitting at one character gives two parts exactly when it occurs once.\<close>

lemma go_split_char_pair:
  "go_split s [c] = [a, b] \<longleftrightarrow> s = a @ c # b \<and> c \<notin> set a \<and> c \<notin> set b"
proof
  assume split: "go_split s [c] = [a, b]"
  have "s = a @ c # b" using join_go_split [of "[c]" s] split by simp
  moreover have "c \<notin> set a" "c \<notin> set b"
    using go_split_char_pieces [of _ s c] split by auto
  ultimately show "s = a @ c # b \<and> c \<notin> set a \<and> c \<notin> set b" by simp
next
  assume "s = a @ c # b \<and> c \<notin> set a \<and> c \<notin> set b"
  then show "go_split s [c] = [a, b]"
    using go_split_first [of c a "[]" b] go_split_absent [of c b "[]"] by simp
qed

lemma replace_all_char: "replace_all s [c] [d] = map (\<lambda>x. if x = c then d else x) s"
proof -
  have "join_with [d] (split_from [c] cur s) = rev cur @ map (\<lambda>x. if x = c then d else x) s" for cur
    by (induction s arbitrary: cur) (auto simp: join_with_Cons)
  then show ?thesis by (simp add: replace_all_def go_split_def)
qed

lemma length_sprintf_dash [simp]: "length (sprintf_dash a b) = length a + length b + 1"
  by (simp add: sprintf_dash_def)

lemma sprintf_dash_inject_right [simp]: "sprintf_dash a b = sprintf_dash a' b \<longleftrightarrow> a = a'"
  by (simp add: sprintf_dash_def)

section \<open>Slices of strings\<close>

text \<open>\<open>s[:n]\<close>: panics when \<open>n\<close> is negative or beyond the length.\<close>

definition slice_to :: "string \<Rightarrow> int \<Rightarrow> string result" where
  "slice_to s n = (if 0 \<le> n \<and> n \<le> int (length s) then Ok (take (nat n) s) else Panic SliceOutOfRange)"

lemma slice_to_ok: "0 \<le> n \<Longrightarrow> n \<le> int (length s) \<Longrightarrow> slice_to s n = Ok (take (nat n) s)"
  by (simp add: slice_to_def)

end
