(* ===== verification/ApiTypes.thy ===== *)
theory ApiTypes
  imports GoStrings "HOL-Library.Word"
begin

text \<open>
  The data of the program: the custom resources of \<^verbatim>\<open>api/v1beta1\<close> and, of the
  Kubernetes, Istio, Ambassador and deployment-duplicator objects, the fields the program
  reads or writes. A Go map is a finite map, a nil-able pointer an \<open>option\<close>; a nil map
  reads like an empty one and is kept apart only where the program writes to it
  (\<open>match_labels\<close>). \<open>int32\<close> fields are 32-bit words, time instants integers.
\<close>

section \<open>Object metadata\<close>

type_synonym labels = "(string, string) fmap"

type_synonym time = int

datatype namespaced_name = NN (nn_namespace: string) (nn_name: string)

text \<open>Slugs are ordered by namespace, then name, so that sets of them can be enumerated.\<close>

instantiation namespaced_name :: linorder
begin

definition less_eq_namespaced_name :: "namespaced_name \<Rightarrow> namespaced_name \<Rightarrow> bool" where
  "less_eq_namespaced_name a b \<longleftrightarrow>
     nn_namespace a < nn_namespace b \<or> nn_namespace a = nn_namespace b \<and> nn_name a \<le> nn_name b"

definition less_namespaced_name :: "namespaced_name \<Rightarrow> namespaced_name \<Rightarrow> bool" where
  "less_namespaced_name a b \<longleftrightarrow>
     nn_namespace a < nn_namespace b \<or> nn_namespace a = nn_namespace b \<and> nn_name a < nn_name b"

instance
  by standard
    (auto simp: less_eq_namespaced_name_def less_namespaced_name_def namespaced_name.expand)

end

text \<open>\<open>schema.GroupVersionKind\<close>, also the decoded content of an object's \<open>TypeMeta\<close>.\<close>

record gvk =
  gvk_group :: string
  gvk_version :: string
  gvk_kind :: string

record owner_reference =
  or_api_version :: string
  or_kind :: string
  or_name :: string
  or_controller :: bool

record object_meta =
  meta_name :: string
  meta_namespace :: string
  meta_labels :: labels
  meta_annotations :: labels
  meta_owner_refs :: "owner_reference list"
  meta_resource_version :: string

definition zero_gvk :: gvk where
  "zero_gvk = \<lparr>gvk_group = '''', gvk_version = '''', gvk_kind = ''''\<rparr>"

text \<open>\<open>metav1.ObjectMeta{Name: n, Namespace: ns}\<close>: the other fields are zero.\<close>

definition object_meta_of :: "string \<Rightarrow> string \<Rightarrow> object_meta" where
  "object_meta_of n ns =
     \<lparr>meta_name = n, meta_namespace = ns, meta_labels = fmempty, meta_annotations = fmempty,
      meta_owner_refs = [], meta_resource_version = ''''\<rparr>"

lemma object_meta_of_simps [simp]:
  "meta_name (object_meta_of n ns) = n"
  "meta_namespace (object_meta_of n ns) = ns"
  "meta_labels (object_meta_of n ns) = fmempty"
  "meta_annotations (object_meta_of n ns) = fmempty"
  "meta_owner_refs (object_meta_of n ns) = []"
  "meta_resource_version (object_meta_of n ns) = ''''"
  by (simp_all add: object_meta_of_def)

definition meta_key :: "object_meta \<Rightarrow> namespaced_name" where
  "meta_key m = NN (meta_namespace m) (meta_name m)"

section \<open>Custom resources of the program\<close>

record label_selector_requirement =
  lsr_key :: string
  lsr_operator :: string
  lsr_values :: "string list"

record label_selector =
  match_labels :: "labels option"
  match_expressions :: "label_selector_requirement list"

record env_var =
  ev_name :: string
  ev_value :: string

record container =
  ctr_name :: string
  ctr_image :: string
  ctr_env :: "env_var list"

record pod_spec =
  ps_containers :: "container list"
  ps_hostname :: string

record pod_template_spec =
  pts_metadata :: "object_meta option"
  pts_spec :: pod_spec

record fork_service =
  fs_selector :: "label_selector option"

record fork_deployment =
  fd_selector :: "label_selector option"
  fd_template :: "pod_template_spec option"
  fd_replicas :: "32 word option"

record gateway_options =
  go_add_request_headers :: labels
  go_allow_upgrade :: "string list"

record fork_spec =
  spec_manager :: string
  spec_identifier :: string
  spec_deadline :: "time option"
  spec_gateway_options :: "gateway_options option"
  spec_services :: "fork_service option"
  spec_deployments :: "fork_deployment option"

record fork =
  fork_type :: gvk
  fork_meta :: object_meta
  fork_spec :: fork_spec

record upstream =
  us_host :: string
  us_original :: string
  us_host_rewrite :: string

record fork_manager_spec =
  fm_ambassador_id :: string
  fm_header_key :: string
  fm_upstreams :: "upstream list"

record fork_manager =
  fm_type :: gvk
  fm_meta :: object_meta
  fm_spec :: fork_manager_spec

record vsconfig_spec =
  vsc_host :: string
  vsc_service :: string
  vsc_header_name :: string
  vsc_header_value :: string

record vsconfig =
  vsc_type :: gvk
  vsc_meta :: object_meta
  vsc_spec :: vsconfig_spec

text \<open>\<open>GroupVersion\<close> of the program's own API group.\<close>

definition fork_group_kind :: "string \<Rightarrow> gvk" where
  "fork_group_kind k = \<lparr>gvk_group = ''fork.k8s.wantedly.com'', gvk_version = ''v1beta1'', gvk_kind = k\<rparr>"

section \<open>Objects of other API groups\<close>

datatype int_or_string = IntVal "32 word" | StrVal string

record service_port =
  sp_name :: string
  sp_protocol :: string
  sp_app_protocol :: "string option"
  sp_port :: "32 word"
  sp_target_port :: int_or_string
  sp_node_port :: "32 word"

record service_spec =
  ss_type :: string
  ss_cluster_ip :: string
  ss_ports :: "service_port list"
  ss_selector :: labels

record service =
  svc_type :: gvk
  svc_meta :: object_meta
  svc_spec :: service_spec

record deployment =
  dep_meta :: object_meta
  dep_template_labels :: labels
  dep_template_containers :: "container list"

record deployment_copy_spec =
  dc_replicas :: "32 word"
  dc_target_deployment_name :: string
  dc_name_suffix :: string
  dc_custom_labels :: labels
  dc_custom_annotations :: labels
  dc_target_containers :: "container list"

record deployment_copy =
  dc_type :: gvk
  dc_meta :: object_meta
  dc_spec :: deployment_copy_spec

datatype string_match = Exact string | Prefix string | Regex string

record http_route =
  hr_match :: "(string, string_match) fmap list"
  hr_route :: "string list"

record virtual_service_spec =
  vs_hosts :: "string list"
  vs_http :: "http_route list"

record virtual_service =
  vs_type :: gvk
  vs_meta :: object_meta
  vs_spec :: virtual_service_spec

record mapping_spec =
  mp_add_request_headers :: "(string, string option) fmap"
  mp_allow_upgrade :: "string list"
  mp_ambassador_id :: "string list"
  mp_host :: string
  mp_prefix :: string
  mp_rewrite :: "string option"
  mp_service :: string
  mp_timeout_ms :: int
  mp_host_rewrite :: string

record mapping =
  mp_meta :: object_meta
  mp_spec :: mapping_spec

section \<open>Objects a lister generates\<close>

text \<open>
  \<open>client.Object\<close> as the refresher sees it: one of the four resources the listers
  generate. Existing objects are listed as unstructured ones, with an opaque content.
\<close>

datatype client_object =
    ODeploymentCopy deployment_copy
  | OService service
  | OVSConfig vsconfig
  | OVirtualService virtual_service

record 'u unstructured =
  us_gvk :: gvk
  us_meta :: object_meta
  us_content :: 'u

datatype 'u any_object = Typed client_object | Unstructured "'u unstructured"

fun obj_meta :: "client_object \<Rightarrow> object_meta" where
  "obj_meta (ODeploymentCopy d) = dc_meta d"
| "obj_meta (OService s) = svc_meta s"
| "obj_meta (OVSConfig v) = vsc_meta v"
| "obj_meta (OVirtualService v) = vs_meta v"

fun map_obj_meta :: "(object_meta \<Rightarrow> object_meta) \<Rightarrow> client_object \<Rightarrow> client_object" where
  "map_obj_meta f (ODeploymentCopy d) = ODeploymentCopy (d\<lparr>dc_meta := f (dc_meta d)\<rparr>)"
| "map_obj_meta f (OService s) = OService (s\<lparr>svc_meta := f (svc_meta s)\<rparr>)"
| "map_obj_meta f (OVSConfig v) = OVSConfig (v\<lparr>vsc_meta := f (vsc_meta v)\<rparr>)"
| "map_obj_meta f (OVirtualService v) = OVirtualService (v\<lparr>vs_meta := f (vs_meta v)\<rparr>)"

fun any_meta :: "'u any_object \<Rightarrow> object_meta" where
  "any_meta (Typed o') = obj_meta o'"
| "any_meta (Unstructured u) = us_meta u"

lemma obj_meta_map [simp]: "obj_meta (map_obj_meta f x) = f (obj_meta x)"
  by (cases x) auto

lemma map_obj_meta_compose [simp]:
  "map_obj_meta f (map_obj_meta g x) = map_obj_meta (\<lambda>m. f (g m)) x"
  by (cases x) auto

text \<open>The resource an object of a given Go type is stored under.\<close>

datatype resource = RDeploymentCopy | RService | RVSConfig | RVirtualService

fun resource_of :: "client_object \<Rightarrow> resource" where
  "resource_of (ODeploymentCopy _) = RDeploymentCopy"
| "resource_of (OService _) = RService"
| "resource_of (OVSConfig _) = RVSConfig"
| "resource_of (OVirtualService _) = RVirtualService"

lemma resource_of_map [simp]: "resource_of (map_obj_meta f x) = resource_of x"
  by (cases x) auto

lemma resource_of_eqs:
  "resource_of x = RDeploymentCopy \<longleftrightarrow> (\<exists>d. x = ODeploymentCopy d)"
  "resource_of x = RService \<longleftrightarrow> (\<exists>s. x = OService s)"
  "resource_of x = RVSConfig \<longleftrightarrow> (\<exists>v. x = OVSConfig v)"
  "resource_of x = RVirtualService \<longleftrightarrow> (\<exists>v. x = OVirtualService v)"
  by (cases x; simp)+

text \<open>The object without its \<open>TypeMeta\<close>.\<close>

fun clear_type :: "client_object \<Rightarrow> client_object" where
  "clear_type (ODeploymentCopy d) = ODeploymentCopy (d\<lparr>dc_type := zero_gvk\<rparr>)"
| "clear_type (OService s) = OService (s\<lparr>svc_type := zero_gvk\<rparr>)"
| "clear_type (OVSConfig v) = OVSConfig (v\<lparr>vsc_type := zero_gvk\<rparr>)"
| "clear_type (OVirtualService v) = OVirtualService (v\<lparr>vs_type := zero_gvk\<rparr>)"

lemma clear_type_simps [simp]:
  "obj_meta (clear_type x) = obj_meta x"
  "resource_of (clear_type x) = resource_of x"
  "clear_type (clear_type x) = clear_type x"
  "clear_type (map_obj_meta f x) = map_obj_meta f (clear_type x)"
  by (cases x; simp)+

lemma clear_type_cong:
  assumes "clear_type x = clear_type y"
  shows "obj_meta x = obj_meta y" and "resource_of x = resource_of y"
  using assms by (metis clear_type_simps(1), metis clear_type_simps(2))

text \<open>\<open>reflect.New(reflect.ValueOf(obj).Elem().Type())\<close>: a zero object of the same type.\<close>

fun zero_of_type :: "client_object \<Rightarrow> client_object" where
  "zero_of_type (ODeploymentCopy _) =
     ODeploymentCopy \<lparr>dc_type = zero_gvk, dc_meta = object_meta_of '''' '''',
       dc_spec = \<lparr>dc_replicas = 0, dc_target_deployment_name = '''', dc_name_suffix = '''',
         dc_custom_labels = fmempty, dc_custom_annotations = fmempty, dc_target_containers = []\<rparr>\<rparr>"
| "zero_of_type (OService _) =
     OService \<lparr>svc_type = zero_gvk, svc_meta = object_meta_of '''' '''',
       svc_spec = \<lparr>ss_type = '''', ss_cluster_ip = '''', ss_ports = [], ss_selector = fmempty\<rparr>\<rparr>"
| "zero_of_type (OVSConfig _) =
     OVSConfig \<lparr>vsc_type = zero_gvk, vsc_meta = object_meta_of '''' '''',
       vsc_spec = \<lparr>vsc_host = '''', vsc_service = '''', vsc_header_name = '''', vsc_header_value = ''''\<rparr>\<rparr>"
| "zero_of_type (OVirtualService _) =
     OVirtualService \<lparr>vs_type = zero_gvk, vs_meta = object_meta_of '''' '''',
       vs_spec = \<lparr>vs_hosts = [], vs_http = []\<rparr>\<rparr>"

lemma zero_of_type_simps [simp]:
  "obj_meta (zero_of_type x) = object_meta_of '''' ''''"
  "resource_of (zero_of_type x) = resource_of x"
  by (cases x; simp)+

end
