(* ===== verification/Environment.thy ===== *)
theory Environment
  imports ApiTypes
begin

text \<open>
  Everything the program calls that is not in the repository, as one record of functions that
  the definitions of the model take as their first argument: the API server behind
  controller-runtime's \<open>client.Client\<close> (with \<open>controllerutil.CreateOrUpdate\<close>), the
  runtime scheme, label selectors, \<open>sets.String\<close> and the comparison of instants. No
  definition of the model looks inside; what the theorems rely on is stated as the laws of
  the locales of ClusterLaws and as named hypotheses.
\<close>

section \<open>The API server\<close>

text \<open>A \<open>labels.Selector\<close> is used through \<open>Matches\<close> only.\<close>

type_synonym selector = "labels \<Rightarrow> bool"

record list_options =
  lo_selector :: "selector option"
  lo_namespace :: string

definition no_options :: list_options where
  "no_options = \<lparr>lo_selector = None, lo_namespace = ''''\<rparr>"

definition in_namespace :: "string \<Rightarrow> list_options" where
  "in_namespace n = \<lparr>lo_selector = None, lo_namespace = n\<rparr>"

text \<open>
  The calls on one resource type. \<open>CreateOrUpdate\<close> takes the object that names the
  resource and the function that mutates the existing object, or that one when there is none.
\<close>

record ('w, 'o) resource_api =
  api_get :: "namespaced_name \<Rightarrow> ('w, 'o) eff"
  api_list :: "list_options \<Rightarrow> ('w, 'o list) eff"
  api_delete :: "'o \<Rightarrow> ('w, unit) eff"
  api_create_or_update :: "'o \<Rightarrow> ('o \<Rightarrow> 'o result) \<Rightarrow> ('w, unit) eff"

section \<open>Owners\<close>

text \<open>
  The parent of an object: its Go type, through which the scheme finds its kind, its
  \<open>TypeMeta\<close>, which \<open>GetObjectKind\<close> reads, and its metadata.
\<close>

datatype go_type = GoFork | GoService | GoForkManager

record owner =
  ow_go_type :: go_type
  ow_gvk :: gvk
  ow_meta :: object_meta

definition fork_owner :: "fork \<Rightarrow> owner" where
  "fork_owner f = \<lparr>ow_go_type = GoFork, ow_gvk = fork_type f, ow_meta = fork_meta f\<rparr>"

definition service_owner :: "service \<Rightarrow> owner" where
  "service_owner s = \<lparr>ow_go_type = GoService, ow_gvk = svc_type s, ow_meta = svc_meta s\<rparr>"

definition fork_manager_owner :: "fork_manager \<Rightarrow> owner" where
  "fork_manager_owner m = \<lparr>ow_go_type = GoForkManager, ow_gvk = fm_type m, ow_meta = fm_meta m\<rparr>"

section \<open>The environment\<close>

record requirement =
  req_key :: string
  req_operator :: string
  req_values :: "string list"

record ('w, 'u) env =
  env_forks :: "('w, fork) resource_api"
  env_fork_managers :: "('w, fork_manager) resource_api"
  env_services :: "('w, service) resource_api"
  env_deployments :: "('w, deployment) resource_api"
  env_vsconfigs :: "('w, vsconfig) resource_api"
  env_mappings :: "('w, mapping) resource_api"
  env_create_or_update :: "client_object \<Rightarrow> (client_object \<Rightarrow> client_object result) \<Rightarrow> ('w, unit) eff"
  env_list_unstructured :: "gvk \<Rightarrow> list_options \<Rightarrow> ('w, 'u unstructured list) eff"
  env_delete_unstructured :: "'u unstructured \<Rightarrow> ('w, unit) eff"
  env_convert :: "client_object \<Rightarrow> client_object \<Rightarrow> client_object result"
  env_set_controller_reference :: "owner \<Rightarrow> object_meta \<Rightarrow> object_meta result"
  env_vsconfig_from_unstructured :: "'u unstructured \<Rightarrow> vsconfig result"
  env_virtual_service_from_unstructured :: "'u unstructured \<Rightarrow> virtual_service result"
  env_group_version_string :: "gvk \<Rightarrow> string"
  env_label_selector_as_selector :: "label_selector option \<Rightarrow> selector result"
  env_set_as_selector :: "labels \<Rightarrow> selector"
  env_labels_everything :: selector
  env_new_requirement :: "string \<Rightarrow> string \<Rightarrow> string list \<Rightarrow> requirement result"
  env_selector_add :: "selector \<Rightarrow> requirement \<Rightarrow> selector"
  env_string_set_list :: "string fset \<Rightarrow> string list"
  env_time_before :: "time \<Rightarrow> time \<Rightarrow> bool"
  env_fused_multiply_subtract :: bool

end
