(* ===== verification/Float64.thy ===== *)
theory Float64
  imports Complex_Main "HOL-Library.Log_Nat"
begin

text \<open>
  Go's \<open>float64\<close> arithmetic on the magnitudes the program uses (lengths of strings, far
  from overflow and from the subnormal numbers): the exact rational result rounded to the
  nearest number with a 53-bit significand, ties to even. The Go specification lets a
  compiler fuse a multiplication with a following subtraction and skip the rounding of the
  product; the development covers both.
\<close>

section \<open>Rounding to nearest, ties to even\<close>

definition round_half_even :: "rat \<Rightarrow> int" where
  "round_half_even x =
     (let f = \<lfloor>x\<rfloor>; r = x - of_int f
      in if r < 1 / 2 then f else if 1 / 2 < r then f + 1 else if even f then f else f + 1)"

definition binary_exponent :: "rat \<Rightarrow> int" where
  "binary_exponent x =
     (case quotient_of x of (n, d) \<Rightarrow>
        let e = bitlen \<bar>n\<bar> - bitlen d in if 2 powi e \<le> \<bar>x\<bar> then e else e - 1)"

definition f64_round :: "rat \<Rightarrow> rat" where
  "f64_round x =
     (if x = 0 then 0
      else let u = 2 powi (binary_exponent x - 52) in of_int (round_half_even (x / u)) * u)"

lemma round_half_even_error: "\<bar>of_int (round_half_even x) - x\<bar> \<le> 1 / 2"
proof -
  have "of_int \<lfloor>x\<rfloor> \<le> x" "x < of_int \<lfloor>x\<rfloor> + 1" by linarith+
  then show ?thesis by (auto simp: round_half_even_def Let_def abs_le_iff field_simps)
qed

lemma round_half_even_of_int [simp]: "round_half_even (of_int n) = n"
  by (simp add: round_half_even_def)

lemma bitlen_power_bounds:
  assumes "0 < n"
  shows "2 powi (bitlen n - 1) \<le> (of_int n :: rat)" and "(of_int n :: rat) < 2 powi bitlen n"
proof -
  have ge: "1 \<le> bitlen n"
    using assms bitlen_eq_zero_iff [of n] bitlen_nonneg [of n] by linarith
  have "2 ^ nat (bitlen n - 1) \<le> n" "n < 2 ^ nat (bitlen n)"
    using bitlen_bounds [OF assms] by auto
  then have "(2 :: rat) ^ nat (bitlen n - 1) \<le> of_int n" "of_int n < (2 :: rat) ^ nat (bitlen n)"
    by (metis of_int_le_iff of_int_numeral of_int_power,
        metis of_int_less_iff of_int_numeral of_int_power)
  with ge show "2 powi (bitlen n - 1) \<le> (of_int n :: rat)" "(of_int n :: rat) < 2 powi bitlen n"
    by (simp_all add: power_int_def)
qed

lemma binary_exponent_le:
  assumes "x \<noteq> 0"
  shows "2 powi binary_exponent x \<le> \<bar>x\<bar>"
proof -
  obtain n d where q: "quotient_of x = (n, d)" by fastforce
  then have d: "0 < d" by (rule quotient_of_denom_pos)
  have x: "x = of_int n / of_int d" using quotient_of_div [OF q] .
  with assms have n: "0 < \<bar>n\<bar>" by auto
  have "(2 :: rat) powi (bitlen \<bar>n\<bar> - bitlen d - 1) = 2 powi (bitlen \<bar>n\<bar> - 1) / 2 powi bitlen d"
    by (simp flip: power_int_diff add: algebra_simps)
  also have "\<dots> \<le> of_int \<bar>n\<bar> / of_int d"
    using bitlen_power_bounds [OF n] bitlen_power_bounds [OF d] d by (intro frac_le) auto
  also have "\<dots> = \<bar>x\<bar>" using x d by simp
  finally show ?thesis using q by (simp add: binary_exponent_def Let_def)
qed

section \<open>Error bound and exactness\<close>

lemma f64_round_0 [simp]: "f64_round 0 = 0"
  by (simp add: f64_round_def)

lemma f64_round_error: "\<bar>f64_round x - x\<bar> \<le> \<bar>x\<bar> / 2 ^ 53"
proof (cases "x = 0")
  case False
  define u :: rat where "u = 2 powi (binary_exponent x - 52)"
  have u: "0 < u" by (simp add: u_def)
  have "u = 2 powi binary_exponent x / 2 ^ 52"
    by (simp add: u_def power_int_diff)
  then have small: "u \<le> \<bar>x\<bar> / 2 ^ 52"
    using binary_exponent_le [OF False] by (simp add: divide_right_mono)
  have "f64_round x - x = (of_int (round_half_even (x / u)) - x / u) * u"
    using False u by (simp add: f64_round_def Let_def u_def [symmetric] field_simps)
  then have "\<bar>f64_round x - x\<bar> = \<bar>of_int (round_half_even (x / u)) - x / u\<bar> * u"
    using u by (simp add: abs_mult)
  also have "\<dots> \<le> 1 / 2 * u"
    using round_half_even_error [of "x / u"] u by (intro mult_right_mono) auto
  also have "\<dots> \<le> \<bar>x\<bar> / 2 ^ 53" using small by (simp add: field_simps)
  finally show ?thesis .
qed simp

lemma f64_round_of_int:
  assumes "\<bar>n\<bar> < 2 ^ 53"
  shows "f64_round (of_int n) = of_int n"
proof (cases "n = 0")
  case False
  define e where "e = binary_exponent (of_int n)"
  have "(2 :: rat) powi e \<le> of_int \<bar>n\<bar>"
    using binary_exponent_le [of "of_int n"] False by (simp add: e_def)
  also have "\<dots> < 2 powi 53"
    using assms by (metis of_int_less_iff of_int_numeral of_int_power power_int_numeral)
  finally have "(2 :: rat) powi e < 2 powi 53" .
  then have "\<not> 53 \<le> e" using power_int_increasing [of 53 e "2 :: rat"] by auto
  then obtain k where k: "52 - e = int k" using nonneg_int_cases [of "52 - e"] by auto
  have "(of_int n :: rat) / 2 powi (e - 52) = of_int n * 2 powi (52 - e)"
    by (simp add: power_int_diff field_simps)
  also have "\<dots> = of_int (n * 2 ^ k)" by (simp add: k)
  finally have exact: "(of_int n :: rat) / 2 powi (e - 52) = of_int (n * 2 ^ k)" .
  then have "of_int (round_half_even ((of_int n :: rat) / 2 powi (e - 52))) = (of_int n :: rat) / 2 powi
      (e - 52)"
    by (simp only: round_half_even_of_int)
  with False show ?thesis
    by (simp add: f64_round_def Let_def e_def)
qed simp

section \<open>Operations\<close>

definition f64_of_len :: "nat \<Rightarrow> rat" where
  "f64_of_len n = f64_round (of_nat n)"

definition f64_sub :: "rat \<Rightarrow> rat \<Rightarrow> rat" where
  "f64_sub x y = f64_round (x - y)"

definition f64_mult :: "rat \<Rightarrow> rat \<Rightarrow> rat" where
  "f64_mult x y = f64_round (x * y)"

definition f64_div :: "rat \<Rightarrow> rat \<Rightarrow> rat" where
  "f64_div x y = f64_round (x / y)"

text \<open>\<open>x - y * z\<close>: with a fused multiply-subtract the product is not rounded.\<close>

definition f64_sub_mult :: "bool \<Rightarrow> rat \<Rightarrow> rat \<Rightarrow> rat \<Rightarrow> rat" where
  "f64_sub_mult fused x y z = (if fused then f64_round (x - y * z) else f64_sub x (f64_mult y z))"

text \<open>The conversion \<open>int(x)\<close> discards the fraction.\<close>

definition trunc_int :: "rat \<Rightarrow> int" where
  "trunc_int x = (if x < 0 then \<lceil>x\<rceil> else \<lfloor>x\<rfloor>)"

lemma f64_of_len_exact [simp]: "n < 2 ^ 53 \<Longrightarrow> f64_of_len n = of_nat n"
  using f64_round_of_int [of "int n"] by (simp add: f64_of_len_def)

section \<open>Scaling a length down\<close>

text \<open>
  What the callers need of a rounding function: a relative error of at most \<open>2^-53\<close>. Under
  it, \<open>x - x / n * (n - m)\<close>, a share \<open>m / n\<close> of \<open>x\<close>, is off by less than
  \<open>2^-50 * x\<close>, whether the product is rounded or not.
\<close>

locale rounding =
  fixes rnd :: "rat \<Rightarrow> rat"
  assumes rnd_error: "\<bar>rnd x - x\<bar> \<le> \<bar>x\<bar> / 2 ^ 53"
begin

lemma rnd_bounds:
  assumes "0 \<le> x"
  shows "x - x / 2 ^ 53 \<le> rnd x" and "rnd x \<le> x + x / 2 ^ 53" and "0 \<le> rnd x"
proof -
  have le: "\<bar>rnd x - x\<bar> \<le> x / 2 ^ 53" using rnd_error [of x] by (simp only: abs_of_nonneg [OF assms])
  have e: "rnd x - x \<le> x / 2 ^ 53" "x - rnd x \<le> x / 2 ^ 53"
    using abs_le_D1 [OF le] abs_le_D2 [OF le] by (simp_all only: minus_diff_eq)
  then show "x - x / 2 ^ 53 \<le> rnd x" "rnd x \<le> x + x / 2 ^ 53" by linarith+
  have "x / 2 ^ 53 \<le> x" using assms by simp
  with e show "0 \<le> rnd x" by linarith
qed

lemma rnd_product:
  assumes "0 \<le> x" "0 < n" "0 \<le> r"
  shows "\<bar>rnd (rnd (x / n) * r) - x * r / n\<bar> \<le> 3 * (x * r / n / 2 ^ 53)"
    and "\<bar>rnd (x / n) * r - x * r / n\<bar> \<le> 3 * (x * r / n / 2 ^ 53)"
proof -
  define t where "t = x * r / n"
  define q where "q = rnd (x / n) * r"
  have t: "0 \<le> t" using assms by (simp add: t_def)
  have "0 \<le> x / n" using assms by simp
  note b = rnd_bounds [OF this]
  have "q \<le> (x / n + x / n / 2 ^ 53) * r" "(x / n - x / n / 2 ^ 53) * r \<le> q"
    unfolding q_def using b(1,2) assms(3) by (metis mult_right_mono)+
  then have q: "q \<le> t + t / 2 ^ 53" "t - t / 2 ^ 53 \<le> q"
    by (simp_all add: t_def algebra_simps)
  with t have "\<bar>q - t\<bar> \<le> 3 * (t / 2 ^ 53)" by - (rule abs_leI; linarith)
  then show "\<bar>rnd (x / n) * r - x * r / n\<bar> \<le> 3 * (x * r / n / 2 ^ 53)"
    by (simp add: q_def t_def)
  have "0 \<le> q" using b(3) assms by (simp add: q_def)
  note c = rnd_bounds [OF this]
  have "t / 2 ^ 53 \<le> t" using t by simp
  with q have "q / 2 ^ 53 \<le> 2 * t / 2 ^ 53" by (intro divide_right_mono) auto
  then have "q / 2 ^ 53 \<le> 2 * (t / 2 ^ 53)" by simp
  with c q t have "\<bar>rnd q - t\<bar> \<le> 3 * (t / 2 ^ 53)" by - (rule abs_leI; linarith)
  then show "\<bar>rnd (rnd (x / n) * r) - x * r / n\<bar> \<le> 3 * (x * r / n / 2 ^ 53)"
    by (simp add: q_def t_def)
qed

text \<open>The share that is left after the cut, for either product.\<close>

lemma share_bounds:
  assumes "0 \<le> x" "0 < m" "m \<le> n" "n \<le> 2 ^ 50 * m"
    and p: "\<bar>p - x * (n - m) / n\<bar> \<le> 3 * (x * (n - m) / n / 2 ^ 53)"
  shows "0 \<le> rnd (x - p)" and "rnd (x - p) \<le> x * m / n + x / 2 ^ 50"
proof -
  define t where "t = x * (n - m) / n"
  define s where "s = x * m / n"
  have n: "0 < n" using assms by linarith
  have t: "0 \<le> t" using assms n by (simp add: t_def)
  have ts: "t = x - s" using n by (simp add: t_def s_def field_simps)
  have "x * n \<le> x * (2 ^ 50 * m)" using assms by (intro mult_left_mono)
  then have s_low: "x / 2 ^ 50 \<le> s" using n by (simp add: s_def field_simps)
  have "x * m \<le> x * n" using assms by (intro mult_left_mono)
  then have s_high: "s \<le> x" using n by (simp add: s_def field_simps)
  have p: "p - t \<le> 3 * (t / 2 ^ 53)" "t - p \<le> 3 * (t / 2 ^ 53)"
    using abs_le_D1 [OF p] abs_le_D2 [OF p] by (simp_all only: t_def minus_diff_eq)
  have eight: "x / 2 ^ 50 = 8 * (x / 2 ^ 53)" by simp
  have t_small: "t / 2 ^ 53 \<le> x / 2 ^ 53" using ts s_low assms(1) by (intro divide_right_mono) auto
  have small: "0 \<le> x / 2 ^ 53" "0 \<le> x / 2 ^ 50" using assms(1) by auto
  have "0 \<le> x - p" using p(1) ts s_low eight t_small small by linarith
  note b = rnd_bounds [OF this]
  show "0 \<le> rnd (x - p)" by (rule b)
  show "rnd (x - p) \<le> x * m / n + x / 2 ^ 50"
  proof -
    have "x - p \<le> 2 * x" using p(2) ts t s_high t_small eight small s_low by linarith
    then have "(x - p) / 2 ^ 53 \<le> 2 * x / 2 ^ 53" by (intro divide_right_mono) auto
    then have "(x - p) / 2 ^ 53 \<le> 2 * (x / 2 ^ 53)" by simp
    then show ?thesis
      using b(2) p(2) ts t_small eight small unfolding s_def [symmetric] by linarith
  qed
qed

end

interpretation f64: rounding f64_round
  by unfold_locales (rule f64_round_error)

lemma f64_share:
  assumes "0 \<le> x" "0 < m" "m \<le> n" "n \<le> 2 ^ 50 * m"
  shows "0 \<le> f64_sub_mult fused x (f64_div x n) (n - m)"
    and "f64_sub_mult fused x (f64_div x n) (n - m) \<le> x * m / n + x / 2 ^ 50"
proof -
  have n: "0 < n" "0 \<le> n - m" using assms by auto
  note p = f64.rnd_product [OF assms(1) n]
  show "0 \<le> f64_sub_mult fused x (f64_div x n) (n - m)"
    "f64_sub_mult fused x (f64_div x n) (n - m) \<le> x * m / n + x / 2 ^ 50"
    using f64.share_bounds [OF assms p(1)] f64.share_bounds [OF assms p(2)]
    by (auto simp: f64_sub_mult_def f64_sub_def f64_mult_def f64_div_def)
qed

end
