(* ===== verification/Refresh.thy ===== *)
theory Refresh
  imports Environment Float64
begin

text \<open>
  \<^verbatim>\<open>pkg/refresh/refresh.go\<close>: the refresher that makes the objects of one kind owned by a
  parent equal to a list, by deleting, updating and creating them.
\<close>

section \<open>Object lists\<close>

record 'u object_list =
  ol_items :: "client_object list"
  ol_gvk :: gvk
  ol_identity :: "'u any_object \<Rightarrow> string result"

section \<open>Names of created resources\<close>

text \<open>
  \<open>createResourceName\<close>, with the format \<open>%s-%s\<close> of its only call: a name of 60 bytes
  or more is cut by shortening both parts in proportion to their lengths.
\<close>

definition create_resource_name :: "bool \<Rightarrow> string \<Rightarrow> string \<Rightarrow> string result" where
  "create_resource_name fused first final =
     (let name = sprintf_dash first final;
          len = f64_of_len (length name)
      in if len < 60 then Ok name
         else
           let rest_len = f64_sub len 60;
               first_len = f64_of_len (length first);
               last_len = f64_of_len (length final);
               first_pos = trunc_int (f64_sub_mult fused first_len (f64_div first_len len) rest_len);
               last_pos = trunc_int (f64_sub_mult fused last_len (f64_div last_len len) rest_len)
           in bind_result (slice_to first first_pos) (\<lambda>a.
              bind_result (slice_to final last_pos) (\<lambda>b. Ok (sprintf_dash a b))))"

text \<open>Lines 79 to 91: the name under which an object is written.\<close>

definition refresh_name ::
  "bool \<Rightarrow> owner \<Rightarrow> (string, 'u unstructured) fmap \<Rightarrow> string \<Rightarrow> client_object \<Rightarrow> string result" where
  "refresh_name fused parent existing obj_key obj =
     (case fmlookup existing obj_key of
        Some u \<Rightarrow> Ok (meta_name (us_meta u))
      | None \<Rightarrow>
          let name = meta_name (obj_meta obj) in
          if name \<noteq> '''' then Ok (if 63 < length name then take 63 name else name)
          else create_resource_name fused obj_key (meta_name (ow_meta parent)))"

section \<open>Existing objects\<close>

definition owned_by_parent :: "('w, 'u) env \<Rightarrow> object_meta \<Rightarrow> owner \<Rightarrow> bool" where
  "owned_by_parent env child parent \<longleftrightarrow>
     (\<exists>ref \<in> set (meta_owner_refs child).
        or_name ref = meta_name (ow_meta parent) \<and>
        or_api_version ref = env_group_version_string env (ow_gvk parent) \<and>
        or_kind ref = gvk_kind (ow_gvk parent))"

definition handle_existing_step ::
  "('w, 'u) env \<Rightarrow> owner \<Rightarrow> 'u object_list \<Rightarrow> string fset \<Rightarrow>
   'u unstructured \<Rightarrow> (string, 'u unstructured) fmap \<Rightarrow> ('w, (string, 'u unstructured) fmap) eff" where
  "handle_existing_step env parent lst desired_ids obj existing =
     (if \<not> owned_by_parent env (us_meta obj) parent then return existing
      else bind_eff (lift_result (ol_identity lst (Unstructured obj))) (\<lambda>id.
        if id |\<in>| desired_ids then return (fmupd id obj existing)
        else bind_eff (env_delete_unstructured env obj) (\<lambda>_. return existing)))"

definition handle_existing ::
  "('w, 'u) env \<Rightarrow> owner \<Rightarrow> 'u object_list \<Rightarrow> ('w, (string, 'u unstructured) fmap) eff" where
  "handle_existing env parent lst =
     bind_eff (lift_result (map_results (\<lambda>obj. ol_identity lst (Typed obj)) (ol_items lst))) (\<lambda>ids.
     bind_eff (env_list_unstructured env (ol_gvk lst) (in_namespace (meta_namespace (ow_meta parent)))) (\<lambda>objs.
     fold_eff (handle_existing_step env parent lst (fset_of_list ids)) objs fmempty))"

section \<open>Refresh\<close>

text \<open>
  The mutate function: everything is converted from the desired object, the controller
  reference is set, and the deferred function then restores the resource version, the
  namespace and the name the object had.
\<close>

definition refresh_mutate ::
  "('w, 'u) env \<Rightarrow> owner \<Rightarrow> client_object \<Rightarrow> client_object \<Rightarrow> client_object result" where
  "refresh_mutate env parent obj e =
     bind_result (env_convert env obj e) (\<lambda>c.
     bind_result (env_set_controller_reference env parent (obj_meta c)) (\<lambda>m.
     Ok (map_obj_meta
       (\<lambda>_. m\<lparr>meta_resource_version := meta_resource_version (obj_meta e),
               meta_namespace := meta_namespace (obj_meta e),
               meta_name := meta_name (obj_meta e)\<rparr>) c)))"

definition refresh_item ::
  "('w, 'u) env \<Rightarrow> owner \<Rightarrow> 'u object_list \<Rightarrow> (string, 'u unstructured) fmap \<Rightarrow>
   client_object \<Rightarrow> ('w, unit) eff" where
  "refresh_item env parent lst existing obj =
     bind_eff (lift_result (ol_identity lst (Typed obj))) (\<lambda>obj_key.
     bind_eff (lift_result
       (refresh_name (env_fused_multiply_subtract env) parent existing obj_key obj)) (\<lambda>name.
     env_create_or_update env
       (map_obj_meta (\<lambda>m. m\<lparr>meta_namespace := meta_namespace (ow_meta parent), meta_name := name\<rparr>)
         (zero_of_type obj))
       (refresh_mutate env parent obj)))"

definition refresh :: "('w, 'u) env \<Rightarrow> owner \<Rightarrow> 'u object_list \<Rightarrow> ('w, unit) eff" where
  "refresh env parent lst =
     bind_eff (handle_existing env parent lst) (\<lambda>existing.
     for_each (ol_items lst) (refresh_item env parent lst existing))"

section \<open>Created names are short\<close>

lemma trunc_int_floor: "0 \<le> x \<Longrightarrow> trunc_int x = \<lfloor>x\<rfloor>"
  by (simp add: trunc_int_def)

lemma share_position:
  fixes x n :: nat and fused :: bool
  assumes "x < n" "60 \<le> n" "n < 2 ^ 48"
  defines "d \<equiv> f64_sub_mult fused (of_nat x) (f64_div (of_nat x) (of_nat n)) (of_nat n - 60)"
  shows "0 \<le> \<lfloor>d\<rfloor>" and "\<lfloor>d\<rfloor> \<le> int x" and "of_int \<lfloor>d\<rfloor> \<le> of_nat x * 60 / of_nat n + (1 / 4 :: rat)"
proof -
  have nx: "(of_nat n :: rat) < 2 ^ 48" "(of_nat x :: rat) < of_nat n" "(60 :: rat) \<le> of_nat n"
    using assms(1-3) by (metis of_nat_less_iff of_nat_numeral of_nat_power, simp,
        metis of_nat_le_iff of_nat_numeral)
  have "(of_nat n :: rat) \<le> 2 ^ 50 * 60" using nx by simp
  note s = f64_share [OF of_nat_0_le_iff [of x] _ nx(3) this, of fused, folded d_def, simplified]
  have small: "(of_nat x :: rat) / 2 ^ 50 \<le> 1 / 4" using nx by simp
  then have d: "d \<le> of_nat x * 60 / of_nat n + 1 / 4" using s(2) by simp
  show "0 \<le> \<lfloor>d\<rfloor>" using s(1) by simp
  show "of_int \<lfloor>d\<rfloor> \<le> of_nat x * 60 / of_nat n + (1 / 4 :: rat)"
    using d of_int_floor_le [of d] by linarith
  have "of_nat x * 60 / of_nat n \<le> (of_nat x :: rat)"
    using nx mult_left_mono [OF nx(3), of "of_nat x"] by (simp add: field_simps)
  with d have "d < of_nat x + 1" by linarith
  then show "\<lfloor>d\<rfloor> \<le> int x" by (simp add: floor_le_iff)
qed

text \<open>
  No slice of \<open>createResourceName\<close> is out of range, and the name it returns fits the
  limit of 63 bytes, for every length below 2^48 bytes and whether or not the compiler fuses
  the multiplication and the subtraction.
\<close>

lemma create_resource_name_bound:
  assumes "length first < 2 ^ 47" "length final < 2 ^ 47 - 1"
  shows "\<exists>name. create_resource_name fused first final = Ok name \<and> length name \<le> 61"
proof -
  define n where "n = length (sprintf_dash first final)"
  have n: "n = length first + length final + 1" "n < 2 ^ 48" using assms by (simp_all add: n_def)
  show ?thesis
  proof (cases "n < 60")
    case True
    then have "create_resource_name fused first final = Ok (sprintf_dash first final)"
      by (simp add: create_resource_name_def n_def)
    with True show ?thesis by (simp add: n_def)
  next
    case False
    define cut where
      "cut x = \<lfloor>f64_sub_mult fused (of_nat x) (f64_div (of_nat x) (of_nat n)) (of_nat n - 60)\<rfloor>" for x :: nat
    have share: "0 \<le> cut x" "cut x \<le> int x" "of_int (cut x) \<le> of_nat x * 60 / of_nat n + (1 / 4 :: rat)"
      if "x < n" for x
      using share_position [of x n fused] that False n(2) by (auto simp: cut_def)
    have nonneg: "0 \<le> f64_sub_mult fused (of_nat x) (f64_div (of_nat x) (of_nat n)) (of_nat n - 60)"
      if "x < n" for x using share(1) [OF that] by (simp add: cut_def)
    have lt: "length first < n" "length final < n" using n by simp_all
    have "(of_int (cut (length first) + cut (length final)) :: rat)
        \<le> of_nat (length first + length final) * 60 / of_nat n + 1 / 2"
      using share(3) [OF lt(1)] share(3) [OF lt(2)] by (simp add: add_divide_distrib distrib_right)
    also have "\<dots> < 61"
      using n False by (simp add: field_simps flip: of_nat_add)
    finally have sum: "cut (length first) + cut (length final) \<le> 60" by linarith
    have rest: "f64_sub (of_nat n) 60 = of_nat n - 60"
      using f64_round_of_int [of "int n - 60"] n(2) by (simp add: f64_sub_def)
    have len: "f64_of_len n = of_nat n" "f64_of_len (length first) = of_nat (length first)"
      "f64_of_len (length final) = of_nat (length final)" using n by simp_all
    have "create_resource_name fused first final =
      Ok (sprintf_dash (take (nat (cut (length first))) first) (take (nat (cut (length final))) final))"
      using False share(1,2) [OF lt(1)] share(1,2) [OF lt(2)] nonneg [OF lt(1)] nonneg [OF lt(2)]
      by (simp add: create_resource_name_def Let_def n_def [symmetric] len rest trunc_int_floor
          cut_def [symmetric] slice_to_ok del: length_sprintf_dash)
    moreover have "length (sprintf_dash (take (nat (cut (length first))) first)
        (take (nat (cut (length final))) final)) \<le> 61"
      using sum share [OF lt(1)] share [OF lt(2)] by simp
    ultimately show ?thesis by blast
  qed
qed

end
