(* ===== verification/AppLister.thy ===== *)
theory AppLister
  imports Refresh
begin

text \<open>
  \<^verbatim>\<open>domain/lister/internal\<close>: the builder that collects what a fork needs from the API server
  and the application that turns it into three object lists, the copies of deployments, the
  copies of services and the VSConfigs.
\<close>

section \<open>Maps of labels (deployment.go, builder.go)\<close>

definition merge_map :: "string order \<Rightarrow> labels list \<Rightarrow> labels" where
  "merge_map ord ms = foldl (\<lambda>merged m. range_fold ord fmupd m merged) fmempty ms"

definition inverse_map :: "string order \<Rightarrow> (string, string list) fmap \<Rightarrow> (string, string list) fmap" where
  "inverse_map ord m =
     range_fold ord (\<lambda>old_key items out.
       fold (\<lambda>new_key out.
         case fmlookup out new_key of
           None \<Rightarrow> fmupd new_key [old_key] out
         | Some current \<Rightarrow> fmupd new_key (current @ [old_key]) out) items out) m fmempty"

section \<open>Copies of services (service.go)\<close>

definition get_label_key_for_routing_label :: "string \<Rightarrow> string" where
  "get_label_key_for_routing_label original_service_name =
     sprintf_dash ''fork.k8s.wantedly.com/routed-from'' original_service_name"

definition fork_identifier_label_key :: string where
  "fork_identifier_label_key = ''fork.k8s.wantedly.com/identifier''"

definition service_name :: "service \<Rightarrow> fork \<Rightarrow> string" where
  "service_name s fork = sprintf_dash (meta_name (svc_meta s)) (meta_name (fork_meta fork))"

definition copy_service_port :: "service_port \<Rightarrow> service_port" where
  "copy_service_port port =
     \<lparr>sp_name = sp_name port, sp_protocol = sp_protocol port, sp_app_protocol = sp_app_protocol port,
      sp_port = sp_port port, sp_target_port = sp_target_port port, sp_node_port = 0\<rparr>"

definition build_service_copy :: "service \<Rightarrow> fork \<Rightarrow> (string, service) fmap \<Rightarrow> service" where
  "build_service_copy s fork existing =
     \<lparr>svc_type = zero_gvk,
      svc_meta = object_meta_of (service_name s fork) (meta_namespace (fork_meta fork)),
      svc_spec =
        \<lparr>ss_type = ''ClusterIP'',
         ss_cluster_ip = (case fmlookup existing (service_name s fork) of
             Some e \<Rightarrow> ss_cluster_ip (svc_spec e) | None \<Rightarrow> ''''),
         ss_ports = map copy_service_port (ss_ports (svc_spec s)),
         ss_selector =
           fmupd fork_identifier_label_key (spec_identifier (fork_spec fork))
             (fmupd (get_label_key_for_routing_label (meta_name (svc_meta s))) ''true'' fmempty)\<rparr>\<rparr>"

definition build_vsconfig :: "service \<Rightarrow> fork \<Rightarrow> string \<Rightarrow> vsconfig" where
  "build_vsconfig s fork header_name =
     \<lparr>vsc_type = zero_gvk,
      vsc_meta = object_meta_of (service_name s fork) (meta_namespace (fork_meta fork)),
      vsc_spec = \<lparr>vsc_host = meta_name (svc_meta s), vsc_service = service_name s fork,
                  vsc_header_name = header_name, vsc_header_value = spec_identifier (fork_spec fork)\<rparr>\<rparr>"

section \<open>Copies of deployments (deployment.go)\<close>

text \<open>
  \<open>fork.Spec.Deployments\<close> and the embedded \<open>*ObjectMeta\<close> of the template are pointers
  that the code follows without a check.
\<close>

definition deployment_copy_labels :: "fork \<Rightarrow> string list \<Rightarrow> labels" where
  "deployment_copy_labels fork service_names =
     fold (\<lambda>s ls. fmupd (get_label_key_for_routing_label s) ''true'' ls) service_names
       (fmupd fork_identifier_label_key (spec_identifier (fork_spec fork)) fmempty)"

definition copied_container :: "container \<Rightarrow> container" where
  "copied_container ctr = \<lparr>ctr_name = ctr_name ctr, ctr_image = ctr_image ctr, ctr_env = ctr_env ctr\<rparr>"

definition build_deployment_copy_spec ::
  "string order \<Rightarrow> deployment \<Rightarrow> fork \<Rightarrow> string list \<Rightarrow> deployment_copy_spec result" where
  "build_deployment_copy_spec ord d fork service_names =
     (case spec_deployments (fork_spec fork) of
        None \<Rightarrow> Panic NilDereference
      | Some deployments \<Rightarrow>
          let spec = \<lparr>dc_replicas = (case fd_replicas deployments of None \<Rightarrow> 1 | Some n \<Rightarrow> n),
                      dc_target_deployment_name = meta_name (dep_meta d),
                      dc_name_suffix = meta_name (fork_meta fork),
                      dc_custom_labels = deployment_copy_labels fork service_names,
                      dc_custom_annotations = fmempty,
                      dc_target_containers = []\<rparr>
          in case fd_template deployments of
               None \<Rightarrow> Ok spec
             | Some tmpl \<Rightarrow>
                 (case pts_metadata tmpl of
                    None \<Rightarrow> Panic NilDereference
                  | Some m \<Rightarrow>
                      Ok (spec\<lparr>dc_custom_labels := merge_map ord [dc_custom_labels spec, meta_labels m],
                               dc_custom_annotations := merge_map ord [dc_custom_annotations spec,
                                   meta_annotations m],
                               dc_target_containers := map copied_container (ps_containers (pts_spec tmpl))\<rparr>)))"

definition build_deployment_copy ::
  "string order \<Rightarrow> deployment \<Rightarrow> fork \<Rightarrow> string list \<Rightarrow> deployment_copy result" where
  "build_deployment_copy ord d fork service_names =
     bind_result (build_deployment_copy_spec ord d fork service_names) (\<lambda>spec.
     Ok \<lparr>dc_type = zero_gvk,
         dc_meta = object_meta_of (sprintf_dash (meta_name (dep_meta d)) (meta_name (fork_meta fork)))
                     (meta_namespace (fork_meta fork)),
         dc_spec = spec\<rparr>)"

section \<open>The application (application.go)\<close>

record app =
  app_services :: "service list"
  app_deployments :: "deployment list"
  app_existing_copied_services :: "(string, service) fmap"
  app_deploy_name_to_service_names :: "(string, string list) fmap"
  app_fork_header :: string
  app_fork :: fork

definition deployment_copy_list_gvk :: gvk where
  "deployment_copy_list_gvk =
     \<lparr>gvk_group = ''duplication.k8s.wantedly.com'', gvk_version = ''v1beta1'',
         gvk_kind = ''DeploymentCopyList''\<rparr>"

definition service_list_gvk :: gvk where
  "service_list_gvk = \<lparr>gvk_group = '''', gvk_version = ''v1'', gvk_kind = ''ServiceList''\<rparr>"

definition vsconfig_list_gvk :: gvk where
  "vsconfig_list_gvk = fork_group_kind ''VSConfigList''"

definition original_service_label_key :: string where
  "original_service_label_key = ''fork.k8s.wantedly.com/original-service-name''"

definition generate_deployment_copies :: "string order \<Rightarrow> app \<Rightarrow> 'u object_list result" where
  "generate_deployment_copies ord a =
     bind_result (map_results (\<lambda>d. bind_result
         (build_deployment_copy ord d (app_fork a)
           (lookup_list (app_deploy_name_to_service_names a) (meta_name (dep_meta d))))
         (\<lambda>c. Ok (ODeploymentCopy c))) (app_deployments a)) (\<lambda>copies.
     Ok \<lparr>ol_items = copies, ol_gvk = deployment_copy_list_gvk,
         ol_identity = (\<lambda>obj. Ok (meta_name (any_meta obj)))\<rparr>)"

definition labelled_service_copy :: "string order \<Rightarrow> app \<Rightarrow> service \<Rightarrow> service" where
  "labelled_service_copy ord a svc =
     (let obj = build_service_copy svc (app_fork a) (app_existing_copied_services a)
      in obj\<lparr>svc_meta := (svc_meta obj)\<lparr>meta_labels := merge_map ord
           [meta_labels (svc_meta obj),
            fmupd fork_identifier_label_key (spec_identifier (fork_spec (app_fork a)))
              (fmupd original_service_label_key (meta_name (svc_meta svc)) fmempty)]\<rparr>\<rparr>)"

definition generate_services :: "string order \<Rightarrow> app \<Rightarrow> 'u object_list" where
  "generate_services ord a =
     \<lparr>ol_items = map (\<lambda>svc. OService (labelled_service_copy ord a svc)) (app_services a),
      ol_gvk = service_list_gvk,
      ol_identity = (\<lambda>obj. Ok (case fmlookup (meta_labels (any_meta obj)) original_service_label_key of
                                 Some l \<Rightarrow> l | None \<Rightarrow> ''''))\<rparr>"

fun vsconfig_identity :: "('w, 'u) env \<Rightarrow> 'u any_object \<Rightarrow> string result" where
  "vsconfig_identity env (Typed (OVSConfig vs)) = Ok (vsc_host (vsc_spec vs))"
| "vsconfig_identity env (Unstructured u) =
     bind_result (env_vsconfig_from_unstructured env u) (\<lambda>vs. Ok (vsc_host (vsc_spec vs)))"
| "vsconfig_identity env (Typed _) = Err UnsupportedType"

definition generate_vsconfigs :: "('w, 'u) env \<Rightarrow> app \<Rightarrow> 'u object_list" where
  "generate_vsconfigs env a =
     \<lparr>ol_items = map (\<lambda>svc. OVSConfig (build_vsconfig svc (app_fork a) (app_fork_header a))) (app_services a),
      ol_gvk = vsconfig_list_gvk,
      ol_identity = vsconfig_identity env\<rparr>"

definition generate_app_lists :: "('w, 'u) env \<Rightarrow> string order \<Rightarrow> app \<Rightarrow> 'u object_list list result" where
  "generate_app_lists env ord a =
     bind_result (generate_deployment_copies ord a) (\<lambda>copies.
     Ok [copies, generate_services ord a, generate_vsconfigs env a])"

section \<open>The builder (builder.go)\<close>

text \<open>\<open><namespace>/<name>\<close>, as \<open>getForkHeaderKey\<close> and the fork controller read it.\<close>

definition parse_manager_slug :: "string \<Rightarrow> namespaced_name result" where
  "parse_manager_slug manager =
     (case go_split manager ''/'' of
        [namespace, name] \<Rightarrow> Ok (NN namespace name)
      | _ \<Rightarrow> Err MalformedManager)"

definition get_fork_header_key :: "('w, 'u) env \<Rightarrow> fork \<Rightarrow> ('w, string) eff" where
  "get_fork_header_key env fork =
     bind_eff (lift_result (parse_manager_slug (spec_manager (fork_spec fork)))) (\<lambda>slug.
     bind_eff (api_get (env_fork_managers env) slug) (\<lambda>fm.
     return (fm_header_key (fm_spec fm))))"

definition fork_target_services :: "('w, 'u) env \<Rightarrow> fork \<Rightarrow> ('w, service list) eff" where
  "fork_target_services env fork =
     (case spec_services (fork_spec fork) of
        None \<Rightarrow> return []
      | Some services \<Rightarrow>
          bind_eff (lift_result (env_label_selector_as_selector env (fs_selector services))) (\<lambda>selector.
          api_list (env_services env)
            \<lparr>lo_selector = Some selector, lo_namespace = meta_namespace (fork_meta fork)\<rparr>))"

definition existing_forked_services :: "('w, 'u) env \<Rightarrow> fork \<Rightarrow> ('w, (string, service) fmap) eff" where
  "existing_forked_services env fork =
     bind_eff (lift_result
       (env_new_requirement env fork_identifier_label_key ''='' [spec_identifier (fork_spec fork)])) (\<lambda>req.
     bind_eff (api_list (env_services env)
       \<lparr>lo_selector = Some (env_selector_add env (env_labels_everything env) req),
        lo_namespace = meta_namespace (fork_meta fork)\<rparr>) (\<lambda>items.
     return (fold (\<lambda>svc ret. fmupd (meta_name (svc_meta svc)) svc ret) items fmempty)))"

definition routable_from :: "('w, 'u) env \<Rightarrow> deployment \<Rightarrow> service \<Rightarrow> bool" where
  "routable_from env d svc = env_set_as_selector env (ss_selector (svc_spec svc)) (dep_template_labels d)"

definition list_deployments_routable_from_svc ::
  "('w, 'u) env \<Rightarrow> fork \<Rightarrow> service \<Rightarrow> ('w, deployment list) eff" where
  "list_deployments_routable_from_svc env fork svc =
     (case spec_deployments (fork_spec fork) of
        None \<Rightarrow> return []
      | Some deploys \<Rightarrow>
          (case fd_selector deploys of
             None \<Rightarrow> return []
           | Some sel \<Rightarrow>
               bind_eff (lift_result (env_label_selector_as_selector env (Some sel))) (\<lambda>selector.
               bind_eff (api_list (env_deployments env)
                 \<lparr>lo_selector = Some selector, lo_namespace = meta_namespace (fork_meta fork)\<rparr>) (\<lambda>items.
               return (filter (\<lambda>d. routable_from env d svc) items)))))"

text \<open>The body of the loop over the services: its state is the two maps it fills.\<close>

type_synonym deploy_maps = "(string, deployment) fmap \<times> (string, string list) fmap"

fun add_routable :: "service \<Rightarrow> deployment \<Rightarrow> deploy_maps \<Rightarrow> deploy_maps" where
  "add_routable svc d (deploy_set, names) =
     (fmupd (meta_name (dep_meta d)) d deploy_set,
      fmupd (meta_name (svc_meta svc))
        (lookup_list names (meta_name (svc_meta svc)) @ [meta_name (dep_meta d)]) names)"

definition collect_deployments ::
  "('w, 'u) env \<Rightarrow> fork \<Rightarrow> service \<Rightarrow> deploy_maps \<Rightarrow> ('w, deploy_maps) eff" where
  "collect_deployments env fork svc maps =
     bind_eff (list_deployments_routable_from_svc env fork svc) (\<lambda>dplys.
     return (fold (add_routable svc) dplys maps))"

definition sorted_deployments :: "string order \<Rightarrow> (string, deployment) fmap \<Rightarrow> deployment list" where
  "sorted_deployments ord deploy_set =
     sort_key (\<lambda>d. meta_name (dep_meta d)) (range_fold ord (\<lambda>_ d ds. ds @ [d]) deploy_set [])"

definition build_app :: "('w, 'u) env \<Rightarrow> string order \<Rightarrow> fork \<Rightarrow> ('w, app) eff" where
  "build_app env ord fork =
     bind_eff (get_fork_header_key env fork) (\<lambda>fork_header.
     bind_eff (fork_target_services env fork) (\<lambda>services.
     bind_eff (existing_forked_services env fork) (\<lambda>existing.
     bind_eff (fold_eff (collect_deployments env fork) services (fmempty, fmempty)) (\<lambda>(deploy_set, names).
     return \<lparr>app_services = services, app_deployments = sorted_deployments ord deploy_set,
             app_existing_copied_services = existing,
             app_deploy_name_to_service_names = inverse_map ord names,
             app_fork_header = fork_header, app_fork = fork\<rparr>))))"

end
