(* ===== verification/VSLister.thy ===== *)
theory VSLister
  imports Refresh
begin

text \<open>
  \<^verbatim>\<open>domain/lister/virtualservice.go\<close>: the VirtualService of a service, built from the
  VSConfigs of its namespace.
\<close>

section \<open>The builder\<close>

record vs_lister =
  vl_sorted_configs :: "vsconfig list"
  vl_service :: service

definition vsconfig_name :: "vsconfig \<Rightarrow> string" where
  "vsconfig_name c = meta_name (vsc_meta c)"

definition build_vs_lister :: "('w, 'u) env \<Rightarrow> namespaced_name \<Rightarrow> ('w, vs_lister) eff" where
  "build_vs_lister env service_slug =
     bind_eff (api_list (env_vsconfigs env) (in_namespace (nn_namespace service_slug))) (\<lambda>items.
     let sorted_configs = sort_key vsconfig_name items in
     bind_eff (api_get (env_services env) service_slug) (\<lambda>service.
     return \<lparr>vl_sorted_configs = sorted_configs, vl_service = service\<rparr>))"

section \<open>Routes\<close>

definition config_applies :: "vs_lister \<Rightarrow> vsconfig \<Rightarrow> bool" where
  "config_applies a config \<longleftrightarrow>
     \<not> (vsc_host (vsc_spec config) \<noteq> meta_name (svc_meta (vl_service a)) \<or>
        vsc_header_value (vsc_spec config) = '''')"

definition config_route :: "vsconfig \<Rightarrow> http_route" where
  "config_route config =
     \<lparr>hr_match = [fmupd (vsc_header_name (vsc_spec config)) (Exact (vsc_header_value (vsc_spec config)))
         fmempty],
      hr_route = [vsc_service (vsc_spec config)]\<rparr>"

definition build_http_routes :: "vs_lister \<Rightarrow> http_route list" where
  "build_http_routes a =
     map config_route (filter (config_applies a) (vl_sorted_configs a)) @
     [\<lparr>hr_match = [], hr_route = [meta_name (svc_meta (vl_service a))]\<rparr>]"

section \<open>The object list\<close>

definition label_key_for_vs :: string where
  "label_key_for_vs = ''fork.k8s.wantedly.com/service''"

definition virtual_service_gvk :: "string \<Rightarrow> gvk" where
  "virtual_service_gvk k = \<lparr>gvk_group = ''networking.istio.io'', gvk_version = ''v1beta1'', gvk_kind = k\<rparr>"

definition last_host :: "virtual_service \<Rightarrow> string" where
  "last_host vs = (if vs_hosts (vs_spec vs) = [] then '''' else last (vs_hosts (vs_spec vs)))"

fun virtual_service_identity :: "('w, 'u) env \<Rightarrow> 'u any_object \<Rightarrow> string result" where
  "virtual_service_identity env (Typed (OVirtualService vs)) = Ok (last_host vs)"
| "virtual_service_identity env (Unstructured u) =
     bind_result (env_virtual_service_from_unstructured env u) (\<lambda>vs. Ok (last_host vs))"
| "virtual_service_identity env (Typed _) = Err UnsupportedType"

text \<open>\<open>SetResourceVersion(GetResourceVersion())\<close> on the fresh object keeps the empty version.\<close>

definition virtual_service_of :: "vs_lister \<Rightarrow> http_route list \<Rightarrow> virtual_service" where
  "virtual_service_of a routes =
     (let name = meta_name (svc_meta (vl_service a));
          ns = meta_namespace (svc_meta (vl_service a))
      in \<lparr>vs_type = virtual_service_gvk ''VirtualService'',
          vs_meta = (object_meta_of name ns)\<lparr>meta_labels := fmupd label_key_for_vs name fmempty\<rparr>,
          vs_spec = \<lparr>vs_hosts = [name], vs_http = routes\<rparr>\<rparr>)"

definition build_virtual_service :: "('w, 'u) env \<Rightarrow> vs_lister \<Rightarrow> 'u object_list" where
  "build_virtual_service env a =
     (let routes = build_http_routes a
      in \<lparr>ol_items = (if length routes > 1 then [OVirtualService (virtual_service_of a routes)] else []),
          ol_gvk = virtual_service_gvk ''VirtualServiceList'',
          ol_identity = virtual_service_identity env\<rparr>)"

definition generate_vs_lists :: "('w, 'u) env \<Rightarrow> vs_lister \<Rightarrow> 'u object_list list" where
  "generate_vs_lists env a = [build_virtual_service env a]"

end
