(* ===== verification/Updaters.thy ===== *)
theory Updaters
  imports AppLister VSLister
begin

text \<open>
  \<^verbatim>\<open>domain/updater\<close>, except the mapping updater: the microservice updater (a fork's
  DeploymentCopies, Services and VSConfigs) and the VirtualService updater, and the
  interface \<open>Updater\<close> they implement.
\<close>

section \<open>UpdateAll\<close>

text \<open>
  Every updater lists its objects and updates them one after the other, stopping at the
  first failure.
\<close>

definition update_all ::
  "(list_options \<Rightarrow> ('w, 'o list) eff) \<Rightarrow> ('o \<Rightarrow> object_meta) \<Rightarrow>
   (namespaced_name \<Rightarrow> ('w, unit) eff) \<Rightarrow> list_options \<Rightarrow> ('w, unit) eff" where
  "update_all list_items meta update opts =
     bind_eff (list_items opts) (\<lambda>items. for_each items (\<lambda>item. update (meta_key (meta item))))"

section \<open>The microservice updater (microservice.go)\<close>

definition microservice_update ::
  "('w, 'u) env \<Rightarrow> string order \<Rightarrow> namespaced_name \<Rightarrow> ('w, unit) eff" where
  "microservice_update env ord fork_slug w =
     (case api_get (env_forks env) fork_slug w of
        (Err NotFound, w1) \<Rightarrow> (Ok (), w1)
      | (Err e, w1) \<Rightarrow> (Err e, w1)
      | (Panic p, w1) \<Rightarrow> (Panic p, w1)
      | (Ok fork, w1) \<Rightarrow>
          bind_eff (build_app env ord fork) (\<lambda>app.
          bind_eff (lift_result (generate_app_lists env ord app)) (\<lambda>resource_lists.
          for_each resource_lists (refresh env (fork_owner fork)))) w1)"

definition microservice_update_all ::
  "('w, 'u) env \<Rightarrow> string order \<Rightarrow> list_options \<Rightarrow> ('w, unit) eff" where
  "microservice_update_all env ord =
     update_all (api_list (env_forks env)) fork_meta (microservice_update env ord)"

section \<open>The VirtualService updater (virtualservice.go)\<close>

definition virtual_service_update :: "('w, 'u) env \<Rightarrow> namespaced_name \<Rightarrow> ('w, unit) eff" where
  "virtual_service_update env service_slug =
     bind_eff (api_get (env_services env) service_slug) (\<lambda>service.
     bind_eff (build_vs_lister env service_slug) (\<lambda>lstr.
     for_each (generate_vs_lists env lstr) (refresh env (service_owner service))))"

definition virtual_service_update_all :: "('w, 'u) env \<Rightarrow> list_options \<Rightarrow> ('w, unit) eff" where
  "virtual_service_update_all env =
     update_all (api_list (env_services env)) svc_meta (virtual_service_update env)"

end
