(* ===== verification/MappingUpdater.thy ===== *)
theory MappingUpdater
  imports Updaters
begin

text \<open>
  \<^verbatim>\<open>domain/updater/mapping.go\<close>: the Ambassador Mappings of a fork manager, one for every
  fork identifier and upstream.
\<close>

definition manager_label_key :: string where
  "manager_label_key = ''fork.k8s.wantedly.com/manager''"

definition trim_port :: "string \<Rightarrow> string" where
  "trim_port target = hd (go_split target '':'')"

definition group_forks_by_identifier :: "fork list \<Rightarrow> (string, fork list) fmap" where
  "group_forks_by_identifier forks =
     fold (\<lambda>f res.
       let identifier = spec_identifier (fork_spec f);
           res = (case fmlookup res identifier of None \<Rightarrow> fmupd identifier [] res | Some _ \<Rightarrow> res)
       in fmupd identifier (lookup_list res identifier @ [f]) res)
     forks fmempty"

text \<open>
  The options of one fork. The protocols to upgrade are merged inside the loop over the
  additional request headers.
\<close>

definition apply_options_to_mapping ::
  "('w, 'u) env \<Rightarrow> string order \<Rightarrow> fork \<Rightarrow> mapping_spec \<Rightarrow> mapping_spec" where
  "apply_options_to_mapping env ord fork spec =
     (case spec_gateway_options (fork_spec fork) of
        None \<Rightarrow> spec
      | Some opts \<Rightarrow>
          range_fold ord (\<lambda>k v s.
            s\<lparr>mp_add_request_headers := fmupd k (Some v) (mp_add_request_headers s),
              mp_allow_upgrade := env_string_set_list env
                (fset_of_list (mp_allow_upgrade s) |\<union>| fset_of_list (go_allow_upgrade opts))\<rparr>)
            (go_add_request_headers opts) spec)"

definition mapping_key :: "upstream \<Rightarrow> string \<Rightarrow> string" where
  "mapping_key upstream identifier =
     replace_all (us_host upstream @ ''-'' @ identifier) ''.'' ''-''"

definition mapping_base_spec :: "fork_manager \<Rightarrow> upstream \<Rightarrow> string \<Rightarrow> mapping_spec" where
  "mapping_base_spec fm upstream identifier =
     (let service = (if us_original upstream = '''' then ''https://'' @
         us_host upstream else us_original upstream)
      in \<lparr>mp_add_request_headers =
            fmupd ''x-forwarded-host'' (Some ''%REQ(:authority)%'')
              (fmupd (fm_header_key (fm_spec fm)) (Some identifier) fmempty),
          mp_allow_upgrade = [''websocket''],
          mp_ambassador_id = [fm_ambassador_id (fm_spec fm)],
          mp_host = identifier @ ''.'' @ us_host upstream,
          mp_prefix = ''/'',
          mp_rewrite = Some '''',
          mp_service = service,
          mp_timeout_ms = 90000,
          mp_host_rewrite =
            (if us_original upstream \<noteq> ''''
             then if us_host_rewrite upstream \<noteq> '''' then us_host_rewrite upstream
                  else trim_port (us_original upstream)
             else '''')\<rparr>)"

definition desired_mapping_spec ::
  "('w, 'u) env \<Rightarrow> string order \<Rightarrow> fork_manager \<Rightarrow> upstream \<Rightarrow> string \<Rightarrow> fork list \<Rightarrow> mapping_spec" where
  "desired_mapping_spec env ord fm upstream identifier forks =
     fold (apply_options_to_mapping env ord) forks (mapping_base_spec fm upstream identifier)"

definition mapping_mutate ::
  "('w, 'u) env \<Rightarrow> string order \<Rightarrow> namespaced_name \<Rightarrow> fork_manager \<Rightarrow> upstream \<Rightarrow> string \<Rightarrow> fork list \<Rightarrow>
   mapping \<Rightarrow> mapping result" where
  "mapping_mutate env ord manager_slug fm upstream identifier forks mp =
     (let meta = (mp_meta mp)\<lparr>meta_labels := fmupd manager_label_key (nn_name manager_slug) fmempty\<rparr>
      in bind_result (wrap_error ''failed to set controller reference''
           (env_set_controller_reference env (fork_manager_owner fm) meta)) (\<lambda>meta.
         Ok \<lparr>mp_meta = meta, mp_spec = desired_mapping_spec env ord fm upstream identifier forks\<rparr>))"

definition zero_mapping_spec :: mapping_spec where
  "zero_mapping_spec =
     \<lparr>mp_add_request_headers = fmempty, mp_allow_upgrade = [], mp_ambassador_id = [], mp_host = '''',
      mp_prefix = '''', mp_rewrite = None, mp_service = '''', mp_timeout_ms = 0, mp_host_rewrite = ''''\<rparr>"

definition named_mapping :: "namespaced_name \<Rightarrow> mapping" where
  "named_mapping key =
     \<lparr>mp_meta = object_meta_of (nn_name key) (nn_namespace key), mp_spec = zero_mapping_spec\<rparr>"

text \<open>One upstream of one identifier: the state of the loops is the set of candidates to delete.\<close>

definition update_upstream ::
  "('w, 'u) env \<Rightarrow> string order \<Rightarrow> namespaced_name \<Rightarrow> fork_manager \<Rightarrow> string \<Rightarrow> fork list \<Rightarrow>
   upstream \<Rightarrow> namespaced_name fset \<Rightarrow> ('w, namespaced_name fset) eff" where
  "update_upstream env ord manager_slug fm identifier forks upstream candidates =
     (let key = NN (meta_namespace (fm_meta fm)) (mapping_key upstream identifier);
          candidates = candidates |-| {|key|}
      in bind_eff (api_create_or_update (env_mappings env) (named_mapping key)
           (mapping_mutate env ord manager_slug fm upstream identifier forks)) (\<lambda>_.
         return candidates))"

definition update_identifier ::
  "('w, 'u) env \<Rightarrow> string order \<Rightarrow> namespaced_name \<Rightarrow> fork_manager \<Rightarrow> (string, fork list) fmap \<Rightarrow>
   string \<Rightarrow> namespaced_name fset \<Rightarrow> ('w, namespaced_name fset) eff" where
  "update_identifier env ord manager_slug fm fork_map identifier =
     fold_eff (update_upstream env ord manager_slug fm identifier
       (lookup_list fork_map identifier)) (fm_upstreams (fm_spec fm))"

definition mapping_update ::
  "('w, 'u) env \<Rightarrow> string order \<Rightarrow> namespaced_name order \<Rightarrow> namespaced_name \<Rightarrow> ('w, unit) eff" where
  "mapping_update env ord nn_ord manager_slug =
     bind_eff (api_get (env_fork_managers env) manager_slug) (\<lambda>fm.
     bind_eff (api_list (env_forks env) no_options) (\<lambda>frks.
     bind_eff (lift_result
       (env_new_requirement env manager_label_key ''='' [nn_name manager_slug])) (\<lambda>req.
     bind_eff (api_list (env_mappings env)
       \<lparr>lo_selector = Some (env_selector_add env (env_labels_everything env) req), lo_namespace = ''''\<rparr>) (\<lambda>mps.
     let fork_map = group_forks_by_identifier frks in
     bind_eff (fold_eff (update_identifier env ord manager_slug fm fork_map) (ord (fmdom fork_map))
       (fset_of_list (map (\<lambda>mp. meta_key (mp_meta mp)) mps))) (\<lambda>candidates.
     for_each (nn_ord candidates) (\<lambda>key. api_delete (env_mappings env) (named_mapping key)))))))"

definition mapping_update_all ::
  "('w, 'u) env \<Rightarrow> string order \<Rightarrow> namespaced_name order \<Rightarrow> list_options \<Rightarrow> ('w, unit) eff" where
  "mapping_update_all env ord nn_ord =
     update_all (api_list (env_fork_managers env)) fm_meta (mapping_update env ord nn_ord)"

end
