(* ===== verification/Controllers.thy ===== *)
theory Controllers
  imports MappingUpdater
begin

text \<open>
  \<^verbatim>\<open>controllers\<close> and \<^verbatim>\<open>pkg/middleware\<close>: the reconcile functions of Fork, VSConfig and
  Service, and the error-notifying wrapper around each of them.
\<close>

section \<open>Reconcile of a Fork (fork_controller.go)\<close>

text \<open>\<open>now\<close> is what the injected clock returns.\<close>

definition reconcile_fork_found ::
  "('w, 'u) env \<Rightarrow> string order \<Rightarrow> namespaced_name order \<Rightarrow> time \<Rightarrow> namespaced_name \<Rightarrow> fork \<Rightarrow>
   ('w, unit) eff" where
  "reconcile_fork_found env ord nn_ord now fork_slug frk =
     (if (case spec_deadline (fork_spec frk) of None \<Rightarrow> False | Some d \<Rightarrow> env_time_before env d now)
      then api_delete (env_forks env) frk
      else bind_eff (lift_result (parse_manager_slug (spec_manager (fork_spec frk)))) (\<lambda>nn.
           bind_eff (mapping_update env ord nn_ord nn) (\<lambda>_.
           microservice_update env ord fork_slug)))"

definition reconcile_fork ::
  "('w, 'u) env \<Rightarrow> string order \<Rightarrow> namespaced_name order \<Rightarrow> time \<Rightarrow> namespaced_name \<Rightarrow> ('w, unit) eff" where
  "reconcile_fork env ord nn_ord now req w =
     (case api_get (env_forks env) req w of
        (Err NotFound, w1) \<Rightarrow> mapping_update_all env ord nn_ord no_options w1
      | (Err e, w1) \<Rightarrow> (Err e, w1)
      | (Panic p, w1) \<Rightarrow> (Panic p, w1)
      | (Ok frk, w1) \<Rightarrow> reconcile_fork_found env ord nn_ord now req frk w1)"

section \<open>Reconcile of a VSConfig (vsconfig_controller.go)\<close>

definition reconcile_vsconfig :: "('w, 'u) env \<Rightarrow> namespaced_name \<Rightarrow> ('w, unit) eff" where
  "reconcile_vsconfig env req w =
     (case api_get (env_vsconfigs env) req w of
        (Err NotFound, w1) \<Rightarrow> virtual_service_update_all env (in_namespace (nn_namespace req)) w1
      | (Err e, w1) \<Rightarrow> (Err e, w1)
      | (Panic p, w1) \<Rightarrow> (Panic p, w1)
      | (Ok inst, w1) \<Rightarrow>
          virtual_service_update env (NN (nn_namespace req) (vsc_host (vsc_spec inst))) w1)"

section \<open>Reconcile of a Service (service_controller.go)\<close>

definition reconcile_service :: "('w, 'u) env \<Rightarrow> namespaced_name \<Rightarrow> ('w, unit) eff" where
  "reconcile_service env req w =
     (case api_get (env_services env) req w of
        (Err NotFound, w1) \<Rightarrow> (Ok (), w1)
      | (Err e, w1) \<Rightarrow> (Err e, w1)
      | (Panic p, w1) \<Rightarrow> (Panic p, w1)
      | (Ok _, w1) \<Rightarrow> virtual_service_update env req w1)"

section \<open>The middleware (honeybadger.go)\<close>

text \<open>
  \<open>notify\<close> is the call to the Honeybadger service. A nil reconciler stays nil.
\<close>

definition hb_reconcile ::
  "(error \<Rightarrow> 'w \<Rightarrow> 'w) \<Rightarrow> (namespaced_name \<Rightarrow> ('w, 'r) eff) \<Rightarrow> namespaced_name \<Rightarrow> ('w, 'r) eff" where
  "hb_reconcile notify orig req w =
     (case orig req w of
        (Err e, w1) \<Rightarrow> (Err e, notify e w1)
      | (r, w1) \<Rightarrow> (r, w1))"

definition honeybadger ::
  "(error \<Rightarrow> 'w \<Rightarrow> 'w) \<Rightarrow> (namespaced_name \<Rightarrow> ('w, 'r) eff) option \<Rightarrow>
   (namespaced_name \<Rightarrow> ('w, 'r) eff) option" where
  "honeybadger notify r = map_option (hb_reconcile notify) r"

end
