(* ===== verification/ClusterLaws.thy ===== *)
theory ClusterLaws
  imports AppLister VSLister
begin

text \<open>
  The contract between the refresher and the API server, as locales. The server is seen
  through a view \<open>objs\<close> of the objects stored for each of the four resources the program
  creates; the laws are the documented behaviour of the client when nobody else writes to
  the cluster during the run, reads are current and objects carry no finalizers. A request
  that fails may or may not have been applied.
\<close>

section \<open>What the server keeps of an object\<close>

text \<open>
  The server stores what it is sent, except that it allocates the cluster IP of a Service
  that has none, defaults the protocol and target of a port, and sets the resource version.
\<close>

definition service_spec_persisted :: "service_spec \<Rightarrow> service_spec \<Rightarrow> bool" where
  "service_spec_persisted a b \<longleftrightarrow>
     ss_type b = ss_type a \<and> ss_selector b = ss_selector a \<and>
     (ss_cluster_ip a \<noteq> '''' \<longrightarrow> ss_cluster_ip b = ss_cluster_ip a) \<and>
     list_all2 (\<lambda>p q. sp_name q = sp_name p \<and> sp_port q = sp_port p) (ss_ports a) (ss_ports b)"

fun spec_persisted :: "client_object \<Rightarrow> client_object \<Rightarrow> bool" where
  "spec_persisted (ODeploymentCopy a) (ODeploymentCopy b) = (dc_spec b = dc_spec a)"
| "spec_persisted (OService a) (OService b) = service_spec_persisted (svc_spec a) (svc_spec b)"
| "spec_persisted (OVSConfig a) (OVSConfig b) = (vsc_spec b = vsc_spec a)"
| "spec_persisted (OVirtualService a) (OVirtualService b) = (vs_spec b = vs_spec a)"
| "spec_persisted _ _ = False"

definition persisted :: "client_object \<Rightarrow> client_object \<Rightarrow> bool" where
  "persisted x s \<longleftrightarrow>
     spec_persisted x s \<and>
     obj_meta s = (obj_meta x)\<lparr>meta_resource_version := meta_resource_version (obj_meta s)\<rparr>"

lemma spec_persisted_resource: "spec_persisted x s \<Longrightarrow> resource_of s = resource_of x"
  by (cases x; cases s) auto

lemma spec_persisted_meta [simp]:
  "spec_persisted (map_obj_meta f x) s = spec_persisted x s"
  by (cases x; cases s) auto

lemma spec_persisted_clear [simp]: "spec_persisted (clear_type x) s = spec_persisted x s"
  by (cases x; cases s) auto

lemma persisted_meta:
  assumes "persisted x s"
  shows "meta_name (obj_meta s) = meta_name (obj_meta x)"
    and "meta_namespace (obj_meta s) = meta_namespace (obj_meta x)"
    and "meta_labels (obj_meta s) = meta_labels (obj_meta x)"
    and "meta_annotations (obj_meta s) = meta_annotations (obj_meta x)"
    and "meta_owner_refs (obj_meta s) = meta_owner_refs (obj_meta x)"
proof -
  note eq = conjunct2 [OF assms [unfolded persisted_def]]
  show "meta_name (obj_meta s) = meta_name (obj_meta x)"
    "meta_namespace (obj_meta s) = meta_namespace (obj_meta x)"
    "meta_labels (obj_meta s) = meta_labels (obj_meta x)"
    "meta_annotations (obj_meta s) = meta_annotations (obj_meta x)"
    "meta_owner_refs (obj_meta s) = meta_owner_refs (obj_meta x)"
    using arg_cong [OF eq, of meta_name] arg_cong [OF eq, of meta_namespace]
      arg_cong [OF eq, of meta_labels] arg_cong [OF eq, of meta_annotations]
      arg_cong [OF eq, of meta_owner_refs] by simp_all
qed

text \<open>
  A listed unstructured object is a stored one: the same metadata, and decoding it gives the
  stored spec.
\<close>

fun represents :: "('w, 'u) env \<Rightarrow> 'u unstructured \<Rightarrow> client_object \<Rightarrow> bool" where
  "represents env u (OVSConfig v) \<longleftrightarrow>
     us_meta u = vsc_meta v \<and>
     (\<exists>v'. env_vsconfig_from_unstructured env u = Ok v' \<and> vsc_spec v' = vsc_spec v)"
| "represents env u (OVirtualService v) \<longleftrightarrow>
     us_meta u = vs_meta v \<and>
     (\<exists>v'. env_virtual_service_from_unstructured env u = Ok v' \<and> vs_spec v' = vs_spec v)"
| "represents env u x \<longleftrightarrow> us_meta u = obj_meta x"

lemma represents_meta: "represents env u x \<Longrightarrow> us_meta u = obj_meta x"
  by (cases x) auto

fun resource_list_gvk :: "resource \<Rightarrow> gvk" where
  "resource_list_gvk RDeploymentCopy = deployment_copy_list_gvk"
| "resource_list_gvk RService = service_list_gvk"
| "resource_list_gvk RVSConfig = vsconfig_list_gvk"
| "resource_list_gvk RVirtualService = virtual_service_gvk ''VirtualServiceList''"

text \<open>The kind of the items of a list: its kind without the suffix \<open>List\<close>.\<close>

definition item_gvk :: "gvk \<Rightarrow> gvk" where
  "item_gvk g = g\<lparr>gvk_kind := take (length (gvk_kind g) - 4) (gvk_kind g)\<rparr>"

type_synonym 'w object_view = "'w \<Rightarrow> resource \<Rightarrow> namespaced_name \<Rightarrow> client_object option"

definition set_object ::
  "(resource \<Rightarrow> namespaced_name \<Rightarrow> client_object option) \<Rightarrow> resource \<Rightarrow> namespaced_name \<Rightarrow>
   client_object option \<Rightarrow> resource \<Rightarrow> namespaced_name \<Rightarrow> client_object option" where
  "set_object m r k v = m(r := (m r)(k := v))"

lemma set_object_apply [simp]:
  "set_object m r k v r' k' = (if r' = r \<and> k' = k then v else m r' k')"
  by (simp add: set_object_def)

section \<open>What a refresh writes\<close>

definition controller_ref :: "('w, 'u) env \<Rightarrow> (go_type \<Rightarrow> gvk) \<Rightarrow> owner \<Rightarrow> owner_reference" where
  "controller_ref env scheme p =
     \<lparr>or_api_version = env_group_version_string env (scheme (ow_go_type p)),
      or_kind = gvk_kind (scheme (ow_go_type p)), or_name = meta_name (ow_meta p), or_controller = True\<rparr>"

text \<open>\<open>s\<close> is stored for the desired object \<open>x\<close>, under \<open>name\<close> in the parent's namespace.\<close>

definition written ::
  "('w, 'u) env \<Rightarrow> (go_type \<Rightarrow> gvk) \<Rightarrow> owner \<Rightarrow> string \<Rightarrow> client_object \<Rightarrow> client_object \<Rightarrow> bool" where
  "written env scheme parent name x s \<longleftrightarrow>
     spec_persisted x s \<and>
     meta_name (obj_meta s) = name \<and>
     meta_namespace (obj_meta s) = meta_namespace (ow_meta parent) \<and>
     meta_labels (obj_meta s) = meta_labels (obj_meta x) \<and>
     meta_annotations (obj_meta s) = meta_annotations (obj_meta x) \<and>
     controller_ref env scheme parent \<in> set (meta_owner_refs (obj_meta s)) \<and>
     (meta_owner_refs (obj_meta x) = [] \<longrightarrow> meta_owner_refs (obj_meta s) = [controller_ref env scheme parent])"

text \<open>The name a desired object gets, given the existing objects.\<close>

definition item_name ::
  "('w, 'u) env \<Rightarrow> owner \<Rightarrow> 'u object_list \<Rightarrow> (string, 'u unstructured) fmap \<Rightarrow> client_object \<Rightarrow> string result" where
  "item_name env parent lst existing x =
     bind_result (ol_identity lst (Typed x)) (\<lambda>key.
       refresh_name (env_fused_multiply_subtract env) parent existing key x)"

definition was_written ::
  "('w, 'u) env \<Rightarrow> (go_type \<Rightarrow> gvk) \<Rightarrow> owner \<Rightarrow> 'u object_list \<Rightarrow> (string, 'u unstructured) fmap \<Rightarrow>
   client_object set \<Rightarrow> namespaced_name \<Rightarrow> client_object option \<Rightarrow> bool" where
  "was_written env scheme parent lst existing xs k v \<longleftrightarrow>
     (\<exists>x \<in> xs. \<exists>name s. item_name env parent lst existing x = Ok name \<and>
        k = NN (meta_namespace (ow_meta parent)) name \<and> v = Some s \<and> written env scheme parent name x s)"

text \<open>The names a refresh would choose for its items are pairwise different.\<close>

definition distinct_item_names :: "('w, 'u) env \<Rightarrow> owner \<Rightarrow> 'u object_list \<Rightarrow> 'w \<Rightarrow> bool" where
  "distinct_item_names env parent lst w =
     (case fst (handle_existing env parent lst w) of
        Ok ex \<Rightarrow> inj_on (item_name env parent lst ex) (set (ol_items lst))
      | _ \<Rightarrow> True)"

lemma written_owned:
  "written env scheme parent name x s \<Longrightarrow> ow_gvk parent = scheme (ow_go_type parent) \<Longrightarrow>
   owned_by_parent env (obj_meta s) parent"
  unfolding written_def owned_by_parent_def
  by (rule bexI [of _ "controller_ref env scheme parent"]) (auto simp: controller_ref_def)

section \<open>The laws of the object client\<close>

locale owner_references =
  fixes env :: "('w, 'u) env"
    and scheme :: "go_type \<Rightarrow> gvk"
  assumes controller_reference_set:
      "env_set_controller_reference env p m = Ok m' \<Longrightarrow>
       controller_ref env scheme p \<in> set (meta_owner_refs m') \<and>
       (meta_owner_refs m = [] \<longrightarrow> meta_owner_refs m' = [controller_ref env scheme p]) \<and>
       m' = m\<lparr>meta_owner_refs := meta_owner_refs m'\<rparr>"

locale object_cluster = owner_references env scheme
  for env :: "('w, 'u) env"
    and scheme :: "go_type \<Rightarrow> gvk" +
  fixes objs :: "'w object_view"
  assumes view_resource: "objs w r k = Some x \<Longrightarrow> resource_of x = r"
    and view_key: "objs w r k = Some x \<Longrightarrow> meta_key (obj_meta x) = k"
    and list_keeps: "env_list_unstructured env g opts w = (us_res, w') \<Longrightarrow> objs w' = objs w"
    and list_sound:
      "env_list_unstructured env (resource_list_gvk r) (in_namespace n) w = (Ok us, w') \<Longrightarrow> u \<in> set us \<Longrightarrow>
       us_gvk u = item_gvk (resource_list_gvk r) \<and> (n = '''' \<or> meta_namespace (us_meta u) = n) \<and>
       (\<exists>x. objs w r (meta_key (us_meta u)) = Some x \<and> represents env u x)"
    and list_complete:
      "env_list_unstructured env (resource_list_gvk r) (in_namespace n) w = (Ok us, w') \<Longrightarrow>
       objs w r k = Some x \<Longrightarrow> n = '''' \<or> nn_namespace k = n \<Longrightarrow> \<exists>u \<in> set us. meta_key (us_meta u) = k"
    and list_distinct:
      "env_list_unstructured env (resource_list_gvk r) (in_namespace n) w = (Ok us, w') \<Longrightarrow>
       distinct (map (\<lambda>u. meta_key (us_meta u)) us)"
    and delete_effect:
      "env_delete_unstructured env u w = (res, w') \<Longrightarrow> us_gvk u = item_gvk (resource_list_gvk r) \<Longrightarrow>
       objs w' = set_object (objs w) r (meta_key (us_meta u)) None \<or> (\<not> is_ok res \<and> objs w' = objs w)"
    and create_or_update_effect:
      "env_create_or_update env x f w = (res, w') \<Longrightarrow>
       (\<exists>y s. f (case objs w (resource_of x) (meta_key (obj_meta x)) of Some e \<Rightarrow> e | None \<Rightarrow> x) = Ok y \<and>
          meta_key (obj_meta y) = meta_key (obj_meta x) \<and> persisted y s \<and>
          objs w' = set_object (objs w) (resource_of x) (meta_key (obj_meta x)) (Some s)) \<or>
       (\<not> is_ok res \<and> objs w' = objs w)"
    and convert_copies:
      "env_convert env x e = Ok c \<Longrightarrow> resource_of e = resource_of x \<Longrightarrow> clear_type c = clear_type x"
begin

text \<open>What \<open>CreateOrUpdate\<close> is given and what the mutate function makes of it.\<close>

lemma mutate_result:
  assumes "refresh_mutate env parent x e = Ok y" and "resource_of e = resource_of x"
  shows "resource_of y = resource_of x"
    and "spec_persisted y s = spec_persisted x s"
    and "meta_name (obj_meta y) = meta_name (obj_meta e)"
    and "meta_namespace (obj_meta y) = meta_namespace (obj_meta e)"
    and "meta_labels (obj_meta y) = meta_labels (obj_meta x)"
    and "meta_annotations (obj_meta y) = meta_annotations (obj_meta x)"
    and "controller_ref env scheme parent \<in> set (meta_owner_refs (obj_meta y))"
    and "meta_owner_refs (obj_meta x) = [] \<Longrightarrow> meta_owner_refs (obj_meta y) = [controller_ref env scheme parent]"
proof -
  obtain c m where c: "env_convert env x e = Ok c"
    and m: "env_set_controller_reference env parent (obj_meta c) = Ok m"
    and y: "y = map_obj_meta (\<lambda>_. m\<lparr>meta_resource_version := meta_resource_version (obj_meta e),
      meta_namespace := meta_namespace (obj_meta e), meta_name := meta_name (obj_meta e)\<rparr>) c"
    using assms(1) by (auto simp: refresh_mutate_def result_simps)
  have cx: "clear_type c = clear_type x" using convert_copies [OF c assms(2)] .
  have mc: "obj_meta c = obj_meta x" "resource_of c = resource_of x"
    using clear_type_cong [OF cx] by auto
  have "spec_persisted c s = spec_persisted x s" using cx spec_persisted_clear by metis
  then show "spec_persisted y s = spec_persisted x s" by (simp add: y)
  show "resource_of y = resource_of x" by (simp add: y mc)
  have refs: "controller_ref env scheme parent \<in> set (meta_owner_refs m)"
    "meta_owner_refs (obj_meta x) = [] \<Longrightarrow> meta_owner_refs m = [controller_ref env scheme parent]"
    and m': "m = (obj_meta x)\<lparr>meta_owner_refs := meta_owner_refs m\<rparr>"
    using controller_reference_set [OF m] by (simp_all add: mc)
  show "meta_labels (obj_meta y) = meta_labels (obj_meta x)"
    "meta_annotations (obj_meta y) = meta_annotations (obj_meta x)"
    using arg_cong [OF m', of meta_labels] arg_cong [OF m', of meta_annotations] by (simp_all add: y)
  show "meta_name (obj_meta y) = meta_name (obj_meta e)"
    "meta_namespace (obj_meta y) = meta_namespace (obj_meta e)"
    "controller_ref env scheme parent \<in> set (meta_owner_refs (obj_meta y))"
    "meta_owner_refs (obj_meta x) = [] \<Longrightarrow> meta_owner_refs (obj_meta y) = [controller_ref env scheme parent]"
    using refs by (simp_all add: y)
qed

text \<open>One desired object: either nothing happened, or it was written under its name.\<close>

lemma refresh_item_effect:
  assumes "refresh_item env parent lst existing x w = (res, w')"
  shows "(\<exists>name s. item_name env parent lst existing x = Ok name \<and>
      written env scheme parent name x s \<and>
      objs w' = set_object (objs w) (resource_of x) (NN (meta_namespace (ow_meta parent)) name) (Some s)) \<or>
    (\<not> is_ok res \<and> objs w' = objs w)"
proof (cases "item_name env parent lst existing x")
  case (Ok name)
  define z where "z = map_obj_meta (\<lambda>m. m\<lparr>meta_namespace := meta_namespace (ow_meta parent), meta_name := name\<rparr>)
    (zero_of_type x)"
  have z: "resource_of z = resource_of x" "meta_key (obj_meta z) = NN (meta_namespace (ow_meta parent)) name"
    by (simp_all add: z_def meta_key_def)
  from Ok assms have "env_create_or_update env z (refresh_mutate env parent x) w = (res, w')"
    by (auto simp: refresh_item_def item_name_def result_simps z_def)
  from create_or_update_effect [OF this] z consider
    (stored) y s e where "e = (case objs w (resource_of x) (meta_key (obj_meta z)) of Some e \<Rightarrow> e | None \<Rightarrow> z)"
      "refresh_mutate env parent x e = Ok y" "persisted y s"
      "objs w' = set_object (objs w) (resource_of x) (meta_key (obj_meta z)) (Some s)"
    | (failed) "\<not> is_ok res" "objs w' = objs w" by metis
  then show ?thesis
  proof cases
    case (stored y s e)
    have e: "resource_of e = resource_of x" "meta_key (obj_meta e) = meta_key (obj_meta z)"
      using stored(1) z view_resource view_key by (auto split: option.splits)
    note y = mutate_result [OF stored(2) e(1)] and s = persisted_meta [OF stored(3)]
    have ek: "meta_name (obj_meta e) = name" "meta_namespace (obj_meta e) = meta_namespace (ow_meta parent)"
      using e(2) z(2) by (simp_all add: meta_key_def)
    have "spec_persisted y s" using stored(3) by (simp add: persisted_def)
    then have "written env scheme parent name x s"
      using y s ek by (simp add: written_def)
    with stored z Ok show ?thesis by auto
  next
    case failed
    then show ?thesis by simp
  qed
qed (use assms in \<open>auto simp: refresh_item_def item_name_def bind_eff_def is_ok_def split: result.splits\<close>)

text \<open>The loop over the desired objects touches their names only, whatever its outcome.\<close>

lemma refresh_items_frame:
  assumes "for_each xs (refresh_item env parent lst existing) w = (res, w')"
    and "\<forall>x \<in> set xs. resource_of x = r"
  shows "objs w' r' k = objs w r' k \<or>
    r' = r \<and> was_written env scheme parent lst existing (set xs) k (objs w' r' k)"
  using assms(1)
proof (rule for_each_invariant)
  fix x v res1 v'
  assume x: "x \<in> set xs" and step: "refresh_item env parent lst existing x v = (res1, v')"
    and v: "objs v r' k = objs w r' k \<or>
      r' = r \<and> was_written env scheme parent lst existing (set xs) k (objs v r' k)"
  from refresh_item_effect [OF step] show "objs v' r' k = objs w r' k \<or>
      r' = r \<and> was_written env scheme parent lst existing (set xs) k (objs v' r' k)"
  proof (elim disjE exE conjE)
    fix name s
    assume "item_name env parent lst existing x = Ok name" "written env scheme parent name x s"
      "objs v' = set_object (objs v) (resource_of x) (NN (meta_namespace (ow_meta parent)) name) (Some s)"
    with v x assms(2) [rule_format, OF x] show ?thesis unfolding was_written_def by auto
  qed (use v in simp)
qed simp

text \<open>When it succeeds, every desired object has been written under its name.\<close>

lemma refresh_items_done:
  assumes "for_each xs (refresh_item env parent lst existing) w = (Ok u, w')"
    and "\<forall>x \<in> set xs. resource_of x = r" and "x \<in> set xs"
  shows "\<exists>name. item_name env parent lst existing x = Ok name \<and>
    was_written env scheme parent lst existing (set xs)
      (NN (meta_namespace (ow_meta parent)) name) (objs w' r (NN (meta_namespace (ow_meta parent)) name))"
  using assms
proof (induction xs arbitrary: w)
  case (Cons y ys)
  then obtain w1 where y: "refresh_item env parent lst existing y w = (Ok (), w1)"
    and ys: "for_each ys (refresh_item env parent lst existing) w1 = (Ok u, w')"
    by (auto simp: eff_simps)
  have mono: "was_written env scheme parent lst existing (set ys) k v \<Longrightarrow>
    was_written env scheme parent lst existing (set (y # ys)) k v" for k v
    by (auto simp: was_written_def)
  show ?case
  proof (cases "x \<in> set ys")
    case True
    with Cons.IH [OF ys] Cons.prems(2) mono show ?thesis by (metis list.set_intros(2))
  next
    case False
    with Cons.prems have "x = y" by simp
    from refresh_item_effect [OF y] obtain name s where
      name: "item_name env parent lst existing y = Ok name" and s: "written env scheme parent name y s"
      and w1: "objs w1 = set_object (objs w) (resource_of y) (NN (meta_namespace (ow_meta parent)) name)
          (Some s)"
      by auto
    have r: "resource_of y = r" using Cons.prems(2) by simp
    have "was_written env scheme parent lst existing (set (y # ys))
      (NN (meta_namespace (ow_meta parent)) name) (objs w1 r (NN (meta_namespace (ow_meta parent)) name))"
      using name s w1 r unfolding was_written_def by auto
    then show ?thesis
      using refresh_items_frame [OF ys, of r r "NN (meta_namespace (ow_meta parent)) name"] Cons.prems(2)
        mono name \<open>x = y\<close> by fastforce
  qed
qed simp

end

section \<open>The contract of a lister\<close>

text \<open>
  What the refresher relies on in an object list: all items are of one resource, which is
  the one listed, they carry no owner yet, and the identity function is defined on the
  resource and gives the same for a stored object and for its unstructured form.
\<close>

locale identity_contract =
  fixes env :: "('w, 'u) env"
    and lst :: "'u object_list"
    and r :: resource
  assumes list_gvk: "ol_gvk lst = resource_list_gvk r"
    and items_resource: "x \<in> set (ol_items lst) \<Longrightarrow> resource_of x = r"
    and items_unowned: "x \<in> set (ol_items lst) \<Longrightarrow> meta_owner_refs (obj_meta x) = []"
    and identity_total: "resource_of x = r \<Longrightarrow> \<exists>i. ol_identity lst (Typed x) = Ok i"
    and identity_represents:
      "represents env u x \<Longrightarrow> resource_of x = r \<Longrightarrow>
       ol_identity lst (Unstructured u) = ol_identity lst (Typed x)"

definition desired_identity :: "'u object_list \<Rightarrow> string \<Rightarrow> bool" where
  "desired_identity lst i \<longleftrightarrow> (\<exists>x \<in> set (ol_items lst). ol_identity lst (Typed x) = Ok i)"

text \<open>An object of the parent that is no longer wanted.\<close>

definition stale :: "('w, 'u) env \<Rightarrow> owner \<Rightarrow> 'u object_list \<Rightarrow> client_object \<Rightarrow> bool" where
  "stale env parent lst x \<longleftrightarrow>
     owned_by_parent env (obj_meta x) parent \<and>
     (\<exists>i. ol_identity lst (Typed x) = Ok i \<and> \<not> desired_identity lst i)"

definition in_parent_namespace :: "owner \<Rightarrow> namespaced_name \<Rightarrow> bool" where
  "in_parent_namespace parent k \<longleftrightarrow>
     meta_namespace (ow_meta parent) = '''' \<or> nn_namespace k = meta_namespace (ow_meta parent)"

text \<open>A map of existing objects keyed by their identities.\<close>

definition exact_existing :: "'u object_list \<Rightarrow> (string, 'u unstructured) fmap \<Rightarrow> bool" where
  "exact_existing lst ex \<longleftrightarrow> (\<forall>i u. fmlookup ex i = Some u \<longrightarrow> ol_identity lst (Unstructured u) = Ok i)"

lemma desired_ids:
  assumes "map_results (\<lambda>x. ol_identity lst (Typed x)) (ol_items lst) = Ok ids"
  shows "i |\<in>| fset_of_list ids \<longleftrightarrow> desired_identity lst i"
proof -
  have "list_all2 (\<lambda>x i. ol_identity lst (Typed x) = Ok i) (ol_items lst) ids"
    using assms by (simp add: map_results_eq_Ok)
  then have "i \<in> set ids \<longleftrightarrow> (\<exists>x \<in> set (ol_items lst). ol_identity lst (Typed x) = Ok i)"
    by (induction rule: list_all2_induct) auto
  then show ?thesis by (simp add: desired_identity_def fset_of_list.rep_eq)
qed

section \<open>The refresher against the cluster\<close>

locale refresher = object_cluster env scheme objs + identity_contract env lst r
  for env :: "('w, 'u) env"
    and scheme :: "go_type \<Rightarrow> gvk"
    and objs :: "'w object_view"
    and lst :: "'u object_list"
    and r :: resource +
  fixes parent :: owner
  assumes parent_kind: "ow_gvk parent = scheme (ow_go_type parent)"
begin

text \<open>Going through listed objects deletes unwanted ones of the parent only.\<close>

lemma handle_existing_fold_frame:
  assumes "fold_eff (handle_existing_step env parent lst ids) us ex w = (res, w')"
    and "\<forall>u \<in> set us. us_gvk u = item_gvk (resource_list_gvk r)"
  shows "objs w' r' k = objs w r' k \<or>
    r' = r \<and> objs w' r' k = None \<and>
    (\<exists>u \<in> set us. meta_key (us_meta u) = k \<and> owned_by_parent env (us_meta u) parent \<and>
       (\<exists>i. ol_identity lst (Unstructured u) = Ok i \<and> i |\<notin>| ids))"
  using assms(1)
proof (rule fold_eff_invariant)
  fix u s v res1 v'
  assume u: "u \<in> set us" and step: "handle_existing_step env parent lst ids u s v = (res1, v')"
    and v: "objs v r' k = objs w r' k \<or> r' = r \<and> objs v r' k = None \<and>
      (\<exists>u \<in> set us. meta_key (us_meta u) = k \<and> owned_by_parent env (us_meta u) parent \<and>
       (\<exists>i. ol_identity lst (Unstructured u) = Ok i \<and> i |\<notin>| ids))"
  show "objs v' r' k = objs w r' k \<or> r' = r \<and> objs v' r' k = None \<and>
      (\<exists>u \<in> set us. meta_key (us_meta u) = k \<and> owned_by_parent env (us_meta u) parent \<and>
       (\<exists>i. ol_identity lst (Unstructured u) = Ok i \<and> i |\<notin>| ids))"
  proof (cases "objs v' = objs v")
    case False
    then obtain i res2 where owned: "owned_by_parent env (us_meta u) parent"
      and i: "ol_identity lst (Unstructured u) = Ok i" "i |\<notin>| ids"
      and del: "env_delete_unstructured env u v = (res2, v')"
      using step by (auto simp: handle_existing_step_def bind_eff_def
          split: if_splits result.splits prod.splits)
    from delete_effect [OF del assms(2) [rule_format, OF u]] False
    have "objs v' = set_object (objs v) r (meta_key (us_meta u)) None" by auto
    with v u owned i show ?thesis by auto
  qed (use v in simp)
qed simp

text \<open>On success the unwanted ones are gone and the others are in the map, by identity.\<close>

lemma handle_existing_step_unowned:
  "handle_existing_step env parent lst ids v ex w = (Ok ex1, w1) \<Longrightarrow>
   \<not> owned_by_parent env (us_meta v) parent \<Longrightarrow> ex1 = ex \<and> w1 = w"
  by (simp add: handle_existing_step_def)

lemma handle_existing_step_owned:
  assumes step: "handle_existing_step env parent lst ids v ex w = (Ok ex1, w1)"
    and gvk: "us_gvk v = item_gvk (resource_list_gvk r)"
    and owned: "owned_by_parent env (us_meta v) parent"
  obtains (kept) i where "ol_identity lst (Unstructured v) = Ok i" "i |\<in>| ids" "ex1 = fmupd i v ex" "w1 = w"
    | (deleted) i where "ol_identity lst (Unstructured v) = Ok i" "i |\<notin>| ids" "ex1 = ex"
      "objs w1 r (meta_key (us_meta v)) = None"
proof -
  obtain i where i: "ol_identity lst (Unstructured v) = Ok i"
    and rest: "(if i |\<in>| ids then return (fmupd i v ex)
      else bind_eff (env_delete_unstructured env v) (\<lambda>_. return ex)) w = (Ok ex1, w1)"
    using step owned by (auto simp: handle_existing_step_def bind_eff_Ok)
  show thesis
  proof (cases "i |\<in>| ids")
    case True
    with rest i kept show ?thesis by simp
  next
    case False
    with rest have del: "env_delete_unstructured env v w = (Ok (), w1)" "ex1 = ex"
      by (auto simp: bind_eff_Ok)
    from delete_effect [OF del(1) gvk] have "objs w1 r (meta_key (us_meta v)) = None" by simp
    with i False del(2) deleted show ?thesis by simp
  qed
qed

lemma handle_existing_fold_dom:
  assumes "fold_eff (handle_existing_step env parent lst ids) us ex w = (Ok ex', w')"
    and "\<forall>u \<in> set us. us_gvk u = item_gvk (resource_list_gvk r)"
    and "i |\<in>| fmdom ex"
  shows "i |\<in>| fmdom ex'"
  using assms
proof (induction us arbitrary: ex w)
  case (Cons v vs)
  from Cons.prems(1) obtain ex1 w1 where v: "handle_existing_step env parent lst ids v ex w = (Ok ex1, w1)"
    and vs: "fold_eff (handle_existing_step env parent lst ids) vs ex1 w1 = (Ok ex', w')"
    by (auto simp: eff_simps)
  have gvk: "us_gvk v = item_gvk (resource_list_gvk r)" using Cons.prems(2) by simp
  have "i |\<in>| fmdom ex1"
  proof (cases "owned_by_parent env (us_meta v) parent")
    case True
    from v gvk True show ?thesis
      by (cases rule: handle_existing_step_owned) (use Cons.prems(3) in auto)
  qed (use handle_existing_step_unowned [OF v] Cons.prems(3) in simp)
  with Cons.IH [OF vs] Cons.prems(2) show ?case by simp
qed simp

lemma handle_existing_fold_owned:
  assumes "fold_eff (handle_existing_step env parent lst ids) us ex w = (Ok ex', w')"
    and "\<forall>u \<in> set us. us_gvk u = item_gvk (resource_list_gvk r)"
    and "u \<in> set us" and "owned_by_parent env (us_meta u) parent"
  shows "\<exists>i. ol_identity lst (Unstructured u) = Ok i \<and>
    (if i |\<in>| ids then i |\<in>| fmdom ex' else objs w' r (meta_key (us_meta u)) = None)"
  using assms
proof (induction us arbitrary: ex w)
  case (Cons v vs)
  from Cons.prems(1) obtain ex1 w1 where v: "handle_existing_step env parent lst ids v ex w = (Ok ex1, w1)"
    and vs: "fold_eff (handle_existing_step env parent lst ids) vs ex1 w1 = (Ok ex', w')"
    by (auto simp: eff_simps)
  show ?case
  proof (cases "u \<in> set vs")
    case True
    show ?thesis by (rule Cons.IH [OF vs _ True Cons.prems(4)]) (use Cons.prems(2) in simp)
  next
    case False
    with Cons.prems(3) have uv: "u = v" by simp
    have gvk: "us_gvk v = item_gvk (resource_list_gvk r)" using Cons.prems(2) by simp
    have stays: "objs w1 r (meta_key (us_meta v)) = None \<Longrightarrow> objs w' r (meta_key (us_meta v)) = None"
      using handle_existing_fold_frame [OF vs, of r "meta_key (us_meta v)"] Cons.prems(2) by fastforce
    have dom: "j |\<in>| fmdom ex1 \<Longrightarrow> j |\<in>| fmdom ex'" for j
      using handle_existing_fold_dom [OF vs] Cons.prems(2) by simp
    from v gvk Cons.prems(4) [unfolded uv] show ?thesis
      by (cases rule: handle_existing_step_owned) (use uv stays dom in auto)
  qed
qed simp

lemma handle_existing_fold_entries:
  assumes "fold_eff (handle_existing_step env parent lst ids) us ex w = (Ok ex', w')"
    and "\<forall>u \<in> set us. us_gvk u = item_gvk (resource_list_gvk r)"
    and "fmlookup ex' i = Some u"
  shows "fmlookup ex i = Some u \<or>
    u \<in> set us \<and> owned_by_parent env (us_meta u) parent \<and>
    ol_identity lst (Unstructured u) = Ok i \<and> i |\<in>| ids"
  using assms
proof (induction us arbitrary: ex w)
  case (Cons v vs)
  from Cons.prems(1) obtain ex1 w1 where v: "handle_existing_step env parent lst ids v ex w = (Ok ex1, w1)"
    and vs: "fold_eff (handle_existing_step env parent lst ids) vs ex1 w1 = (Ok ex', w')"
    by (auto simp: eff_simps)
  have gvk: "us_gvk v = item_gvk (resource_list_gvk r)" using Cons.prems(2) by simp
  have ih: "fmlookup ex1 i = Some u \<or> u \<in> set vs \<and> owned_by_parent env (us_meta u) parent \<and>
      ol_identity lst (Unstructured u) = Ok i \<and> i |\<in>| ids"
    using Cons.IH [OF vs] Cons.prems by simp
  show ?case
  proof (cases "owned_by_parent env (us_meta v) parent")
    case True
    from v gvk True show ?thesis
      by (cases rule: handle_existing_step_owned) (use ih True in \<open>auto split: if_splits\<close>)
  qed (use handle_existing_step_unowned [OF v] ih in auto)
qed simp

end

context refresher
begin

lemma items_resource_all: "\<forall>x \<in> set (ol_items lst). resource_of x = r"
  using items_resource by blast

lemma handle_existing_unfold:
  assumes "handle_existing env parent lst w = (res, w')"
  obtains (early) "objs w' = objs w" "\<not> is_ok res"
    | (folded) ids us w1 where
        "map_results (\<lambda>x. ol_identity lst (Typed x)) (ol_items lst) = Ok ids"
        "env_list_unstructured env (resource_list_gvk r)
            (in_namespace (meta_namespace (ow_meta parent))) w = (Ok us, w1)"
        "objs w1 = objs w"
        "fold_eff (handle_existing_step env parent lst (fset_of_list ids)) us fmempty w1 = (res, w')"
  using assms unfolding handle_existing_def list_gvk
proof (cases rule: bind_eff_cases)
  case (first r1)
  then have "w' = w" "\<not> is_ok res" by (auto simp: is_ok_def split: result.splits)
  with early show ?thesis by simp
next
  case (second ids w0)
  then have ids: "map_results (\<lambda>x. ol_identity lst (Typed x)) (ol_items lst) = Ok ids" "w0 = w" by auto
  from second(2) show ?thesis unfolding ids(2)
  proof (cases rule: bind_eff_cases)
    case (first r1)
    then have "\<not> is_ok res" by (auto simp: is_ok_def split: result.splits)
    with early list_keeps [OF first(1)] show ?thesis by simp
  next
    case (second us w1)
    with folded ids list_keeps [OF second(1)] show ?thesis by metis
  qed
qed

lemma listed_object:
  assumes "env_list_unstructured env (resource_list_gvk r)
      (in_namespace (meta_namespace (ow_meta parent))) w = (Ok us, w1)"
    and "u \<in> set us"
  shows "us_gvk u = item_gvk (resource_list_gvk r)"
    and "in_parent_namespace parent (meta_key (us_meta u))"
    and "\<exists>x. objs w r (meta_key (us_meta u)) = Some x \<and> us_meta u = obj_meta x \<and>
      ol_identity lst (Unstructured u) = ol_identity lst (Typed x)"
proof -
  from list_sound [OF assms] show "us_gvk u = item_gvk (resource_list_gvk r)"
    "in_parent_namespace parent (meta_key (us_meta u))"
    by (auto simp: in_parent_namespace_def meta_key_def)
  from list_sound [OF assms] obtain x where x: "objs w r (meta_key (us_meta u)) = Some x" "represents env u x"
    by auto
  with identity_represents [OF x(2) view_resource [OF x(1)]] represents_meta [OF x(2)]
  show "\<exists>x. objs w r (meta_key (us_meta u)) = Some x \<and> us_meta u = obj_meta x \<and>
      ol_identity lst (Unstructured u) = ol_identity lst (Typed x)" by auto
qed

text \<open>Handling the existing objects deletes stale objects of the parent and nothing else.\<close>

lemma handle_existing_frame:
  assumes "handle_existing env parent lst w = (res, w')"
  shows "objs w' r' k = objs w r' k \<or>
    r' = r \<and> objs w' r' k = None \<and> in_parent_namespace parent k \<and>
    (\<exists>x. objs w r k = Some x \<and> stale env parent lst x)"
  using assms
proof (cases rule: handle_existing_unfold)
  case (folded ids us w1)
  have gvks: "\<forall>u \<in> set us. us_gvk u = item_gvk (resource_list_gvk r)"
    using listed_object(1) [OF folded(2)] by blast
  from handle_existing_fold_frame [OF folded(4) gvks, of r' k] show ?thesis
  proof (elim disjE conjE bexE exE)
    fix u i
    assume u: "u \<in> set us" "meta_key (us_meta u) = k" "owned_by_parent env (us_meta u) parent"
      "ol_identity lst (Unstructured u) = Ok i" "i |\<notin>| fset_of_list ids"
      and gone: "r' = r" "objs w' r' k = None"
    from listed_object(3) [OF folded(2) u(1)] u have
      "\<exists>x. objs w r k = Some x \<and> us_meta u = obj_meta x \<and> ol_identity lst (Typed x) = Ok i" by auto
    moreover have "\<not> desired_identity lst i" using u(5) desired_ids [OF folded(1)] by simp
    ultimately show ?thesis
      using listed_object(2) [OF folded(2) u(1)] u gone by (auto simp: stale_def)
  qed (use folded(3) in simp)
qed simp

lemma handle_existing_exact:
  assumes "handle_existing env parent lst w = (Ok ex, w')"
  shows "exact_existing lst ex"
  using assms
proof (cases rule: handle_existing_unfold)
  case (folded ids us w1)
  have gvks: "\<forall>u \<in> set us. us_gvk u = item_gvk (resource_list_gvk r)"
    using listed_object(1) [OF folded(2)] by blast
  from handle_existing_fold_entries [OF folded(4) gvks] show ?thesis
    by (auto simp: exact_existing_def)
qed simp

text \<open>When it succeeds no stale object is left, and the map knows the wanted ones.\<close>

lemma handle_existing_known:
  assumes "handle_existing env parent lst w = (Ok ex, w')"
    and x: "objs w' r k = Some x" and ns: "in_parent_namespace parent k"
    and owned: "owned_by_parent env (obj_meta x) parent"
  shows "\<exists>i. ol_identity lst (Typed x) = Ok i \<and> desired_identity lst i \<and> i |\<in>| fmdom ex"
  using assms(1)
proof (cases rule: handle_existing_unfold)
  case (folded ids us w1)
  have gvks: "\<forall>u \<in> set us. us_gvk u = item_gvk (resource_list_gvk r)"
    using listed_object(1) [OF folded(2)] by blast
  have same: "objs w r k = Some x"
    using handle_existing_frame [OF assms(1), of r k] x by auto
  with list_complete [OF folded(2) same] ns obtain u where u: "u \<in> set us" "meta_key (us_meta u) = k"
    by (auto simp: in_parent_namespace_def)
  from listed_object(3) [OF folded(2) u(1)] u same
  have meta: "us_meta u = obj_meta x" "ol_identity lst (Unstructured u) = ol_identity lst (Typed x)" by auto
  from handle_existing_fold_owned [OF folded(4) gvks u(1)] owned meta x u(2) show ?thesis
    by (auto simp: desired_ids [OF folded(1)] split: if_splits)
qed simp

lemma handle_existing_entry:
  assumes "handle_existing env parent lst w = (Ok ex, w')" and "fmlookup ex i = Some u"
  shows "\<exists>x. objs w' r (meta_key (us_meta u)) = Some x \<and> us_meta u = obj_meta x \<and>
    ol_identity lst (Typed x) = Ok i \<and> owned_by_parent env (obj_meta x) parent \<and>
    in_parent_namespace parent (meta_key (us_meta u)) \<and> desired_identity lst i"
  using assms(1)
proof (cases rule: handle_existing_unfold)
  case (folded ids us w1)
  have gvks: "\<forall>u \<in> set us. us_gvk u = item_gvk (resource_list_gvk r)"
    using listed_object(1) [OF folded(2)] by blast
  from handle_existing_fold_entries [OF folded(4) gvks assms(2)]
  have u: "u \<in> set us" "owned_by_parent env (us_meta u) parent"
    "ol_identity lst (Unstructured u) = Ok i" "i |\<in>| fset_of_list ids" by auto
  from listed_object(3) [OF folded(2) u(1)] u(3) obtain x where
    x: "objs w r (meta_key (us_meta u)) = Some x" "us_meta u = obj_meta x" "ol_identity lst (Typed x) = Ok i"
    by auto
  have "desired_identity lst i" using u(4) desired_ids [OF folded(1)] by simp
  moreover from this x have "\<not> stale env parent lst x" by (simp add: stale_def)
  then have "objs w' r (meta_key (us_meta u)) = Some x"
    using handle_existing_frame [OF assms(1), of r "meta_key (us_meta u)"] x(1) by auto
  ultimately show ?thesis using x u(2) listed_object(2) [OF folded(2) u(1)] by auto
qed simp

text \<open>The whole refresh, whatever its outcome: what it does not own or name is untouched.\<close>

lemma refresh_frame:
  assumes "refresh env parent lst w = (res, w')"
  shows "objs w' r' k = objs w r' k \<or>
    r' = r \<and> objs w' r' k = None \<and> in_parent_namespace parent k \<and>
      (\<exists>x. objs w r k = Some x \<and> stale env parent lst x) \<or>
    r' = r \<and> (\<exists>ex. was_written env scheme parent lst ex (set (ol_items lst)) k (objs w' r' k))"
  using assms unfolding refresh_def
proof (cases rule: bind_eff_cases)
  case (first r1)
  then show ?thesis using handle_existing_frame [OF first(1), of r' k] by auto
next
  case (second ex w1)
  from refresh_items_frame [OF second(2) items_resource_all, of r' k]
    handle_existing_frame [OF second(1), of r' k]
  show ?thesis by auto
qed

lemma refresh_done:
  assumes "refresh env parent lst w = (Ok u, w')"
  obtains ex w1 where "handle_existing env parent lst w = (Ok ex, w1)"
    and "for_each (ol_items lst) (refresh_item env parent lst ex) w1 = (Ok u, w')"
    and "\<And>x. x \<in> set (ol_items lst) \<Longrightarrow> \<exists>name. item_name env parent lst ex x = Ok name \<and>
      was_written env scheme parent lst ex (set (ol_items lst))
        (NN (meta_namespace (ow_meta parent)) name) (objs w' r (NN (meta_namespace (ow_meta parent)) name))"
proof -
  from assms obtain ex w1 where ex: "handle_existing env parent lst w = (Ok ex, w1)"
    and loop: "for_each (ol_items lst) (refresh_item env parent lst ex) w1 = (Ok u, w')"
    by (auto simp: refresh_def bind_eff_Ok)
  with that refresh_items_done [OF loop items_resource_all] show thesis by blast
qed

text \<open>With names that are pairwise different, each desired object has its own stored object.\<close>

lemma refresh_items_stored:
  assumes "refresh env parent lst w = (Ok u, w')"
    and "distinct_item_names env parent lst w"
    and "x \<in> set (ol_items lst)"
  shows "\<exists>ex name s. exact_existing lst ex \<and> item_name env parent lst ex x = Ok name \<and>
    objs w' r (NN (meta_namespace (ow_meta parent)) name) = Some s \<and> written env scheme parent name x s"
  using assms(1)
proof (rule refresh_done)
  fix ex w1
  assume ex: "handle_existing env parent lst w = (Ok ex, w1)"
    and stored: "\<And>x. x \<in> set (ol_items lst) \<Longrightarrow> \<exists>name. item_name env parent lst ex x = Ok name \<and>
      was_written env scheme parent lst ex (set (ol_items lst))
        (NN (meta_namespace (ow_meta parent)) name) (objs w' r (NN (meta_namespace (ow_meta parent)) name))"
  from stored [OF assms(3)] obtain name y s where name: "item_name env parent lst ex x = Ok name"
    and y: "y \<in> set (ol_items lst)" "item_name env parent lst ex y = Ok name"
        "written env scheme parent name y s"
      "objs w' r (NN (meta_namespace (ow_meta parent)) name) = Some s"
    by (auto simp: was_written_def)
  moreover have "inj_on (item_name env parent lst ex) (set (ol_items lst))"
    using assms(2) ex by (simp add: distinct_item_names_def)
  then have "y = x" using name y assms(3) by (metis inj_onD)
  ultimately show ?thesis using handle_existing_exact [OF ex] by auto
qed

end

section \<open>Lists whose identity survives being written\<close>

locale stable_refresher = refresher +
  assumes written_identity:
    "exact_existing lst ex \<Longrightarrow> x \<in> set (ol_items lst) \<Longrightarrow> item_name env parent lst ex x = Ok name \<Longrightarrow>
     written env scheme parent name x s \<Longrightarrow> ol_identity lst (Typed s) = ol_identity lst (Typed x)"
begin

lemma was_written_desired:
  assumes "was_written env scheme parent lst ex (set (ol_items lst)) k (Some s)" and "exact_existing lst ex"
  shows "\<exists>i. ol_identity lst (Typed s) = Ok i \<and> desired_identity lst i"
  using assms written_identity identity_total items_resource
  unfolding was_written_def desired_identity_def by (metis option.inject)

text \<open>After a successful refresh, what the parent owns in its namespace is what was asked for.\<close>

lemma refresh_collects:
  assumes "refresh env parent lst w = (Ok u, w')"
    and x: "objs w' r k = Some x" "in_parent_namespace parent k" "owned_by_parent env (obj_meta x) parent"
  shows "\<exists>i. ol_identity lst (Typed x) = Ok i \<and> desired_identity lst i"
  using assms(1)
proof (rule refresh_done)
  fix ex w1
  assume ex: "handle_existing env parent lst w = (Ok ex, w1)"
    and loop: "for_each (ol_items lst) (refresh_item env parent lst ex) w1 = (Ok u, w')"
  from refresh_items_frame [OF loop items_resource_all, of r k] x(1) consider
    "objs w1 r k = Some x" | "was_written env scheme parent lst ex (set (ol_items lst)) k (Some x)" by auto
  then show ?thesis
  proof cases
    case 1
    from handle_existing_known [OF ex this x(2,3)] show ?thesis by auto
  qed (rule was_written_desired [OF _ handle_existing_exact [OF ex]])
qed

text \<open>So a second refresh deletes nothing.\<close>

lemma refresh_again_deletes_nothing:
  assumes "refresh env parent lst w = (Ok u, w')" and "handle_existing env parent lst w' = (res, w'')"
  shows "objs w'' = objs w'"
proof (intro ext)
  fix r' k
  from handle_existing_frame [OF assms(2), of r' k] show "objs w'' r' k = objs w' r' k"
  proof (elim disjE conjE exE)
    fix x
    assume "in_parent_namespace parent k" "objs w' r k = Some x" "stale env parent lst x"
    with refresh_collects [OF assms(1), of k x] show ?thesis by (auto simp: stale_def)
  qed simp
qed

text \<open>And it creates nothing: every desired object is found by its identity.\<close>

lemma refresh_again_same_objects:
  assumes first: "refresh env parent lst w = (Ok u, w')"
    and inj: "distinct_item_names env parent lst w"
    and again: "refresh env parent lst w' = (res, w'')"
    and namespaced: "meta_namespace (ow_meta parent) \<noteq> ''''"
  shows "objs w'' r' k = None \<longleftrightarrow> objs w' r' k = None"
  using again unfolding refresh_def
proof (cases rule: bind_eff_cases)
  case (first r1)
  with refresh_again_deletes_nothing [OF assms(1) first(1)] show ?thesis by simp
next
  case (second ex w1)
  have w1: "objs w1 = objs w'" using refresh_again_deletes_nothing [OF assms(1) second(1)] .
  from refresh_items_frame [OF second(2) items_resource_all, of r' k] consider
    "objs w'' r' k = objs w' r' k"
    | "r' = r" "was_written env scheme parent lst ex (set (ol_items lst)) k (objs w'' r' k)"
    using w1 by auto
  then show ?thesis
  proof cases
    case 2
    then obtain x name s where x: "x \<in> set (ol_items lst)" "item_name env parent lst ex x = Ok name"
      "k = NN (meta_namespace (ow_meta parent)) name" "objs w'' r' k = Some s"
      by (auto simp: was_written_def)
    obtain i where i: "ol_identity lst (Typed x) = Ok i" using identity_total items_resource x(1) by blast
    from refresh_items_stored [OF first inj x(1)] obtain ex0 n0 s0 where
      ex0: "exact_existing lst ex0" and n0: "item_name env parent lst ex0 x = Ok n0" and
      s0: "objs w' r (NN (meta_namespace (ow_meta parent)) n0) = Some s0" "written env scheme parent n0 x s0"
      by blast
    have "in_parent_namespace parent (NN (meta_namespace (ow_meta parent)) n0)"
      by (simp add: in_parent_namespace_def)
    from handle_existing_known [OF second(1) s0(1) [folded w1] this written_owned [OF s0(2) parent_kind]]
      written_identity [OF ex0 x(1) n0 s0(2)] i
    obtain v where v: "fmlookup ex i = Some v" by (auto simp: fmlookup_dom_iff)
    with i x(2) have name: "name = meta_name (us_meta v)" by (simp add: item_name_def refresh_name_def)
    from handle_existing_entry [OF second(1) v] namespaced have
      "objs w' r (meta_key (us_meta v)) \<noteq> None" "meta_key (us_meta v) = k"
      by (auto simp: w1 x(3) name meta_key_def in_parent_namespace_def)
    with 2(1) x(4) show ?thesis by simp
  qed simp
qed

end

section \<open>Clusters written by the refresher alone\<close>

text \<open>
  The name a desired object gets when it does not exist yet, and the condition that the
  existing objects of the parent carry these names: true of every cluster in which only the
  refresher created them.
\<close>

definition default_name :: "('w, 'u) env \<Rightarrow> owner \<Rightarrow> 'u object_list \<Rightarrow> client_object \<Rightarrow> string result" where
  "default_name env parent lst x = item_name env parent lst fmempty x"

definition well_named ::
  "('w, 'u) env \<Rightarrow> owner \<Rightarrow> 'u object_list \<Rightarrow> (namespaced_name \<Rightarrow> client_object option) \<Rightarrow> bool" where
  "well_named env parent lst m \<longleftrightarrow>
     (\<forall>k x y. m k = Some x \<longrightarrow> in_parent_namespace parent k \<longrightarrow> owned_by_parent env (obj_meta x) parent \<longrightarrow>
        y \<in> set (ol_items lst) \<longrightarrow> ol_identity lst (Typed y) = ol_identity lst (Typed x) \<longrightarrow>
        default_name env parent lst y = Ok (meta_name (obj_meta x)))"

text \<open>The objects of the parent are exactly the desired ones, each stored as it was asked for.\<close>

definition realised ::
  "('w, 'u) env \<Rightarrow> (go_type \<Rightarrow> gvk) \<Rightarrow> owner \<Rightarrow> 'u object_list \<Rightarrow> (namespaced_name \<Rightarrow> client_object option) \<Rightarrow>
      bool" where
  "realised env scheme parent lst m \<longleftrightarrow>
     (\<forall>x \<in> set (ol_items lst). \<exists>name s. default_name env parent lst x = Ok name \<and>
        m (NN (meta_namespace (ow_meta parent)) name) = Some s \<and> written env scheme parent name x s) \<and>
     (\<forall>k s. m k = Some s \<longrightarrow> in_parent_namespace parent k \<longrightarrow> owned_by_parent env (obj_meta s) parent \<longrightarrow>
        (\<exists>x \<in> set (ol_items lst). default_name env parent lst x = Ok (meta_name (obj_meta s)) \<and>
           ol_identity lst (Typed x) = ol_identity lst (Typed s)))"

context refresher
begin

lemma well_named_item_name:
  assumes "well_named env parent lst (objs w r)" and "handle_existing env parent lst w = (Ok ex, w')"
    and "x \<in> set (ol_items lst)"
  shows "item_name env parent lst ex x = default_name env parent lst x"
proof -
  obtain i where i: "ol_identity lst (Typed x) = Ok i" using identity_total items_resource assms(3) by blast
  show ?thesis
  proof (cases "fmlookup ex i")
    case None
    with i show ?thesis by (simp add: default_name_def item_name_def refresh_name_def)
  next
    case (Some u)
    from handle_existing_entry [OF assms(2) Some] obtain y where
      y: "objs w' r (meta_key (us_meta u)) = Some y" "us_meta u = obj_meta y" "ol_identity lst (Typed y) = Ok i"
        "owned_by_parent env (obj_meta y) parent" "in_parent_namespace parent (meta_key (us_meta u))" by auto
    have "objs w r (meta_key (us_meta u)) = Some y"
      using handle_existing_frame [OF assms(2), of r "meta_key (us_meta u)"] y(1) by auto
    with assms(1) y i assms(3) have "default_name env parent lst x = Ok (meta_name (obj_meta y))"
      unfolding well_named_def by metis
    with Some i y(2) show ?thesis by (simp add: item_name_def refresh_name_def)
  qed
qed

text \<open>Whatever the outcome, what a refresh writes among well-named objects is a desired object at its
    default name.\<close>

lemma refresh_writes_default:
  assumes "refresh env parent lst w = (res, w')" and "well_named env parent lst (objs w r)"
    and "objs w' r k \<noteq> objs w r k" "objs w' r k = Some s"
  shows "\<exists>x \<in> set (ol_items lst). \<exists>name. default_name env parent lst x = Ok name \<and>
    k = NN (meta_namespace (ow_meta parent)) name \<and> written env scheme parent name x s"
  using assms(1) unfolding refresh_def
proof (cases rule: bind_eff_cases)
  case (first r1)
  then show ?thesis using handle_existing_frame [OF first(1), of r k] assms(3,4) by auto
next
  case (second ex w1)
  from refresh_items_frame [OF second(2) items_resource_all, of r k] handle_existing_frame
      [OF second(1), of r k] assms(3,4)
  have "was_written env scheme parent lst ex (set (ol_items lst)) k (Some s)" by auto
  then show ?thesis unfolding was_written_def using well_named_item_name [OF assms(2) second(1)] by auto
qed

text \<open>And after a success each desired object is stored under its default name, when these differ.\<close>

lemma refresh_stores_default:
  assumes "refresh env parent lst w = (Ok u, w')" and "well_named env parent lst (objs w r)"
    and "inj_on (default_name env parent lst) (set (ol_items lst))" and "x \<in> set (ol_items lst)"
  shows "\<exists>name s. default_name env parent lst x = Ok name \<and>
    objs w' r (NN (meta_namespace (ow_meta parent)) name) = Some s \<and> written env scheme parent name x s"
  using assms(1)
proof (rule refresh_done)
  fix ex w1
  assume ex: "handle_existing env parent lst w = (Ok ex, w1)"
    and loop: "for_each (ol_items lst) (refresh_item env parent lst ex) w1 = (Ok u, w')"
  note names = well_named_item_name [OF assms(2) ex]
  from refresh_items_done [OF loop items_resource_all assms(4)] obtain name y s where
    "item_name env parent lst ex x = Ok name" "y \<in> set (ol_items lst)"
        "item_name env parent lst ex y = Ok name"
    "objs w' r (NN (meta_namespace (ow_meta parent)) name) = Some s" "written env scheme parent name y s"
    by (auto simp: was_written_def)
  moreover from this have "y = x" using assms(3,4) names by (metis inj_onD)
  ultimately show ?thesis using names assms(4) by auto
qed

end

context stable_refresher
begin

text \<open>What the parent owns after a refresh is desired, and has the name of what was desired.\<close>

lemma refresh_realises_only:
  assumes ex: "handle_existing env parent lst w = (Ok ex, w1)"
    and loop: "for_each (ol_items lst) (refresh_item env parent lst ex) w1 = (Ok u, w')"
    and named: "well_named env parent lst (objs w r)"
    and s: "objs w' r k = Some s" "in_parent_namespace parent k" "owned_by_parent env (obj_meta s) parent"
  shows "\<exists>x \<in> set (ol_items lst). default_name env parent lst x = Ok (meta_name (obj_meta s)) \<and>
    ol_identity lst (Typed x) = ol_identity lst (Typed s)"
  using refresh_items_frame [OF loop items_resource_all, of r k] s(1)
proof (elim disjE conjE)
  assume "objs w' r k = objs w1 r k"
  with s have s1: "objs w1 r k = Some s" by simp
  from handle_existing_known [OF ex s1 s(2,3)] obtain i x where
    i: "ol_identity lst (Typed s) = Ok i" "x \<in> set (ol_items lst)" "ol_identity lst (Typed x) = Ok i"
    by (auto simp: desired_identity_def)
  have "objs w r k = Some s" using handle_existing_frame [OF ex, of r k] s1 by auto
  with named s(2,3) i have "default_name env parent lst x = Ok (meta_name (obj_meta s))"
    unfolding well_named_def by metis
  with i show ?thesis by auto
next
  assume "was_written env scheme parent lst ex (set (ol_items lst)) k (objs w' r k)"
  then obtain x name where x: "x \<in> set (ol_items lst)" "item_name env parent lst ex x = Ok name"
    "written env scheme parent name x s" using s(1) by (auto simp: was_written_def)
  have "meta_name (obj_meta s) = name" using x(3) by (simp add: written_def)
  moreover have "ol_identity lst (Typed s) = ol_identity lst (Typed x)"
    using written_identity [OF handle_existing_exact [OF ex] x] .
  ultimately show ?thesis using x well_named_item_name [OF named ex] by auto
qed

lemma refresh_realises:
  assumes "refresh env parent lst w = (Ok u, w')"
    and "well_named env parent lst (objs w r)"
    and "inj_on (default_name env parent lst) (set (ol_items lst))"
  shows "realised env scheme parent lst (objs w' r)"
  using assms(1)
proof (rule refresh_done)
  fix ex w1
  assume ex: "handle_existing env parent lst w = (Ok ex, w1)"
    and loop: "for_each (ol_items lst) (refresh_item env parent lst ex) w1 = (Ok u, w')"
  from refresh_stores_default [OF assms] refresh_realises_only [OF ex loop assms(2)] show ?thesis
    unfolding realised_def by blast
qed

text \<open>What has been realised is well named, so the condition holds again.\<close>

lemma realised_well_named:
  assumes "realised env scheme parent lst m"
    and "\<forall>x \<in> set (ol_items lst). \<forall>y \<in> set (ol_items lst).
      ol_identity lst (Typed x) = ol_identity lst (Typed y) \<longrightarrow> default_name env parent lst x =
          default_name env parent lst y"
  shows "well_named env parent lst m"
  unfolding well_named_def
proof (intro allI impI)
  fix k x y
  assume x: "m k = Some x" "in_parent_namespace parent k" "owned_by_parent env (obj_meta x) parent"
    and y: "y \<in> set (ol_items lst)" "ol_identity lst (Typed y) = ol_identity lst (Typed x)"
  from assms(1) x obtain z where z: "z \<in> set (ol_items lst)" "default_name env parent lst z =
      Ok (meta_name (obj_meta x))"
    "ol_identity lst (Typed z) = ol_identity lst (Typed x)"
    unfolding realised_def by metis
  with assms(2) y show "default_name env parent lst y = Ok (meta_name (obj_meta x))" by metis
qed

end

end
