(* ===== verification/AppFacts.thy ===== *)
theory AppFacts
  imports ClusterLaws
begin

text \<open>
  Facts about the lister of forks: its label maps do not depend on map iteration order, the
  copied deployments carry exactly the routing labels of the services that reach them, the
  builder never leads to a nil dereference except through a template without metadata, and
  the three object lists meet the refresher's contract.
\<close>

section \<open>Merging and inverting maps\<close>

lemma range_fold_fmupd: "range_order ord \<Longrightarrow> range_fold ord fmupd m s = s ++\<^sub>f m"
  by (rule fmap_ext) (simp add: fmlookup_range_copy [where g = "\<lambda>_ v. v", simplified] fmlookup_add
      fmlookup_dom_iff split: option.splits)

lemma merge_map_add: "range_order ord \<Longrightarrow> merge_map ord ms = foldl (++\<^sub>f) fmempty ms"
  by (simp add: merge_map_def range_fold_fmupd)

lemma merge_map_pair [simp]: "range_order ord \<Longrightarrow> merge_map ord [a, b] = a ++\<^sub>f b"
  by (simp add: merge_map_add)

lemma lookup_list_inner:
  "lookup_list (fold (\<lambda>new_key out. case fmlookup out new_key of
      None \<Rightarrow> fmupd new_key [old] out
    | Some current \<Rightarrow> fmupd new_key (current @ [old]) out) items out) d =
   lookup_list out d @ replicate (count_list items d) old"
  by (induction items arbitrary: out)
    (auto simp: lookup_list_def replicate_append_same replicate_app_Cons_same split: option.splits)

lemma inverse_map_mem:
  assumes "range_order ord"
  shows "s \<in> set (lookup_list (inverse_map ord m) d) \<longleftrightarrow> d \<in> set (lookup_list m s)"
proof -
  have "s \<in> set (lookup_list (fold (\<lambda>k out. case fmlookup m k of
        Some items \<Rightarrow> fold (\<lambda>new_key out. case fmlookup out new_key of
            None \<Rightarrow> fmupd new_key [k] out
          | Some current \<Rightarrow> fmupd new_key (current @ [k]) out) items out
      | None \<Rightarrow> out) ks out) d) \<longleftrightarrow>
    s \<in> set (lookup_list out d) \<or> s \<in> set ks \<and> d \<in> set (lookup_list m s)" for ks out
  proof (induction ks arbitrary: out)
    case (Cons k ks)
    show ?case
    proof (cases "fmlookup m k")
      case None
      then have "lookup_list m k = []" by (simp add: lookup_list_def)
      with None show ?thesis by (cases "k = s") (simp_all add: Cons.IH)
    next
      case (Some items)
      then have "lookup_list m k = items" by (simp add: lookup_list_def)
      with Some show ?thesis by (auto simp: Cons.IH lookup_list_inner count_list_0_iff)
    qed
  qed simp
  moreover have "d \<in> set (lookup_list m s) \<Longrightarrow> s |\<in>| fmdom m"
    by (cases "fmlookup m s") (auto simp: lookup_list_def fmlookup_dom_iff)
  ultimately show ?thesis
    using assms by (auto simp: inverse_map_def range_fold_def)
qed

section \<open>Labels of copied deployments\<close>

lemma routing_label_inject [simp]:
  "get_label_key_for_routing_label a = get_label_key_for_routing_label b \<longleftrightarrow> a = b"
  by (simp add: get_label_key_for_routing_label_def sprintf_dash_def)

lemma routing_label_not_identifier [simp]:
  "get_label_key_for_routing_label a \<noteq> fork_identifier_label_key"
  "fork_identifier_label_key \<noteq> get_label_key_for_routing_label a"
  by (simp_all add: get_label_key_for_routing_label_def sprintf_dash_def fork_identifier_label_key_def)

lemma deployment_copy_labels_lookup:
  "fmlookup (deployment_copy_labels fork names) k =
    (if k \<in> get_label_key_for_routing_label ` set names then Some ''true''
     else if k = fork_identifier_label_key then Some (spec_identifier (fork_spec fork)) else None)"
proof -
  have "fmlookup (fold (\<lambda>s ls. fmupd (get_label_key_for_routing_label s) ''true'' ls) names ls) k =
    (if k \<in> get_label_key_for_routing_label ` set names then Some ''true'' else fmlookup ls k)" for ls
    by (induction names arbitrary: ls) auto
  then show ?thesis by (auto simp: deployment_copy_labels_def)
qed

text \<open>A selector selects the objects whose labels include it.\<close>

definition selects :: "labels \<Rightarrow> labels \<Rightarrow> bool" where
  "selects sel ls \<longleftrightarrow> sel \<subseteq>\<^sub>f ls"

lemma selects_iff: "selects sel ls \<longleftrightarrow> (\<forall>k v. fmlookup sel k = Some v \<longrightarrow> fmlookup ls k = Some v)"
  by (auto simp: selects_def fmsubset_alt_def fmpred_iff)

lemma selects_fmupd [simp]:
  "k |\<notin>| fmdom sel \<Longrightarrow> selects (fmupd k v sel) ls \<longleftrightarrow> fmlookup ls k = Some v \<and> selects sel ls"
  by (auto simp: selects_iff fmdom_notD split: if_splits)

lemma selects_empty [simp]: "selects fmempty ls"
  by (simp add: selects_iff)

lemma service_copy_selects:
  "selects (ss_selector (svc_spec (build_service_copy s fork existing))) ls \<longleftrightarrow>
   fmlookup ls (get_label_key_for_routing_label (meta_name (svc_meta s))) = Some ''true'' \<and>
   fmlookup ls fork_identifier_label_key = Some (spec_identifier (fork_spec fork))"
  by (auto simp: build_service_copy_def)

text \<open>A template that does not touch the labels the forked services select by.\<close>

definition template_keeps_routing :: "fork \<Rightarrow> string \<Rightarrow> bool" where
  "template_keeps_routing fork service \<longleftrightarrow>
     (case spec_deployments (fork_spec fork) of None \<Rightarrow> True | Some ds \<Rightarrow>
       (case fd_template ds of None \<Rightarrow> True | Some t \<Rightarrow>
         (case pts_metadata t of None \<Rightarrow> True | Some m \<Rightarrow>
            fmlookup (meta_labels m) fork_identifier_label_key = None \<and>
            fmlookup (meta_labels m) (get_label_key_for_routing_label service) = None)))"

lemma build_deployment_copy_Ok:
  assumes "build_deployment_copy ord d fork names = Ok c" and "range_order ord"
  shows "dc_meta c = object_meta_of (sprintf_dash (meta_name (dep_meta d)) (meta_name (fork_meta fork)))
      (meta_namespace (fork_meta fork))"
    and "dc_target_deployment_name (dc_spec c) = meta_name (dep_meta d)"
    and "dc_name_suffix (dc_spec c) = meta_name (fork_meta fork)"
    and "template_keeps_routing fork s \<Longrightarrow>
      fmlookup (dc_custom_labels (dc_spec c)) fork_identifier_label_key =
          Some (spec_identifier (fork_spec fork))"
    and "template_keeps_routing fork s \<Longrightarrow>
      fmlookup (dc_custom_labels (dc_spec c)) (get_label_key_for_routing_label s) =
        (if s \<in> set names then Some ''true'' else None)"
  using assms
  by (auto simp: build_deployment_copy_def build_deployment_copy_spec_def template_keeps_routing_def
      deployment_copy_labels_lookup result_simps Let_def fmlookup_dom_iff
      split: option.splits if_splits)

text \<open>
  The forked service selects the pods of a copied deployment exactly when its original is
  among the services the copy was made for.
\<close>

lemma forked_service_selects_copy:
  assumes "build_deployment_copy ord d fork names = Ok c" and "range_order ord"
    and "template_keeps_routing fork (meta_name (svc_meta s))"
  shows "selects (ss_selector (svc_spec (build_service_copy s fork existing))) (dc_custom_labels (dc_spec c))
    \<longleftrightarrow> meta_name (svc_meta s) \<in> set names"
  using build_deployment_copy_Ok(4,5) [OF assms] by (simp add: service_copy_selects)

section \<open>Nil dereferences\<close>

lemma build_deployment_copy_Panic:
  "build_deployment_copy ord d fork names = Panic p \<longleftrightarrow>
   p = NilDereference \<and>
   (case spec_deployments (fork_spec fork) of
      None \<Rightarrow> True
    | Some ds \<Rightarrow> \<exists>t. fd_template ds = Some t \<and> pts_metadata t = None)"
  by (auto simp: build_deployment_copy_def build_deployment_copy_spec_def result_simps Let_def
      split: option.splits)

lemma build_deployment_copy_not_Err: "build_deployment_copy ord d fork names \<noteq> Err e"
  by (auto simp: build_deployment_copy_def build_deployment_copy_spec_def Let_def split: option.splits)

section \<open>The contracts of the three lists\<close>

lemma written_parts:
  assumes "written env scheme parent name x s"
  shows "resource_of s = resource_of x" "meta_name (obj_meta s) = name"
    "meta_labels (obj_meta s) = meta_labels (obj_meta x)" "spec_persisted x s"
  using assms spec_persisted_resource by (auto simp: written_def)

interpretation services: identity_contract env "generate_services ord a" RService
  for env :: "('w, 'u) env" and ord a
proof
  fix u :: "'u unstructured" and x
  assume "represents env u x"
  then show "ol_identity (generate_services ord a) (Unstructured u) =
      ol_identity (generate_services ord a) (Typed x)"
    by (simp add: generate_services_def represents_meta)
qed (auto simp: generate_services_def labelled_service_copy_def build_service_copy_def Let_def)

interpretation vsconfigs: identity_contract env "generate_vsconfigs env a" RVSConfig
  for env :: "('w, 'u) env" and a
  by unfold_locales (auto simp: generate_vsconfigs_def build_vsconfig_def resource_of_eqs)

interpretation virtual_services: identity_contract env "build_virtual_service env a" RVirtualService
  for env :: "('w, 'u) env" and a
  by unfold_locales
    (auto simp: build_virtual_service_def virtual_service_of_def Let_def resource_of_eqs last_host_def)

lemma deployment_copies_contract:
  fixes env :: "('w, 'u) env" and lst :: "'u object_list"
  assumes "generate_deployment_copies ord a = Ok lst" and "range_order ord"
  shows "identity_contract env lst RDeploymentCopy"
proof -
  from assms obtain copies where lst: "lst = \<lparr>ol_items = copies, ol_gvk = deployment_copy_list_gvk,
      ol_identity = (\<lambda>obj. Ok (meta_name (any_meta obj)))\<rparr>"
    and copies: "list_all2 (\<lambda>d c. bind_result (build_deployment_copy ord d (app_fork a)
      (lookup_list (app_deploy_name_to_service_names a) (meta_name (dep_meta d))))
      (\<lambda>c. Ok (ODeploymentCopy c)) = Ok c) (app_deployments a) copies"
    by (auto simp: generate_deployment_copies_def result_simps map_results_eq_Ok)
  have "\<forall>c \<in> set copies. resource_of c = RDeploymentCopy \<and> meta_owner_refs (obj_meta c) = []"
    using copies by (induction rule: list_all2_induct)
      (auto simp: result_simps build_deployment_copy_Ok(1) [OF _ assms(2)])
  then show ?thesis
    by unfold_locales (auto simp: lst represents_meta)
qed

text \<open>On a cluster, the identities of services, VSConfigs and VirtualServices survive a write.\<close>

lemma services_stable:
  assumes "object_cluster env scheme objs" and "ow_gvk parent = scheme (ow_go_type parent)"
  shows "stable_refresher env scheme objs (generate_services ord a) RService parent"
proof (intro stable_refresher.intro refresher.intro refresher_axioms.intro stable_refresher_axioms.intro assms)
  show "identity_contract env (generate_services ord a) RService" by (rule services.identity_contract_axioms)
qed (auto simp: generate_services_def dest: written_parts)

lemma vsconfigs_stable:
  assumes "object_cluster env scheme objs" and "ow_gvk parent = scheme (ow_go_type parent)"
  shows "stable_refresher env scheme objs (generate_vsconfigs env a) RVSConfig parent"
proof (intro stable_refresher.intro refresher.intro refresher_axioms.intro stable_refresher_axioms.intro assms)
  show "identity_contract env (generate_vsconfigs env a) RVSConfig" by (rule vsconfigs.identity_contract_axioms)
next
  fix ex x name s
  assume "x \<in> set (ol_items (generate_vsconfigs env a))" "written env scheme parent name x s"
  then show "ol_identity (generate_vsconfigs env a) (Typed s) = ol_identity (generate_vsconfigs env a)
      (Typed x)"
    using written_parts [of env scheme parent name x s]
    by (cases s) (auto simp: generate_vsconfigs_def)
qed

lemma virtual_services_stable:
  assumes "object_cluster env scheme objs" and "ow_gvk parent = scheme (ow_go_type parent)"
  shows "stable_refresher env scheme objs (build_virtual_service env a) RVirtualService parent"
proof (intro stable_refresher.intro refresher.intro refresher_axioms.intro stable_refresher_axioms.intro assms)
  show "identity_contract env (build_virtual_service env a) RVirtualService"
    by (rule virtual_services.identity_contract_axioms)
next
  fix ex x name s
  assume "x \<in> set (ol_items (build_virtual_service env a))" "written env scheme parent name x s"
  then show "ol_identity (build_virtual_service env a) (Typed s) =
      ol_identity (build_virtual_service env a) (Typed x)"
    using written_parts [of env scheme parent name x s]
    by (cases s) (auto simp: build_virtual_service_def Let_def last_host_def split: if_splits)
qed

text \<open>DeploymentCopies are told apart by name: theirs survives when it is not cut at 63 bytes.\<close>

lemma deployment_copies_stable:
  fixes env :: "('w, 'u) env" and lst :: "'u object_list"
  assumes "object_cluster env scheme objs" and "ow_gvk parent = scheme (ow_go_type parent)"
    and lst: "generate_deployment_copies ord a = Ok lst" and "range_order ord"
    and short: "\<And>x. x \<in> set (ol_items lst) \<Longrightarrow> meta_name (obj_meta x) \<noteq> '''' \<and>
        length (meta_name (obj_meta x)) \<le> 63"
  shows "stable_refresher env scheme objs lst RDeploymentCopy parent"
proof (intro stable_refresher.intro refresher.intro refresher_axioms.intro stable_refresher_axioms.intro assms)
  show "identity_contract env lst RDeploymentCopy" by (rule deployment_copies_contract [OF lst assms(4)])
next
  fix ex x name s
  assume ex: "exact_existing lst ex" and x: "x \<in> set (ol_items lst)"
    and name: "item_name env parent lst ex x = Ok name" and s: "written env scheme parent name x s"
  have identity: "ol_identity lst = (\<lambda>obj. Ok (meta_name (any_meta obj)))"
    using lst by (auto simp: generate_deployment_copies_def result_simps)
  have "name = meta_name (obj_meta x)"
    using name short [OF x] ex
    by (auto simp: item_name_def refresh_name_def identity exact_existing_def split: option.splits)
  with written_parts(2) [OF s] show "ol_identity lst (Typed s) = ol_identity lst (Typed x)"
    by (simp add: identity)
qed

end
