(* ===== verification/BuilderFacts.thy ===== *)
theory BuilderFacts
  imports AppFacts
begin

text \<open>
  Facts about the builder of the lister of forks: which deployments and which names of
  services it collects, and that the order in which Go enumerates its maps cannot be seen in
  the lists it generates.
\<close>

section \<open>Sorted values of a map\<close>

lemma range_fold_values:
  "range_order ord \<Longrightarrow> range_fold ord (\<lambda>_ d ds. ds @ [d]) m s = s @ map (\<lambda>k. the (fmlookup m k)) (ord (fmdom m))"
proof -
  assume "range_order ord"
  have "\<forall>k \<in> set ks. k |\<in>| fmdom m \<Longrightarrow>
    fold (\<lambda>k s. case fmlookup m k of Some v \<Rightarrow> s @ [v] | None \<Rightarrow> s) ks s = s @
        map (\<lambda>k. the (fmlookup m k)) ks" for ks
    by (induction ks arbitrary: s) (auto simp: fmlookup_dom_iff)
  with \<open>range_order ord\<close> show ?thesis by (simp add: range_fold_def)
qed

text \<open>Every deployment of the set is filed under its own name.\<close>

definition filed_by_name :: "(string, deployment) fmap \<Rightarrow> bool" where
  "filed_by_name m \<longleftrightarrow> (\<forall>n d. fmlookup m n = Some d \<longrightarrow> meta_name (dep_meta d) = n)"

lemma sorted_deployments_props:
  assumes "range_order ord" and "filed_by_name m"
  shows "set (sorted_deployments ord m) = {d. fmlookup m (meta_name (dep_meta d)) = Some d}"
    and "sorted (map (\<lambda>d. meta_name (dep_meta d)) (sorted_deployments ord m))"
    and "distinct (map (\<lambda>d. meta_name (dep_meta d)) (sorted_deployments ord m))"
proof -
  have vals: "range_fold ord (\<lambda>_ d ds. ds @ [d]) m [] = map (\<lambda>k. the (fmlookup m k)) (ord (fmdom m))"
    using range_fold_values [OF assms(1), of m "[]"] by simp
  have "(\<lambda>k. the (fmlookup m k)) ` fset (fmdom m) = {d. fmlookup m (meta_name (dep_meta d)) = Some d}"
  proof (intro set_eqI iffI)
    fix d
    assume "d \<in> (\<lambda>k. the (fmlookup m k)) ` fset (fmdom m)"
    then obtain k where "fmlookup m k = Some d" by (auto simp: fmlookup_dom_iff)
    moreover from this have "meta_name (dep_meta d) = k" using assms(2) by (simp add: filed_by_name_def)
    ultimately show "d \<in> {d. fmlookup m (meta_name (dep_meta d)) = Some d}" by simp
  next
    fix d
    assume "d \<in> {d. fmlookup m (meta_name (dep_meta d)) = Some d}"
    then have "fmlookup m (meta_name (dep_meta d)) = Some d" by simp
    then show "d \<in> (\<lambda>k. the (fmlookup m k)) ` fset (fmdom m)"
      by (intro image_eqI [of _ _ "meta_name (dep_meta d)"]) (simp_all add: fmlookup_dom_iff)
  qed
  then show "set (sorted_deployments ord m) = {d. fmlookup m (meta_name (dep_meta d)) = Some d}"
    by (simp add: sorted_deployments_def vals assms(1))
  show "sorted (map (\<lambda>d. meta_name (dep_meta d)) (sorted_deployments ord m))"
    by (simp add: sorted_deployments_def)
  have "map (\<lambda>d. meta_name (dep_meta d)) (map (\<lambda>k. the (fmlookup m k)) (ord (fmdom m))) = ord (fmdom m)"
    using assms by (auto intro!: map_idI simp: filed_by_name_def fmlookup_dom_iff)
  then have "distinct (map (\<lambda>d. meta_name (dep_meta d)) (map (\<lambda>k. the (fmlookup m k)) (ord (fmdom m))))"
    using assms(1) by simp
  then show "distinct (map (\<lambda>d. meta_name (dep_meta d)) (sorted_deployments ord m))"
    unfolding sorted_deployments_def vals
    by (metis (no_types, lifting) distinct_map mset_eq_imp_distinct_iff mset_sort set_sort)
qed

lemma sorted_deployments_order:
  assumes "range_order ord" and "range_order ord'" and "filed_by_name m"
  shows "sorted_deployments ord m = sorted_deployments ord' m"
proof -
  have "distinct (sorted_deployments o' m)" if "range_order o'" for o'
    using sorted_deployments_props(3) [OF that assms(3)] by (simp add: distinct_map)
  then have "mset (sorted_deployments ord m) = mset (sorted_deployments ord' m)"
    using sorted_deployments_props(1) [OF _ assms(3)] assms(1,2)
      by (simp add: set_eq_iff_mset_eq_distinct [symmetric])
  then show ?thesis
    using sorted_permutation_unique [of "sorted_deployments ord m" "sorted_deployments ord' m"]
      sorted_permutation_unique [of "sorted_deployments ord' m" "sorted_deployments ord' m"]
      sorted_deployments_props(2,3) [OF _ assms(3)] assms(1,2) by metis
qed

section \<open>Collecting deployments\<close>

lemma add_routable_step:
  "fold (add_routable svc) (e # es) (ds, ns) =
   fold (add_routable svc) es (fmupd (meta_name (dep_meta e)) e ds,
     fmupd (meta_name (svc_meta svc)) (lookup_list ns (meta_name (svc_meta svc)) @
         [meta_name (dep_meta e)]) ns)"
  by simp

lemma add_routable_filed:
  "fold (add_routable svc) dplys (ds, ns) = (ds', ns') \<Longrightarrow> filed_by_name ds \<Longrightarrow> filed_by_name ds'"
proof (induction dplys arbitrary: ds ns)
  case (Cons e es)
  from Cons.prems(2) have "filed_by_name (fmupd (meta_name (dep_meta e)) e ds)"
    by (simp add: filed_by_name_def)
  with Cons.IH [OF Cons.prems(1) [unfolded add_routable_step]] show ?case by simp
qed simp

lemma add_routable_lookup:
  "fold (add_routable svc) dplys (ds, ns) = (ds', ns') \<Longrightarrow> fmlookup ds' n = Some d \<Longrightarrow>
   fmlookup ds n = Some d \<or> d \<in> set dplys"
proof (induction dplys arbitrary: ds ns)
  case (Cons e es)
  from Cons.IH [OF Cons.prems(1) [unfolded add_routable_step] Cons.prems(2)] show ?case
    by (auto split: if_splits)
qed simp

lemma add_routable_dom:
  "fold (add_routable svc) dplys (ds, ns) = (ds', ns') \<Longrightarrow>
   fset (fmdom ds') = fset (fmdom ds) \<union> (\<lambda>d. meta_name (dep_meta d)) ` set dplys"
  by (induction dplys arbitrary: ds ns) auto

lemma add_routable_names:
  "fold (add_routable svc) dplys (ds, ns) = (ds', ns') \<Longrightarrow>
   set (lookup_list ns' s) = set (lookup_list ns s) \<union>
     (if s = meta_name (svc_meta svc) then (\<lambda>d. meta_name (dep_meta d)) ` set dplys else {})"
  by (induction dplys arbitrary: ds ns) auto

text \<open>The maps filled for a list of services, when every listing gives the deployments \<open>D\<close>.\<close>

definition collected :: "(deployment \<Rightarrow> service \<Rightarrow> bool) \<Rightarrow> deployment list \<Rightarrow> service list \<Rightarrow> deploy_maps \<Rightarrow>
    deploy_maps" where
  "collected R D svcs maps = fold (\<lambda>svc. fold (add_routable svc) (filter (\<lambda>d. R d svc) D)) svcs maps"

lemma collected_Cons:
  obtains ds1 ns1 where "fold (add_routable svc) (filter (\<lambda>d. R d svc) D) (ds, ns) = (ds1, ns1)"
    and "collected R D (svc # svcs) (ds, ns) = collected R D svcs (ds1, ns1)"
  by (cases "fold (add_routable svc) (filter (\<lambda>d. R d svc) D) (ds, ns)") (simp add: collected_def)

lemma collected_step:
  assumes "collected R D svcs (ds, ns) = (ds', ns')"
  shows "filed_by_name ds \<longrightarrow> filed_by_name ds'"
    and "fmlookup ds' n = Some d \<longrightarrow> fmlookup ds n = Some d \<or> d \<in> set D"
    and "fset (fmdom ds') = fset (fmdom ds) \<union> {meta_name (dep_meta d) |d. d \<in> set D \<and>
        (\<exists>svc \<in> set svcs. R d svc)}"
    and "set (lookup_list ns' s) = set (lookup_list ns s) \<union>
      {meta_name (dep_meta d) |d. d \<in> set D \<and> (\<exists>svc \<in> set svcs. meta_name (svc_meta svc) = s \<and> R d svc)}"
proof -
  have "(filed_by_name ds \<longrightarrow> filed_by_name ds') \<and>
    (fmlookup ds' n = Some d \<longrightarrow> fmlookup ds n = Some d \<or> d \<in> set D) \<and>
    fset (fmdom ds') = fset (fmdom ds) \<union> {meta_name (dep_meta d) |d. d \<in> set D \<and> (\<exists>svc \<in> set svcs. R d svc)} \<and>
    set (lookup_list ns' s) = set (lookup_list ns s) \<union>
      {meta_name (dep_meta d) |d. d \<in> set D \<and> (\<exists>svc \<in> set svcs. meta_name (svc_meta svc) = s \<and> R d svc)}"
    using assms
  proof (induction svcs arbitrary: ds ns)
    case Nil
    then show ?case by (simp add: collected_def)
  next
    case (Cons svc svcs)
    obtain ds1 ns1 where one: "fold (add_routable svc) (filter (\<lambda>d. R d svc) D) (ds, ns) = (ds1, ns1)"
      and rest: "collected R D (svc # svcs) (ds, ns) = collected R D svcs (ds1, ns1)"
      by (rule collected_Cons)
    note ih = Cons.IH [OF Cons.prems [unfolded rest]]
    have "filed_by_name ds \<longrightarrow> filed_by_name ds'" using ih add_routable_filed [OF one] by simp
    moreover have "fmlookup ds' n = Some d \<longrightarrow> fmlookup ds n = Some d \<or> d \<in> set D"
      using ih add_routable_lookup [OF one, of n d] by auto
    moreover have "fset (fmdom ds') = fset (fmdom ds) \<union>
        {meta_name (dep_meta d) |d. d \<in> set D \<and> (\<exists>svc' \<in> set (svc # svcs). R d svc')}"
      using ih add_routable_dom [OF one] by auto
    moreover have "set (lookup_list ns' s) = set (lookup_list ns s) \<union>
        {meta_name (dep_meta d) |d. d \<in> set D \<and> (\<exists>svc' \<in> set (svc # svcs). meta_name (svc_meta svc') =
            s \<and> R d svc')}"
      using ih add_routable_names [OF one, of s] by auto
    ultimately show ?case by blast
  qed
  then show "filed_by_name ds \<longrightarrow> filed_by_name ds'"
    "fmlookup ds' n = Some d \<longrightarrow> fmlookup ds n = Some d \<or> d \<in> set D"
    "fset (fmdom ds') = fset (fmdom ds) \<union> {meta_name (dep_meta d) |d. d \<in> set D \<and> (\<exists>svc \<in> set svcs. R d svc)}"
    "set (lookup_list ns' s) = set (lookup_list ns s) \<union>
      {meta_name (dep_meta d) |d. d \<in> set D \<and> (\<exists>svc \<in> set svcs. meta_name (svc_meta svc) = s \<and> R d svc)}"
    by blast+
qed

section \<open>The builder against steady listings\<close>

text \<open>
  Reads of the builder, when nobody else writes: they change nothing the builder can see, and
  names are unique in a namespace. \<open>deps w\<close> is what listing the deployments gives in \<open>w\<close>.
\<close>

locale steady_reads =
  fixes env :: "('w, 'u) env"
    and deps :: "'w \<Rightarrow> list_options \<Rightarrow> deployment list"
  assumes deployments_listed:
      "api_list (env_deployments env) opts w = (res, w') \<Longrightarrow>
       deps w' = deps w \<and> (\<forall>ds. res = Ok ds \<longrightarrow> ds = deps w opts)"
    and deployments_distinct:
      "lo_namespace opts \<noteq> '''' \<Longrightarrow> distinct (map (\<lambda>d. meta_name (dep_meta d)) (deps w opts))"
    and manager_read: "api_get (env_fork_managers env) k w = (fres, w') \<Longrightarrow> deps w' = deps w"
    and services_read: "api_list (env_services env) opts w = (sres, w') \<Longrightarrow> deps w' = deps w"
    and services_distinct:
      "api_list (env_services env) opts w = (Ok ss, w') \<Longrightarrow> lo_namespace opts \<noteq> '''' \<Longrightarrow>
       distinct (map (\<lambda>s. meta_name (svc_meta s)) ss)"

text \<open>The deployments the fork's selector admits in its namespace.\<close>

definition candidate_deployments ::
  "('w, 'u) env \<Rightarrow> ('w \<Rightarrow> list_options \<Rightarrow> deployment list) \<Rightarrow> fork \<Rightarrow> 'w \<Rightarrow> deployment list" where
  "candidate_deployments env deps fork w =
     (case Option.bind (spec_deployments (fork_spec fork)) fd_selector of
        None \<Rightarrow> []
      | Some sel \<Rightarrow>
          (case env_label_selector_as_selector env (Some sel) of
             Ok selector \<Rightarrow> deps w \<lparr>lo_selector = Some selector, lo_namespace = meta_namespace (fork_meta fork)\<rparr>
           | _ \<Rightarrow> []))"

context steady_reads
begin

lemma list_deployments_Ok:
  "list_deployments_routable_from_svc env fork svc w = (Ok ds, w') \<Longrightarrow>
   deps w' = deps w \<and> ds = filter (\<lambda>d. routable_from env d svc) (candidate_deployments env deps fork w)"
  by (auto simp: list_deployments_routable_from_svc_def candidate_deployments_def eff_simps
      split: option.splits dest: deployments_listed)

lemma collect_deployments_Ok:
  assumes "collect_deployments env fork svc maps w = (Ok maps', w')"
  shows "deps w' = deps w \<and>
    maps' = fold (add_routable svc)
      (filter (\<lambda>d. routable_from env d svc) (candidate_deployments env deps fork w)) maps"
proof -
  from assms obtain ds where
    "list_deployments_routable_from_svc env fork svc w = (Ok ds, w')" "maps' = fold (add_routable svc) ds maps"
    by (auto simp: collect_deployments_def eff_simps)
  with list_deployments_Ok show ?thesis by auto
qed

lemma collect_all_Ok:
  "fold_eff (collect_deployments env fork) svcs maps w = (Ok maps', w') \<Longrightarrow>
   maps' = collected (routable_from env) (candidate_deployments env deps fork w) svcs maps"
proof (induction svcs arbitrary: maps w)
  case (Cons svc svcs)
  from Cons.prems obtain maps1 w1 where one: "collect_deployments env fork svc maps w = (Ok maps1, w1)"
    and rest: "fold_eff (collect_deployments env fork) svcs maps1 w1 = (Ok maps', w')"
    by (auto simp: eff_simps)
  have "deps w1 = deps w" using collect_deployments_Ok [OF one] by simp
  then have "candidate_deployments env deps fork w1 = candidate_deployments env deps fork w"
    by (simp only: candidate_deployments_def)
  with Cons.IH [OF rest] collect_deployments_Ok [OF one] show ?case by (simp add: collected_def)
qed (simp add: collected_def)

lemma target_services_Ok:
  assumes "fork_target_services env fork w = (res, w')"
  shows "deps w' = deps w"
    and "res = Ok ss \<Longrightarrow> meta_namespace (fork_meta fork) \<noteq> '''' \<Longrightarrow>
      distinct (map (\<lambda>s. meta_name (svc_meta s)) ss)"
  using assms services_distinct
  by (auto simp: fork_target_services_def bind_eff_def split: option.splits prod.splits result.splits
      dest: services_read)

lemma existing_services_keeps:
  "existing_forked_services env fork w = (res, w') \<Longrightarrow> deps w' = deps w"
  by (auto simp: existing_forked_services_def bind_eff_def split: prod.splits result.splits
      dest: services_read)

lemma header_key_keeps: "get_fork_header_key env fork w = (res, w') \<Longrightarrow> deps w' = deps w"
  by (auto simp: get_fork_header_key_def bind_eff_def split: prod.splits result.splits
      dest: manager_read)

end

context steady_reads
begin

lemma candidates_distinct:
  "meta_namespace (fork_meta fork) \<noteq> '''' \<Longrightarrow>
   distinct (map (\<lambda>d. meta_name (dep_meta d)) (candidate_deployments env deps fork w))"
  by (auto simp: candidate_deployments_def intro!: deployments_distinct split: option.splits result.splits)

lemma build_app_Ok:
  assumes "build_app env ord fork w = (Ok a, w')"
  obtains ds ns where
    "(ds, ns) = collected (routable_from env) (candidate_deployments env deps fork w) (app_services a)
        (fmempty, fmempty)"
    and "app_deployments a = sorted_deployments ord ds"
    and "app_deploy_name_to_service_names a = inverse_map ord ns"
    and "app_fork a = fork"
    and "meta_namespace (fork_meta fork) \<noteq> '''' \<Longrightarrow> distinct (map (\<lambda>s. meta_name (svc_meta s)) (app_services a))"
proof -
  from assms obtain h ss ex maps w1 w2 w3 where
    h: "get_fork_header_key env fork w = (Ok h, w1)" and ss: "fork_target_services env fork w1 = (Ok ss, w2)"
    and ex: "existing_forked_services env fork w2 = (Ok ex, w3)"
    and maps: "fold_eff (collect_deployments env fork) ss (fmempty, fmempty) w3 = (Ok maps, w')"
    and a: "a = (case maps of (ds, ns) \<Rightarrow> \<lparr>app_services = ss, app_deployments = sorted_deployments ord ds,
      app_existing_copied_services = ex, app_deploy_name_to_service_names = inverse_map ord ns,
      app_fork_header = h, app_fork = fork\<rparr>)"
    by (auto simp: build_app_def eff_simps split: prod.splits)
  have "deps w3 = deps w"
    using header_key_keeps [OF h] target_services_Ok(1) [OF ss] existing_services_keeps [OF ex] by simp
  then have same: "candidate_deployments env deps fork w3 = candidate_deployments env deps fork w"
    by (simp only: candidate_deployments_def)
  obtain ds ns where pair: "maps = (ds, ns)" by (cases maps)
  have fields: "app_services a = ss" "app_deployments a = sorted_deployments ord ds"
    "app_deploy_name_to_service_names a = inverse_map ord ns" "app_fork a = fork"
    using a pair by simp_all
  show thesis
  proof (rule that)
    show "(ds, ns) = collected (routable_from env) (candidate_deployments env deps fork w)
        (app_services a) (fmempty, fmempty)"
      unfolding fields using collect_all_Ok [OF maps] pair same by simp
  qed (use fields target_services_Ok(2) [OF ss refl] in simp_all)
qed

text \<open>
  The application has, sorted by name and once each, the candidates reachable from a target
  service, and for each the names of the services that reach it.
\<close>

lemma build_app_deployments:
  assumes "build_app env ord fork w = (Ok a, w')" and "range_order ord"
    and "meta_namespace (fork_meta fork) \<noteq> ''''"
  shows "set (app_deployments a) =
      {d \<in> set (candidate_deployments env deps fork w). \<exists>s \<in> set (app_services a). routable_from env d s}"
    and "sorted (map (\<lambda>d. meta_name (dep_meta d)) (app_deployments a))"
    and "distinct (map (\<lambda>d. meta_name (dep_meta d)) (app_deployments a))"
proof -
  let ?D = "candidate_deployments env deps fork w"
  from assms(1) obtain ds ns where
    coll: "collected (routable_from env) ?D (app_services a) (fmempty, fmempty) = (ds, ns)"
    and deployments: "app_deployments a = sorted_deployments ord ds"
    by (metis build_app_Ok)
  have filed: "filed_by_name ds" using collected_step(1) [OF coll] by (simp add: filed_by_name_def)
  from sorted_deployments_props(2,3) [OF assms(2) filed]
  show "sorted (map (\<lambda>d. meta_name (dep_meta d)) (app_deployments a))"
    "distinct (map (\<lambda>d. meta_name (dep_meta d)) (app_deployments a))" by (simp_all add: deployments)
  have unique: "d = e" if "d \<in> set ?D" "e \<in> set ?D" "meta_name (dep_meta d) = meta_name (dep_meta e)" for d e
    using candidates_distinct [OF assms(3), of w] that by (auto simp: distinct_map dest: inj_onD)
  have dom: "n |\<in>| fmdom ds \<longleftrightarrow>
      (\<exists>d \<in> set ?D. meta_name (dep_meta d) = n \<and> (\<exists>s \<in> set (app_services a). routable_from env d s))" for n
    using collected_step(3) [OF coll] by auto
  have entry: "fmlookup ds (meta_name (dep_meta d)) = Some d \<longleftrightarrow>
      d \<in> set ?D \<and> (\<exists>s \<in> set (app_services a). routable_from env d s)" for d
  proof
    assume d: "fmlookup ds (meta_name (dep_meta d)) = Some d"
    have "d \<in> set ?D" using collected_step(2) [OF coll] d by auto
    moreover have "meta_name (dep_meta d) |\<in>| fmdom ds" using d by (rule fmdomI)
    ultimately show "d \<in> set ?D \<and> (\<exists>s \<in> set (app_services a). routable_from env d s)"
      using dom unique by metis
  next
    assume d: "d \<in> set ?D \<and> (\<exists>s \<in> set (app_services a). routable_from env d s)"
    then obtain e where e: "fmlookup ds (meta_name (dep_meta d)) = Some e"
      using dom [of "meta_name (dep_meta d)"] by (auto simp: fmlookup_dom_iff)
    then have "e \<in> set ?D" using collected_step(2) [OF coll] by auto
    moreover have "meta_name (dep_meta e) = meta_name (dep_meta d)" using filed e
      by (simp add: filed_by_name_def)
    ultimately show "fmlookup ds (meta_name (dep_meta d)) = Some d" using e unique d by metis
  qed
  show "set (app_deployments a) =
      {d \<in> set ?D. \<exists>s \<in> set (app_services a). routable_from env d s}"
    by (auto simp: deployments sorted_deployments_props(1) [OF assms(2) filed] entry)
qed

lemma build_app_names:
  assumes "build_app env ord fork w = (Ok a, w')" and "range_order ord"
  shows "n \<in> set (lookup_list (app_deploy_name_to_service_names a) (meta_name (dep_meta d))) \<longleftrightarrow>
    (\<exists>e \<in> set (candidate_deployments env deps fork w). meta_name (dep_meta e) = meta_name (dep_meta d) \<and>
      (\<exists>s \<in> set (app_services a). meta_name (svc_meta s) = n \<and> routable_from env e s))"
proof -
  from assms(1) obtain ds ns where
    coll: "collected (routable_from env) (candidate_deployments env deps fork w) (app_services a)
        (fmempty, fmempty) = (ds, ns)"
    and names: "app_deploy_name_to_service_names a = inverse_map ord ns"
    by (metis build_app_Ok)
  have "n \<in> set (lookup_list (app_deploy_name_to_service_names a) (meta_name (dep_meta d))) \<longleftrightarrow>
    meta_name (dep_meta d) \<in> set (lookup_list ns n)"
    by (simp add: names inverse_map_mem [OF assms(2)])
  with collected_step(4) [OF coll, of n] show ?thesis by simp metis
qed

text \<open>The routing of a fork mirrors the routing of the originals.\<close>

lemma copies_mirror_routing:
  assumes "build_app env ord fork w = (Ok a, w')" and "range_order ord"
    and "meta_namespace (fork_meta fork) \<noteq> ''''"
    and "d \<in> set (app_deployments a)" and "s \<in> set (app_services a)"
    and "build_deployment_copy ord d fork (lookup_list (app_deploy_name_to_service_names a)
        (meta_name (dep_meta d))) = Ok c"
    and "template_keeps_routing fork (meta_name (svc_meta s))"
  shows "selects (ss_selector (svc_spec (labelled_service_copy ord a s))) (dc_custom_labels (dc_spec c)) \<longleftrightarrow>
    routable_from env d s"
proof -
  let ?D = "candidate_deployments env deps fork w"
  from assms(1) have "app_fork a = fork"
    and services: "distinct (map (\<lambda>s. meta_name (svc_meta s)) (app_services a))"
    using assms(3) by (elim build_app_Ok; simp)+
  then have "selects (ss_selector (svc_spec (labelled_service_copy ord a s))) (dc_custom_labels (dc_spec c)) \<longleftrightarrow>
      meta_name (svc_meta s) \<in> set (lookup_list (app_deploy_name_to_service_names a) (meta_name (dep_meta d)))"
    using forked_service_selects_copy [OF assms(6,2,7)] by (simp add: labelled_service_copy_def Let_def)
  also have "\<dots> \<longleftrightarrow> (\<exists>e \<in> set ?D. meta_name (dep_meta e) = meta_name (dep_meta d) \<and>
      (\<exists>t \<in> set (app_services a). meta_name (svc_meta t) = meta_name (svc_meta s) \<and> routable_from env e t))"
    by (rule build_app_names [OF assms(1,2)])
  also have "\<dots> \<longleftrightarrow> routable_from env d s"
  proof -
    have d: "d \<in> set ?D" using build_app_deployments(1) [OF assms(1-3)] assms(4) by auto
    have "e = d" if "e \<in> set ?D" "meta_name (dep_meta e) = meta_name (dep_meta d)" for e
      using candidates_distinct [OF assms(3), of w] d that by (auto simp: distinct_map dest: inj_onD)
    moreover have "t = s" if "t \<in> set (app_services a)" "meta_name (svc_meta t) = meta_name (svc_meta s)" for t
      using services assms(5) that by (auto simp: distinct_map dest: inj_onD)
    ultimately show ?thesis using d assms(5) by blast
  qed
  finally show ?thesis .
qed

end

end
