(* ===== verification/ListerFacts.thy ===== *)
theory ListerFacts
  imports BuilderFacts Updaters
begin

text \<open>
  Facts about the lists of a fork as a whole: when generating them panics, and that the
  microservice updater does not depend on the order in which maps are enumerated.
\<close>

section \<open>Panics of the generated lists\<close>

definition template_without_metadata :: "fork \<Rightarrow> bool" where
  "template_without_metadata fork \<longleftrightarrow>
     (case Option.bind (spec_deployments (fork_spec fork)) fd_template of
        None \<Rightarrow> False | Some t \<Rightarrow> pts_metadata t = None)"

lemma generate_app_lists_Panic:
  "generate_app_lists env ord a = Panic p \<longleftrightarrow>
   p = NilDereference \<and> app_deployments a \<noteq> [] \<and>
   (spec_deployments (fork_spec (app_fork a)) = None \<or> template_without_metadata (app_fork a))"
proof -
  let ?bad = "spec_deployments (fork_spec (app_fork a)) = None \<or> template_without_metadata (app_fork a)"
  have one: "build_deployment_copy ord d (app_fork a) names = Panic p \<longleftrightarrow> p = NilDereference \<and> ?bad" for d names p
    by (auto simp: build_deployment_copy_Panic template_without_metadata_def split: option.splits)
  have "map_results (\<lambda>d. bind_result (build_deployment_copy ord d (app_fork a) (N d))
      (\<lambda>c. Ok (ODeploymentCopy c))) ds = Panic p \<longleftrightarrow> p = NilDereference \<and> ds \<noteq> [] \<and> ?bad" for ds N
  proof (cases ds)
    case (Cons d ds')
    show ?thesis
    proof (cases "build_deployment_copy ord d (app_fork a) (N d)")
      case (Ok c)
      then have good: "\<not> ?bad" using one [of d "N d" NilDereference] by auto
      then have "map_results (\<lambda>d. bind_result (build_deployment_copy ord d (app_fork a) (N d))
        (\<lambda>c. Ok (ODeploymentCopy c))) ds \<noteq> Panic p"
        by (auto simp: result_simps one dest!: map_results_Panic)
      with good show ?thesis by simp
    next
      case (Panic q)
      with one [of d "N d" q] Cons show ?thesis by auto
    qed (simp add: build_deployment_copy_not_Err)
  qed simp
  then show ?thesis
    by (auto simp: generate_app_lists_def generate_deployment_copies_def result_simps)
qed

lemma map_results_not_Err: "(\<And>x e. x \<in> set xs \<Longrightarrow> f x \<noteq> Err e) \<Longrightarrow> map_results f xs \<noteq> Err e"
proof (induction xs)
  case (Cons x xs)
  then have "map_results f xs \<noteq> Err e" by simp
  with Cons.prems [of x] show ?case
    by (cases "f x"; cases "map_results f xs") auto
qed simp

lemma generate_app_lists_not_Err: "generate_app_lists env ord a \<noteq> Err e"
proof -
  let ?copies = "map_results (\<lambda>d. bind_result (build_deployment_copy ord d (app_fork a)
      (lookup_list (app_deploy_name_to_service_names a) (meta_name (dep_meta d))))
      (\<lambda>c. Ok (ODeploymentCopy c))) (app_deployments a)"
  have "bind_result (build_deployment_copy ord d (app_fork a) ns) (\<lambda>c. Ok (ODeploymentCopy c)) \<noteq> Err e"
      for d ns e
    by (cases "build_deployment_copy ord d (app_fork a) ns") (auto simp: build_deployment_copy_not_Err)
  then have "?copies \<noteq> Err e" by (intro map_results_not_Err)
  then show ?thesis
    by (cases ?copies) (auto simp: generate_app_lists_def generate_deployment_copies_def)
qed

section \<open>Iteration order\<close>

lemma build_deployment_copy_order:
  assumes "range_order ord" "range_order ord'" "set names = set names'"
  shows "build_deployment_copy ord d fork names = build_deployment_copy ord' d fork names'"
proof -
  have "deployment_copy_labels fork names = deployment_copy_labels fork names'"
    by (rule fmap_ext) (simp add: deployment_copy_labels_lookup assms(3))
  with assms(1,2) show ?thesis
    by (simp add: build_deployment_copy_def build_deployment_copy_spec_def Let_def split: option.split)
qed

lemma generate_app_lists_order:
  fixes env :: "('w, 'u) env" and ss ex ns h fork
  assumes "range_order ord" "range_order ord'" "filed_by_name ds"
  defines "a o' \<equiv> \<lparr>app_services = ss, app_deployments = sorted_deployments o' ds,
      app_existing_copied_services = ex, app_deploy_name_to_service_names = inverse_map o' ns,
      app_fork_header = h, app_fork = fork\<rparr>"
  shows "generate_app_lists env ord (a ord) = generate_app_lists env ord' (a ord')"
proof -
  have "set (lookup_list (inverse_map ord ns) n) = set (lookup_list (inverse_map ord' ns) n)" for n
    by (auto simp: inverse_map_mem [OF assms(1)] inverse_map_mem [OF assms(2)])
  note copy = build_deployment_copy_order [OF assms(1,2) this]
  have "generate_deployment_copies ord (a ord) = (generate_deployment_copies ord' (a ord') :: 'u
      object_list result)"
    using sorted_deployments_order [OF assms(1-3)] copy by (simp add: generate_deployment_copies_def a_def)
  moreover have "generate_services ord (a ord) = (generate_services ord' (a ord') :: 'u object_list)"
    using assms(1,2) by (simp add: generate_services_def a_def labelled_service_copy_def Let_def)
  moreover have "generate_vsconfigs env (a ord) = generate_vsconfigs env (a ord')"
    by (simp add: generate_vsconfigs_def a_def)
  ultimately show ?thesis by (simp add: generate_app_lists_def)
qed

lemma bind_eff_cong_Ok:
  "(\<And>x w1. m w = (Ok x, w1) \<Longrightarrow> f x w1 = g x w1) \<Longrightarrow> bind_eff m f w = bind_eff m g w"
  by (auto simp: bind_eff_def split: prod.split result.split)

lemma collect_all_filed:
  "fold_eff (collect_deployments env fork) svcs (ds, ns) w = (Ok (ds', ns'), w') \<Longrightarrow>
   filed_by_name ds \<Longrightarrow> filed_by_name ds'"
proof (induction svcs arbitrary: ds ns w)
  case (Cons svc svcs)
  from Cons.prems(1) obtain ds1 ns1 w1
      where one: "collect_deployments env fork svc (ds, ns) w = (Ok (ds1, ns1), w1)"
    and rest: "fold_eff (collect_deployments env fork) svcs (ds1, ns1) w1 = (Ok (ds', ns'), w')"
    by (auto simp: eff_simps)
  from one obtain dplys where "fold (add_routable svc) dplys (ds, ns) = (ds1, ns1)"
    by (auto simp: collect_deployments_def eff_simps)
  from add_routable_filed [OF this Cons.prems(2)] Cons.IH [OF rest] show ?case by simp
qed simp

lemma build_and_generate_order:
  assumes "range_order ord" "range_order ord'"
  shows "bind_eff (build_app env ord fork) (\<lambda>a. lift_result (generate_app_lists env ord a)) =
    bind_eff (build_app env ord' fork) (\<lambda>a. lift_result (generate_app_lists env ord' a))"
  unfolding build_app_def bind_eff_assoc
proof (rule ext, intro bind_eff_cong_Ok)
  fix w0 h w1 ss w2 ex w3 maps w4
  assume maps: "fold_eff (collect_deployments env fork) ss (fmempty, fmempty) w3 = (Ok maps, w4)"
  obtain ds ns where pair: "maps = (ds, ns)" by (cases maps)
  have filed: "filed_by_name ds"
    by (rule collect_all_filed [OF maps [unfolded pair]]) (simp add: filed_by_name_def)
  show "bind_eff (case maps of (ds, ns) \<Rightarrow>
      return \<lparr>app_services = ss, app_deployments = sorted_deployments ord ds,
      app_existing_copied_services = ex, app_deploy_name_to_service_names = inverse_map ord ns,
      app_fork_header = h, app_fork = fork\<rparr>) (\<lambda>a. lift_result (generate_app_lists env ord a)) w4 =
    bind_eff (case maps of (ds, ns) \<Rightarrow> return \<lparr>app_services = ss, app_deployments = sorted_deployments ord' ds,
      app_existing_copied_services = ex, app_deploy_name_to_service_names = inverse_map ord' ns,
      app_fork_header = h, app_fork = fork\<rparr>) (\<lambda>a. lift_result (generate_app_lists env ord' a)) w4"
    by (simp add: pair generate_app_lists_order [OF assms filed])
qed

lemma microservice_update_split:
  "microservice_update env ord k w =
     (case api_get (env_forks env) k w of
        (Err NotFound, w1) \<Rightarrow> (Ok (), w1)
      | (Err e, w1) \<Rightarrow> (Err e, w1)
      | (Panic p, w1) \<Rightarrow> (Panic p, w1)
      | (Ok fork, w1) \<Rightarrow>
          bind_eff (bind_eff (build_app env ord fork) (\<lambda>a. lift_result (generate_app_lists env ord a)))
            (\<lambda>ls. for_each ls (refresh env (fork_owner fork))) w1)"
  unfolding microservice_update_def bind_eff_assoc ..

lemma microservice_update_order:
  assumes "range_order ord" "range_order ord'"
  shows "microservice_update env ord k w = microservice_update env ord' k w"
  unfolding microservice_update_split build_and_generate_order [OF assms] ..

end
