(* ===== verification/MappingFacts.thy ===== *)
theory MappingFacts
  imports MappingUpdater ListerFacts
begin

text \<open>
  Facts about the Mappings of a fork manager: how forks are grouped, what the desired spec of
  a Mapping says, which names it gets, and what an update of a manager does to the cluster.
\<close>

section \<open>Grouping\<close>

lemma group_forks_lookup:
  "fmlookup (group_forks_by_identifier fs) i =
   (if \<exists>f \<in> set fs. spec_identifier (fork_spec f) = i
    then Some (filter (\<lambda>f. spec_identifier (fork_spec f) = i) fs) else None)"
proof (induction fs arbitrary: i rule: rev_induct)
  case Nil
  then show ?case by (simp add: group_forks_by_identifier_def)
next
  case (snoc f fs)
  let ?m = "group_forks_by_identifier fs" and ?j = "spec_identifier (fork_spec f)"
  have "group_forks_by_identifier (fs @ [f]) = fmupd ?j (lookup_list ?m ?j @ [f])
      (case fmlookup ?m ?j of None \<Rightarrow> fmupd ?j [] ?m | Some _ \<Rightarrow> ?m)"
    by (simp add: group_forks_by_identifier_def Let_def lookup_list_def split: option.split)
  moreover have "lookup_list ?m i = filter (\<lambda>f. spec_identifier (fork_spec f) = i) fs" for i
    by (simp add: lookup_list_def snoc.IH empty_filter_conv)
  ultimately show ?case
    by (auto simp: snoc.IH split: option.split)
qed

lemma group_forks_dom:
  "fset (fmdom (group_forks_by_identifier fs)) = (\<lambda>f. spec_identifier (fork_spec f)) ` set fs"
  by (auto simp: fmlookup_dom_iff group_forks_lookup split: if_splits)

lemma group_forks_list:
  "lookup_list (group_forks_by_identifier fs) i = filter (\<lambda>f. spec_identifier (fork_spec f) = i) fs"
  by (simp add: lookup_list_def group_forks_lookup empty_filter_conv)

section \<open>Options\<close>

text \<open>\<open>sets.String\<close>: \<open>List\<close> has exactly the elements of the set.\<close>

definition string_sets_ok :: "('w, 'u) env \<Rightarrow> bool" where
  "string_sets_ok env \<longleftrightarrow> (\<forall>S. fset_of_list (env_string_set_list env S) = S)"

definition requested_headers :: "fork \<Rightarrow> labels" where
  "requested_headers fork =
     (case spec_gateway_options (fork_spec fork) of None \<Rightarrow> fmempty | Some opts \<Rightarrow> go_add_request_headers opts)"

definition requested_upgrades :: "fork \<Rightarrow> string list" where
  "requested_upgrades fork =
     (case spec_gateway_options (fork_spec fork) of None \<Rightarrow> [] | Some opts \<Rightarrow> go_allow_upgrade opts)"

definition with_headers :: "(string, string option) fmap \<Rightarrow> string list \<Rightarrow> mapping_spec \<Rightarrow> mapping_spec" where
  "with_headers hs us s = s\<lparr>mp_add_request_headers := hs, mp_allow_upgrade := us\<rparr>"

lemma with_headers_twice: "with_headers hs us (with_headers hs' us' s) = with_headers hs us s"
  by (simp add: with_headers_def)

text \<open>
  The effect of one fork's options: its headers are added, and its protocols to upgrade are
  merged when it has at least one header.
\<close>

text \<open>The body of the loop of \<open>applyOptionsToMapping\<close>, for one header of the options.\<close>

definition option_body :: "('w, 'u) env \<Rightarrow> gateway_options \<Rightarrow> string \<Rightarrow> mapping_spec \<Rightarrow> mapping_spec" where
  "option_body env opts k s = (case fmlookup (go_add_request_headers opts) k of None \<Rightarrow> s | Some v \<Rightarrow>
     s\<lparr>mp_add_request_headers := fmupd k (Some v) (mp_add_request_headers s),
       mp_allow_upgrade := env_string_set_list env
         (fset_of_list (mp_allow_upgrade s) |\<union>| fset_of_list (go_allow_upgrade opts))\<rparr>)"

lemma option_body_headers:
  "mp_add_request_headers (fold (option_body env opts) ks s) =
     fold (\<lambda>k hs. case fmlookup (go_add_request_headers opts) k of Some v \<Rightarrow> fmupd k (Some v) hs | None \<Rightarrow> hs) ks
       (mp_add_request_headers s)"
  by (induction ks arbitrary: s) (auto simp: option_body_def split: option.split)

lemma option_body_rest:
  "fold (option_body env opts) ks s =
     with_headers (mp_add_request_headers (fold (option_body env opts) ks s))
       (mp_allow_upgrade (fold (option_body env opts) ks s)) s"
proof (induction ks rule: rev_induct)
  case (snoc k ks)
  let ?F = "fold (option_body env opts) ks s"
  have "option_body env opts k ?F =
      with_headers (mp_add_request_headers (option_body env opts k ?F))
          (mp_allow_upgrade (option_body env opts k ?F)) ?F"
    by (simp add: option_body_def with_headers_def split: option.split)
  with snoc.IH show ?case by (metis (no_types, lifting) fold_append fold_simps comp_apply with_headers_twice)
qed (simp add: with_headers_def)

lemma option_body_upgrades:
  assumes "string_sets_ok env" and "\<forall>k \<in> set ks. k |\<in>| fmdom (go_add_request_headers opts)"
  shows "mp_allow_upgrade (fold (option_body env opts) ks s) =
    (if ks = [] then mp_allow_upgrade s
     else env_string_set_list env (fset_of_list (mp_allow_upgrade s) |\<union>| fset_of_list (go_allow_upgrade opts)))"
  using assms(2)
proof (induction ks rule: rev_induct)
  case (snoc k ks)
  then obtain v where "fmlookup (go_add_request_headers opts) k = Some v" by (auto simp: fmlookup_dom_iff)
  then have "mp_allow_upgrade (fold (option_body env opts) (ks @ [k]) s) = env_string_set_list env
      (fset_of_list (mp_allow_upgrade (fold (option_body env opts) ks s)) |\<union>| fset_of_list
          (go_allow_upgrade opts))"
    by (simp add: option_body_def)
  with snoc show ?case using assms(1) by (simp add: string_sets_ok_def funion_assoc)
qed simp

lemma apply_options_spec:
  assumes "range_order ord" and "string_sets_ok env"
  shows "apply_options_to_mapping env ord fork s =
    with_headers (mp_add_request_headers s ++\<^sub>f fmmap Some (requested_headers fork))
      (if requested_headers fork = fmempty then mp_allow_upgrade s
       else env_string_set_list env (fset_of_list (mp_allow_upgrade s) |\<union>| fset_of_list
           (requested_upgrades fork))) s"
proof (cases "spec_gateway_options (fork_spec fork)")
  case None
  then show ?thesis
    by (simp add: apply_options_to_mapping_def requested_headers_def with_headers_def)
next
  case (Some opts)
  let ?m = "go_add_request_headers opts"
  let ?ks = "ord (fmdom ?m)" and ?body = "option_body env opts"
  have order: "set ?ks = fset (fmdom ?m)" using assms(1) by simp
  have empty: "?ks = [] \<longleftrightarrow> ?m = fmempty"
    using order by (metis bot_fset.rep_eq fmdom_empty fmrestrict_fset_dom fmrestrict_fset_null
        fset_inject set_empty)
  have hs: "mp_add_request_headers (fold ?body ?ks s) = mp_add_request_headers s ++\<^sub>f fmmap Some ?m"
    unfolding option_body_headers range_fold_def [of ord "\<lambda>k v. fmupd k (Some v)" ?m, symmetric]
    by (rule fmap_ext)
      (simp add: fmlookup_range_copy [where g = "\<lambda>_. Some", OF assms(1)] fmlookup_dom_iff split: option.split)
  have "apply_options_to_mapping env ord fork s = fold ?body ?ks s"
    by (simp add: apply_options_to_mapping_def Some range_fold_def option_body_def [abs_def])
  then show ?thesis
    using option_body_rest [of env opts ?ks s] option_body_upgrades [OF assms(2), of ?ks opts s] order
    by (simp add: hs empty requested_headers_def requested_upgrades_def Some)
qed

lemma apply_options_order:
  "range_order ord \<Longrightarrow> range_order ord' \<Longrightarrow> string_sets_ok env \<Longrightarrow>
   apply_options_to_mapping env ord fork s = apply_options_to_mapping env ord' fork s"
  by (simp add: apply_options_spec)

text \<open>Without a header to add, the protocols to upgrade are not looked at.\<close>

lemma upgrades_need_headers:
  assumes "range_order ord" and "requested_headers fork = fmempty"
  shows "apply_options_to_mapping env ord fork s = s"
proof (cases "spec_gateway_options (fork_spec fork)")
  case (Some opts)
  have "set (ord {||}) = {}" using assms(1) by simp
  with Some assms(2) show ?thesis
    by (simp add: apply_options_to_mapping_def requested_headers_def range_fold_def)
qed (simp add: apply_options_to_mapping_def)

section \<open>The desired spec\<close>

text \<open>Options touch headers and upgrades only.\<close>

lemma apply_options_frame:
  "with_headers hs us (apply_options_to_mapping env ord fork s) = with_headers hs us s"
proof (cases "spec_gateway_options (fork_spec fork)")
  case (Some opts)
  have "with_headers hs us (fold (\<lambda>k s. case fmlookup m k of None \<Rightarrow> s | Some v \<Rightarrow>
      s\<lparr>mp_add_request_headers := fmupd k (Some v) (mp_add_request_headers s),
        mp_allow_upgrade := F (mp_allow_upgrade s)\<rparr>) ks s) = with_headers hs us s" for m ks F
    by (induction ks arbitrary: s) (auto simp: with_headers_def split: option.split)
  then show ?thesis by (simp add: apply_options_to_mapping_def Some range_fold_def)
qed (simp add: apply_options_to_mapping_def)

lemma desired_spec_frame:
  "with_headers hs us (desired_mapping_spec env ord fm upstream identifier forks) =
   with_headers hs us (mapping_base_spec fm upstream identifier)"
proof -
  have "with_headers hs us (fold (apply_options_to_mapping env ord) forks s) = with_headers hs us s" for s
    by (induction forks arbitrary: s) (simp_all add: apply_options_frame)
  then show ?thesis by (simp add: desired_mapping_spec_def)
qed

lemma desired_spec_fields:
  "mp_host (desired_mapping_spec env ord fm upstream identifier forks) = identifier @ ''.'' @ us_host upstream"
  "mp_service (desired_mapping_spec env ord fm upstream identifier forks) =
     (if us_original upstream = '''' then ''https://'' @ us_host upstream else us_original upstream)"
  "mp_host_rewrite (desired_mapping_spec env ord fm upstream identifier forks) =
     (if us_original upstream = '''' then '''' else if us_host_rewrite upstream \<noteq> '''' then
         us_host_rewrite upstream
      else trim_port (us_original upstream))"
  "mp_ambassador_id (desired_mapping_spec env ord fm upstream identifier forks) =
      [fm_ambassador_id (fm_spec fm)]"
proof -
  let ?d = "desired_mapping_spec env ord fm upstream identifier forks"
    and ?b = "mapping_base_spec fm upstream identifier"
  have frame: "with_headers fmempty [] ?d = with_headers fmempty [] ?b" by (rule desired_spec_frame)
  have "mp_host ?d = mp_host ?b" "mp_service ?d = mp_service ?b" "mp_host_rewrite ?d = mp_host_rewrite ?b"
    "mp_ambassador_id ?d = mp_ambassador_id ?b"
    using arg_cong [OF frame, of mp_host] arg_cong [OF frame, of mp_service]
      arg_cong [OF frame, of mp_host_rewrite] arg_cong [OF frame, of mp_ambassador_id]
    by (simp_all add: with_headers_def)
  then show "mp_host ?d = identifier @ ''.'' @ us_host upstream"
    "mp_service ?d = (if us_original upstream = '''' then ''https://'' @
        us_host upstream else us_original upstream)"
    "mp_host_rewrite ?d = (if us_original upstream = '''' then ''''
      else if us_host_rewrite upstream \<noteq> '''' then us_host_rewrite upstream else trim_port
          (us_original upstream))"
    "mp_ambassador_id ?d = [fm_ambassador_id (fm_spec fm)]"
    by (auto simp: mapping_base_spec_def Let_def)
qed

text \<open>The last fork that asks for a header decides its value; the fork's own header comes first.\<close>

definition last_requested :: "fork list \<Rightarrow> string \<Rightarrow> string option" where
  "last_requested forks h =
     foldl (\<lambda>v f. case fmlookup (requested_headers f) h of None \<Rightarrow> v | Some x \<Rightarrow> Some x) None forks"

lemma desired_spec_headers:
  assumes "range_order ord" and "string_sets_ok env"
  shows "fmlookup (mp_add_request_headers (desired_mapping_spec env ord fm upstream identifier forks)) h =
    (case last_requested forks h of
       Some v \<Rightarrow> Some (Some v)
     | None \<Rightarrow> fmlookup (mp_add_request_headers (mapping_base_spec fm upstream identifier)) h)"
proof (induction forks rule: rev_induct)
  case (snoc f fs)
  then show ?case
    by (auto simp: desired_mapping_spec_def last_requested_def apply_options_spec [OF assms] with_headers_def
        fmlookup_dom_iff split: option.split)
qed (simp add: desired_mapping_spec_def last_requested_def)

lemma desired_spec_upgrades:
  assumes "range_order ord" and "string_sets_ok env"
  shows "fset_of_list (mp_allow_upgrade (desired_mapping_spec env ord fm upstream identifier forks)) =
    {|''websocket''|} |\<union>|
      fset_of_list (concat (map requested_upgrades (filter (\<lambda>f. requested_headers f \<noteq> fmempty) forks)))"
proof (induction forks rule: rev_induct)
  case (snoc f fs)
  have "fset_of_list (env_string_set_list env S) = S" for S using assms(2) by (simp add: string_sets_ok_def)
  with snoc show ?case
    by (auto simp: desired_mapping_spec_def apply_options_spec [OF assms] with_headers_def)
qed (simp add: desired_mapping_spec_def mapping_base_spec_def Let_def)

section \<open>Names\<close>

lemma mapping_key_dots: "mapping_key u i = map (\<lambda>c. if c = CHR ''.'' then CHR ''-'' else c) (us_host u @
    ''-'' @ i)"
  by (simp add: mapping_key_def replace_all_char)

lemma dash_inj: "CHR ''.'' \<notin> set i \<Longrightarrow> map (\<lambda>c. if c = CHR ''.'' then CHR ''-'' else c) i = i"
  by (induction i) auto

lemma mapping_key_identifier_inject:
  "CHR ''.'' \<notin> set i \<Longrightarrow> CHR ''.'' \<notin> set j \<Longrightarrow> mapping_key u i = mapping_key u j \<longleftrightarrow> i = j"
  by (simp add: mapping_key_dots dash_inj)

end
