(* ===== verification/MappingCluster.thy ===== *)
theory MappingCluster
  imports MappingFacts
begin

text \<open>
  What an update of a fork manager does to the Mappings of the cluster. The locale states
  the laws of the client the mapping updater uses, over a view \<open>maps\<close> of the stored Mappings,
  under the same conditions as ClusterLaws: nobody else writes and reads are current.
\<close>

definition has_manager_label :: "string \<Rightarrow> mapping \<Rightarrow> bool" where
  "has_manager_label name m \<longleftrightarrow> fmlookup (meta_labels (mp_meta m)) manager_label_key = Some name"

definition mapping_slug :: "fork_manager \<Rightarrow> string \<Rightarrow> upstream \<Rightarrow> namespaced_name" where
  "mapping_slug fm identifier upstream = NN (meta_namespace (fm_meta fm)) (mapping_key upstream identifier)"

definition forks_of :: "fork list \<Rightarrow> string \<Rightarrow> fork list" where
  "forks_of forks identifier = filter (\<lambda>f. spec_identifier (fork_spec f) = identifier) forks"

definition identifiers :: "fork list \<Rightarrow> string set" where
  "identifiers forks = (\<lambda>f. spec_identifier (fork_spec f)) ` set forks"

text \<open>The Mapping stored for an identifier and an upstream.\<close>

definition mapping_written ::
  "('w, 'u) env \<Rightarrow> (go_type \<Rightarrow> gvk) \<Rightarrow> string order \<Rightarrow> namespaced_name \<Rightarrow> fork_manager \<Rightarrow> fork list \<Rightarrow>
   string \<Rightarrow> upstream \<Rightarrow> namespaced_name \<Rightarrow> mapping option \<Rightarrow> bool" where
  "mapping_written env scheme ord slug fm forks identifier upstream k v \<longleftrightarrow>
     k = mapping_slug fm identifier upstream \<and>
     (\<exists>m. v = Some m \<and>
       mp_spec m = desired_mapping_spec env ord fm upstream identifier (forks_of forks identifier) \<and>
       meta_labels (mp_meta m) = fmupd manager_label_key (nn_name slug) fmempty \<and>
       controller_ref env scheme (fork_manager_owner fm) \<in> set (meta_owner_refs (mp_meta m)))"

definition desired_mapping ::
  "('w, 'u) env \<Rightarrow> (go_type \<Rightarrow> gvk) \<Rightarrow> string order \<Rightarrow> namespaced_name \<Rightarrow> fork_manager \<Rightarrow> fork list \<Rightarrow>
   namespaced_name \<Rightarrow> mapping option \<Rightarrow> bool" where
  "desired_mapping env scheme ord slug fm forks k v \<longleftrightarrow>
     (\<exists>i \<in> identifiers forks. \<exists>u \<in> set (fm_upstreams (fm_spec fm)).
        mapping_written env scheme ord slug fm forks i u k v)"

definition desired_slugs :: "fork_manager \<Rightarrow> fork list \<Rightarrow> namespaced_name set" where
  "desired_slugs fm forks =
     {mapping_slug fm i u |i u. i \<in> identifiers forks \<and> u \<in> set (fm_upstreams (fm_spec fm))}"

locale mapping_cluster = owner_references env scheme
  for env :: "('w, 'u) env"
    and scheme :: "go_type \<Rightarrow> gvk" +
  fixes maps :: "'w \<Rightarrow> namespaced_name \<Rightarrow> mapping option"
  assumes maps_key: "maps w k = Some m \<Longrightarrow> meta_key (mp_meta m) = k"
    and manager_keeps: "api_get (env_fork_managers env) k w = (mres, w') \<Longrightarrow> maps w' = maps w"
    and manager_slug: "api_get (env_fork_managers env) k w = (Ok fm, w') \<Longrightarrow> meta_key (fm_meta fm) = k"
    and forks_keep: "api_list (env_forks env) opts w = (fres, w') \<Longrightarrow> maps w' = maps w"
    and mappings_keep: "api_list (env_mappings env) opts w = (lres, w') \<Longrightarrow> maps w' = maps w"
    and mappings_listed:
      "api_list (env_mappings env) \<lparr>lo_selector = Some sel, lo_namespace = ''''\<rparr> w = (Ok ms, w') \<Longrightarrow>
       set ms = {m. \<exists>k. maps w k = Some m \<and> sel (meta_labels (mp_meta m))}"
    and equals_requirement:
      "env_new_requirement env key ''='' [val] = Ok req \<Longrightarrow>
       env_selector_add env (env_labels_everything env) req ls \<longleftrightarrow> fmlookup ls key = Some val"
    and mapping_written_back:
      "api_create_or_update (env_mappings env) m f w = (res, w') \<Longrightarrow>
       (\<exists>y s. f (case maps w (meta_key (mp_meta m)) of Some e \<Rightarrow> e | None \<Rightarrow> m) = Ok y \<and>
          mp_spec s = mp_spec y \<and>
          mp_meta s = (mp_meta y)\<lparr>meta_resource_version := meta_resource_version (mp_meta s)\<rparr> \<and>
          maps w' = (maps w)(meta_key (mp_meta m) \<mapsto> s)) \<or>
       (\<not> is_ok res \<and> maps w' = maps w)"
    and mapping_deleted:
      "api_delete (env_mappings env) m w = (res, w') \<Longrightarrow>
       maps w' = (maps w)(meta_key (mp_meta m) := None) \<or> (\<not> is_ok res \<and> maps w' = maps w)"
begin

text \<open>One upstream of one identifier.\<close>

lemma update_upstream_effect:
  assumes "update_upstream env ord slug fm i (forks_of forks i) u c w = (res, w')"
  shows "(mapping_written env scheme ord slug fm forks i u (mapping_slug fm i u)
      (maps w' (mapping_slug fm i u)) \<and>
      (\<forall>k. k \<noteq> mapping_slug fm i u \<longrightarrow> maps w' k = maps w k)) \<or>
    (\<not> is_ok res \<and> maps w' = maps w)"
proof -
  let ?k = "mapping_slug fm i u"
  have key: "meta_key (mp_meta (named_mapping ?k)) = ?k"
    by (simp add: named_mapping_def meta_key_def mapping_slug_def)
  obtain res1 where run: "api_create_or_update (env_mappings env) (named_mapping ?k)
      (mapping_mutate env ord slug fm u i (forks_of forks i)) w = (res1, w')"
    and ok: "is_ok res1 \<longleftrightarrow> is_ok res"
    using assms by (auto simp: update_upstream_def Let_def mapping_slug_def bind_eff_def is_ok_def
        split: prod.splits result.splits)
  from mapping_written_back [OF run] key consider
    (stored) y s e where "mapping_mutate env ord slug fm u i (forks_of forks i) e = Ok y"
        "mp_spec s = mp_spec y"
      "mp_meta s = (mp_meta y)\<lparr>meta_resource_version := meta_resource_version (mp_meta s)\<rparr>"
      "maps w' = (maps w)(?k \<mapsto> s)"
    | (failed) "\<not> is_ok res1" "maps w' = maps w" by metis
  then show ?thesis
  proof cases
    case (stored y s e)
    from stored(1) obtain m where
      m: "env_set_controller_reference env (fork_manager_owner fm)
        ((mp_meta e)\<lparr>meta_labels := fmupd manager_label_key (nn_name slug) fmempty\<rparr>) = Ok m"
      and y: "y = \<lparr>mp_meta = m, mp_spec = desired_mapping_spec env ord fm u i (forks_of forks i)\<rparr>"
      by (auto simp: mapping_mutate_def Let_def result_simps)
    from controller_reference_set [OF m] have
      refs: "controller_ref env scheme (fork_manager_owner fm) \<in> set (meta_owner_refs m)"
      and eq: "m = (mp_meta e)\<lparr>meta_labels := fmupd manager_label_key (nn_name slug) fmempty,
        meta_owner_refs := meta_owner_refs m\<rparr>" by auto
    have "meta_labels m = fmupd manager_label_key (nn_name slug) fmempty"
      using arg_cong [OF eq, of meta_labels] by simp
    then have "meta_labels (mp_meta s) = fmupd manager_label_key (nn_name slug) fmempty"
      "meta_owner_refs (mp_meta s) = meta_owner_refs m"
      using arg_cong [OF stored(3), of meta_labels] arg_cong [OF stored(3), of meta_owner_refs]
        by (simp_all add: y)
    with stored refs show ?thesis by (simp add: mapping_written_def y)
  qed (use ok in simp)
qed

lemma update_upstream_candidates:
  "update_upstream env ord slug fm i fs u c w = (Ok c', w') \<Longrightarrow> c' = c |-| {|mapping_slug fm i u|}"
  by (auto simp: update_upstream_def Let_def mapping_slug_def eff_simps)

text \<open>All upstreams of one identifier.\<close>

abbreviation upstream_writes where
  "upstream_writes ord slug fm forks i \<equiv>
     writes_at (fm_upstreams (fm_spec fm)) (\<lambda>u. {mapping_slug fm i u}) (mapping_written env scheme ord
         slug fm forks i)"

lemma update_identifier_frame:
  assumes "update_identifier env ord slug fm (group_forks_by_identifier forks) i c w = (res, w')"
  shows "maps w' k = maps w k \<or> upstream_writes ord slug fm forks i k (maps w' k)"
proof (rule fold_eff_frame [OF assms [unfolded update_identifier_def group_forks_list forks_of_def
    [symmetric]]])
  show "\<forall>u \<in> set (fm_upstreams (fm_spec fm)). \<forall>s w r w' k.
    update_upstream env ord slug fm i (forks_of forks i) u s w = (r, w') \<longrightarrow>
    maps w' k = maps w k \<or> k \<in> {mapping_slug fm i u} \<and>
        mapping_written env scheme ord slug fm forks i u k (maps w' k)"
    using update_upstream_effect by (metis singleton_iff)
qed

lemma update_identifier_done:
  assumes "update_identifier env ord slug fm (group_forks_by_identifier forks) i c w = (Ok c', w')"
  shows "c' = fold (\<lambda>u c. c |-| {|mapping_slug fm i u|}) (fm_upstreams (fm_spec fm)) c \<and>
    (\<forall>u \<in> set (fm_upstreams (fm_spec fm)). \<forall>k \<in> {mapping_slug fm i u}.
       upstream_writes ord slug fm forks i k (maps w' k))"
proof (rule fold_eff_done [OF assms [unfolded update_identifier_def group_forks_list forks_of_def [symmetric]]])
  show "\<forall>u \<in> set (fm_upstreams (fm_spec fm)). \<forall>s w r w' k.
    update_upstream env ord slug fm i (forks_of forks i) u s w = (r, w') \<longrightarrow>
    maps w' k = maps w k \<or> k \<in> {mapping_slug fm i u} \<and>
        mapping_written env scheme ord slug fm forks i u k (maps w' k)"
    using update_upstream_effect by (metis singleton_iff)
  show "\<forall>u \<in> set (fm_upstreams (fm_spec fm)). \<forall>s w s' w'.
    update_upstream env ord slug fm i (forks_of forks i) u s w = (Ok s', w') \<longrightarrow>
    s' = s |-| {|mapping_slug fm i u|} \<and>
    (\<forall>k \<in> {mapping_slug fm i u}. mapping_written env scheme ord slug fm forks i u k (maps w' k))"
    using update_upstream_effect update_upstream_candidates by (metis is_ok_simps(1) singleton_iff)
qed

end

context mapping_cluster
begin

text \<open>All identifiers.\<close>

lemma upstream_writes_desired:
  "i \<in> identifiers forks \<Longrightarrow> upstream_writes ord slug fm forks i k v \<Longrightarrow>
   desired_mapping env scheme ord slug fm forks k v"
  by (auto simp: writes_at_def desired_mapping_def)

lemma identifiers_frame:
  assumes "fold_eff (update_identifier env ord slug fm (group_forks_by_identifier forks)) ids c w = (res, w')"
    and "set ids = identifiers forks"
  shows "maps w' k = maps w k \<or> desired_mapping env scheme ord slug fm forks k (maps w' k)"
proof -
  have "maps w' k = maps w k \<or>
    writes_at ids (\<lambda>_. UNIV) (\<lambda>i. upstream_writes ord slug fm forks i) k (maps w' k)"
    by (rule fold_eff_frame [OF assms(1)]) (use update_identifier_frame in blast)
  then show ?thesis
    using upstream_writes_desired [of _ forks] assms(2) unfolding writes_at_def [of ids] by auto
qed

lemma fold_remove:
  "fset (fold (\<lambda>u c. c |-| {|g u|}) us c) = fset c - g ` set us"
  by (induction us arbitrary: c) auto

lemma identifiers_done:
  assumes "fold_eff (update_identifier env ord slug fm (group_forks_by_identifier forks)) ids c w = (Ok c', w')"
    and "set ids = identifiers forks"
  shows "fset c' = fset c - desired_slugs fm forks"
    and "k \<in> desired_slugs fm forks \<Longrightarrow> desired_mapping env scheme ord slug fm forks k (maps w' k)"
proof -
  let ?K = "\<lambda>i. mapping_slug fm i ` set (fm_upstreams (fm_spec fm))"
  let ?D = "\<lambda>i. fold (\<lambda>u c. c |-| {|mapping_slug fm i u|}) (fm_upstreams (fm_spec fm))"
  have frame: "maps w' k = maps w k \<or> k \<in> ?K i \<and> upstream_writes ord slug fm forks i k (maps w' k)"
    if "update_identifier env ord slug fm (group_forks_by_identifier forks) i c w = (r, w')" for i c w r w' k
    using update_identifier_frame [OF that, of k] by (auto simp: writes_at_def)
  have fin: "c' = fold ?D ids c \<and>
    (\<forall>i \<in> set ids. \<forall>k \<in> ?K i. writes_at ids ?K (\<lambda>i. upstream_writes ord slug fm forks i) k (maps w' k))"
  proof (rule fold_eff_done [OF assms(1)])
    show "\<forall>i \<in> set ids. \<forall>s w s' w'.
      update_identifier env ord slug fm (group_forks_by_identifier forks) i s w = (Ok s', w') \<longrightarrow>
      s' = ?D i s \<and> (\<forall>k \<in> ?K i. upstream_writes ord slug fm forks i k (maps w' k))"
      using update_identifier_done by blast
  qed (use frame in blast)
  have "fset (fold ?D js c) = fset c - (\<Union>i \<in> set js. ?K i)" for js
    by (induction js arbitrary: c) (auto simp: fold_remove)
  moreover have "desired_slugs fm forks = (\<Union>i \<in> set ids. ?K i)"
    by (auto simp: desired_slugs_def assms(2))
  ultimately show "fset c' = fset c - desired_slugs fm forks" using fin by simp
  show "desired_mapping env scheme ord slug fm forks k (maps w' k)" if k: "k \<in> desired_slugs fm forks"
  proof -
    from k assms(2) obtain i where "i \<in> set ids" "k \<in> ?K i" by (auto simp: desired_slugs_def)
    with fin have "writes_at ids ?K (\<lambda>i. upstream_writes ord slug fm forks i) k (maps w' k)" by blast
    then show ?thesis
      using upstream_writes_desired [of _ forks] assms(2) unfolding writes_at_def [of ids] by auto
  qed
qed

text \<open>Deleting what is left of the candidates.\<close>

lemma delete_loop:
  assumes "for_each ks (\<lambda>k. api_delete (env_mappings env) (named_mapping k)) w = (res, w')"
  shows "maps w' k = maps w k \<or> k \<in> set ks \<and> maps w' k = None"
    and "is_ok res \<Longrightarrow> k \<in> set ks \<Longrightarrow> maps w' k = None"
proof -
  have key: "meta_key (mp_meta (named_mapping j)) = j" for j
    by (simp add: named_mapping_def meta_key_def)
  have step: "maps v' k = maps v k \<or> k = j \<and> maps v' k = None"
    if "api_delete (env_mappings env) (named_mapping j) v = (r, v')" for j v r v' k
    using mapping_deleted [OF that] by (auto simp: key split: if_splits)
  have frame: "maps w' k = maps w k \<or> k \<in> set ks \<and> maps w' k = None"
    if "for_each ks (\<lambda>k. api_delete (env_mappings env) (named_mapping k)) w = (res, w')" for ks w k
    using that
  proof (rule for_each_invariant [where P = "\<lambda>v. maps v k = maps w k \<or> k \<in> set ks \<and> maps v k = None"])
    fix j v r v'
    assume "j \<in> set ks" "maps v k = maps w k \<or> k \<in> set ks \<and> maps v k = None"
      "api_delete (env_mappings env) (named_mapping j) v = (r, v')"
    with step [of j v r v' k] show "maps v' k = maps w k \<or> k \<in> set ks \<and> maps v' k = None" by auto
  qed simp
  from frame [OF assms] show "maps w' k = maps w k \<or> k \<in> set ks \<and> maps w' k = None" .
  show "maps w' k = None" if "is_ok res" "k \<in> set ks"
    using assms that
  proof (induction ks arbitrary: w)
    case (Cons j js)
    then obtain w1 where one: "api_delete (env_mappings env) (named_mapping j) w = (Ok (), w1)"
      and rest: "for_each js (\<lambda>k. api_delete (env_mappings env) (named_mapping k)) w1 = (res, w')"
      by (auto simp: bind_eff_def is_ok_def split: prod.splits result.splits)
    show ?case
    proof (cases "k \<in> set js")
      case False
      with Cons.prems have "maps w1 k = None" using mapping_deleted [OF one] by (simp add: key)
      with frame [OF rest, of k] show ?thesis by auto
    qed (use Cons.IH [OF rest] Cons.prems in simp)
  qed simp
qed

end

section \<open>The whole update\<close>

text \<open>What the update of \<open>slug\<close> had read: the manager, the forks and the world after its reads.\<close>

definition manager_inputs ::
  "('w, 'u) env \<Rightarrow> namespaced_name \<Rightarrow> 'w \<Rightarrow> fork_manager \<Rightarrow> fork list \<Rightarrow> bool" where
  "manager_inputs env slug w fm forks \<longleftrightarrow>
     (\<exists>w1. api_get (env_fork_managers env) slug w = (Ok fm, w1) \<and>
       (\<exists>w2. api_list (env_forks env) no_options w1 = (Ok forks, w2)))"

context mapping_cluster
begin

text \<open>The second half of the update, once the manager and the forks have been read.\<close>

lemma mapping_loop_unfold:
  assumes "bind_eff (lift_result (env_new_requirement env manager_label_key ''='' [n])) (\<lambda>req.
      bind_eff (api_list (env_mappings env)
        \<lparr>lo_selector = Some (env_selector_add env (env_labels_everything env) req), lo_namespace = ''''\<rparr>) (\<lambda>mps.
      bind_eff (fold_eff step ids (fset_of_list (map (\<lambda>mp. meta_key (mp_meta mp)) mps))) rest)) w = (res, w')"
  obtains (early) "\<not> is_ok res" "maps w' = maps w"
    | (run) c r w1 w2 where "maps w1 = maps w" "fset c = {k. \<exists>m. maps w k = Some m \<and> has_manager_label n m}"
        "fold_eff step ids c w1 = (r, w2)"
        "(\<not> is_ok r \<and> \<not> is_ok res \<and> w' = w2) \<or> (\<exists>c'. r = Ok c' \<and> rest c' w2 = (res, w'))"
  using assms
proof (cases rule: bind_eff_cases)
  case (first r1)
  then show ?thesis using early by (auto simp: is_ok_def split: result.splits)
next
  case (second req w1)
  then have req: "env_new_requirement env manager_label_key ''='' [n] = Ok req" "w1 = w" by auto
  from second(2) [unfolded req(2)] show ?thesis
  proof (cases rule: bind_eff_cases)
    case (first r1)
    then show ?thesis using early mappings_keep by (auto simp: is_ok_def split: result.splits)
  next
    case (second mps w2)
    let ?c = "fset_of_list (map (\<lambda>mp. meta_key (mp_meta mp)) mps)"
    note w2 = mappings_keep [OF second(1)]
    have "set mps = {m. \<exists>k. maps w k = Some m \<and> has_manager_label n m}"
      using mappings_listed [OF second(1)] equals_requirement [OF req(1)] by (simp add: has_manager_label_def)
    then have c: "fset ?c = {k. \<exists>m. maps w k = Some m \<and> has_manager_label n m}"
      using maps_key by (auto simp: fset_of_list.rep_eq image_iff) metis
    from second(2) show ?thesis
    proof (cases rule: bind_eff_cases)
      case (first r1)
      then have "\<not> is_ok r1" "\<not> is_ok res" by (auto simp: is_ok_def split: result.splits)
      with run [OF w2 c first(1)] show ?thesis by simp
    next
      case (second c' w5)
      with run [OF w2 c second(1)] show ?thesis by simp
    qed
  qed
qed

lemma mapping_update_unfold:
  assumes "mapping_update env ord nn_ord slug w = (res, w')"
  obtains (early) "\<not> is_ok res" "maps w' = maps w"
    | (run) fm forks c r w1 w2 where "manager_inputs env slug w fm forks" "maps w1 = maps w"
        "fset c = {k. \<exists>m. maps w k = Some m \<and> has_manager_label (nn_name slug) m}"
        "fold_eff (update_identifier env ord slug fm (group_forks_by_identifier forks))
           (ord (fmdom (group_forks_by_identifier forks))) c w1 = (r, w2)"
        "(\<not> is_ok r \<and> \<not> is_ok res \<and> w' = w2) \<or>
         (\<exists>c'. r = Ok c' \<and> for_each (nn_ord c') (\<lambda>k. api_delete (env_mappings env) (named_mapping k)) w2
             = (res, w'))"
  using assms unfolding mapping_update_def
proof (cases rule: bind_eff_cases)
  case (first r1)
  then show ?thesis using early manager_keeps by (auto simp: is_ok_def split: result.splits)
next
  case (second fm w1)
  note fm = second(1)
  from second(2) show ?thesis
  proof (cases rule: bind_eff_cases)
    case (first r1)
    then show ?thesis using early manager_keeps [OF fm] forks_keep
      by (auto simp: is_ok_def split: result.splits)
  next
    case (second forks w2)
    have inputs: "manager_inputs env slug w fm forks" using fm second(1) by (auto simp: manager_inputs_def)
    have same: "maps w2 = maps w" using manager_keeps [OF fm] forks_keep [OF second(1)] by simp
    from second(2) [unfolded Let_def] show ?thesis
    proof (cases rule: mapping_loop_unfold)
      case early
      with that(1) same show ?thesis by simp
    next
      case (run c r w3 w4)
      show ?thesis by (rule that(2) [OF inputs _ _ run(3,4)]) (simp_all add: run(1,2) same)
    qed
  qed
qed

end

context mapping_cluster
begin

lemma desired_mapping_slug: "desired_mapping env scheme ord slug fm forks k v \<Longrightarrow> k \<in> desired_slugs fm forks"
  by (auto simp: desired_mapping_def mapping_written_def desired_slugs_def)

lemma ids_of_order:
  "range_order ord \<Longrightarrow> set (ord (fmdom (group_forks_by_identifier forks))) = identifiers forks"
  by (simp add: group_forks_dom identifiers_def)

text \<open>
  Whatever its outcome, an update of a manager writes its own desired Mappings and deletes
  only Mappings that carry the manager's name and are not desired.
\<close>

lemma mapping_update_frame:
  assumes "mapping_update env ord nn_ord slug w = (res, w')" and "range_order ord" "range_order nn_ord"
    and "maps w' k \<noteq> maps w k"
  shows "\<exists>fm forks. manager_inputs env slug w fm forks \<and>
    (desired_mapping env scheme ord slug fm forks k (maps w' k) \<or>
     maps w' k = None \<and> k \<notin> desired_slugs fm forks \<and>
       (\<exists>m. maps w k = Some m \<and> has_manager_label (nn_name slug) m))"
  using assms(1)
proof (cases rule: mapping_update_unfold)
  case (run fm forks c r w1 w2)
  note ids = ids_of_order [OF assms(2), of forks]
  have frame: "maps w2 k = maps w k \<or> desired_mapping env scheme ord slug fm forks k (maps w2 k)"
    using identifiers_frame [OF run(4) ids, of k] run(2) by simp
  from run(5) show ?thesis
  proof (elim disjE conjE exE)
    assume "w' = w2"
    then show ?thesis using frame run(1) assms(4) by auto
  next
    fix c'
    assume c': "r = Ok c'" "for_each (nn_ord c') (\<lambda>k. api_delete (env_mappings env) (named_mapping k))
        w2 = (res, w')"
    have out: "fset c' = fset c - desired_slugs fm forks"
      using identifiers_done(1) [OF run(4) [unfolded c'(1)] ids] .
    from delete_loop(1) [OF c'(2), of k] show ?thesis
    proof (elim disjE conjE)
      assume "maps w' k = maps w2 k"
      then show ?thesis using frame run(1) assms(4) by auto
    next
      assume gone: "k \<in> set (nn_ord c')" "maps w' k = None"
      then have "k \<in> fset c'" using assms(3) by simp
      then have "k \<notin> desired_slugs fm forks" "\<exists>m. maps w k = Some m \<and> has_manager_label (nn_name slug) m"
        using out run(3) by auto
      with gone run(1) show ?thesis by auto
    qed
  qed
qed (use assms(4) in simp)

text \<open>
  When it succeeds, every desired Mapping is there, and all Mappings that carry the
  manager's name, in whatever namespace, are desired ones.
\<close>

lemma mapping_update_done:
  assumes "mapping_update env ord nn_ord slug w = (Ok u, w')" and "range_order ord" "range_order nn_ord"
  shows "\<exists>fm forks. manager_inputs env slug w fm forks \<and>
    (\<forall>k \<in> desired_slugs fm forks. desired_mapping env scheme ord slug fm forks k (maps w' k)) \<and>
    (\<forall>k m. maps w' k = Some m \<longrightarrow> has_manager_label (nn_name slug) m \<longrightarrow> k \<in> desired_slugs fm forks)"
  using assms(1)
proof (cases rule: mapping_update_unfold)
  case (run fm forks c r w1 w2)
  note ids = ids_of_order [OF assms(2), of forks]
  from run(5) obtain c' where r: "r = Ok c'"
    and del: "for_each (nn_ord c') (\<lambda>k. api_delete (env_mappings env) (named_mapping k)) w2 =
        (Ok u, w')" by auto
  note fin = identifiers_done [OF run(4) [unfolded r] ids]
  have written: "desired_mapping env scheme ord slug fm forks k (maps w' k)"
      if "k \<in> desired_slugs fm forks" for k
    using fin that delete_loop(1) [OF del, of k] assms(3) by auto
  have "k \<in> desired_slugs fm forks" if m: "maps w' k = Some m" "has_manager_label (nn_name slug) m" for k m
  proof (rule ccontr)
    assume other: "k \<notin> desired_slugs fm forks"
    have "maps w2 k = Some m" using delete_loop(1) [OF del, of k] m by auto
    then have "maps w k = Some m"
      using identifiers_frame [OF run(4) ids, of k] run(2) desired_mapping_slug other by auto
    with m have "k \<in> fset c'" using fin(1) run(3) other by auto
    then have "maps w' k = None" using delete_loop(2) [OF del, of k] assms(3) by simp
    with m show False by simp
  qed
  with written run(1) show ?thesis by blast
qed simp

text \<open>
  So it deletes the Mappings of a manager of the same name in another namespace.
\<close>

lemma mapping_update_namespaces:
  assumes "mapping_update env ord nn_ord slug w = (Ok u, w')" and "range_order ord" "range_order nn_ord"
    and "maps w' k = Some m" and "has_manager_label (nn_name slug) m"
  shows "nn_namespace k = nn_namespace slug"
proof -
  from mapping_update_done [OF assms(1-3)] obtain fm forks where
    "manager_inputs env slug w fm forks" and "k \<in> desired_slugs fm forks" using assms(4,5) by blast
  moreover from this have "meta_key (fm_meta fm) = slug"
    using manager_slug by (auto simp: manager_inputs_def)
  ultimately show ?thesis by (auto simp: desired_slugs_def mapping_slug_def meta_key_def)
qed

text \<open>With names that are pairwise different, every identifier and upstream has its own Mapping.\<close>

lemma mapping_update_exact:
  assumes "mapping_update env ord nn_ord slug w = (Ok u, w')" and "range_order ord" "range_order nn_ord"
    and "manager_inputs env slug w fm forks"
    and "inj_on (\<lambda>(i, u). mapping_key u i) (identifiers forks \<times> set (fm_upstreams (fm_spec fm)))"
    and "i \<in> identifiers forks" "up \<in> set (fm_upstreams (fm_spec fm))"
  shows "mapping_written env scheme ord slug fm forks i up (mapping_slug fm i up)
      (maps w' (mapping_slug fm i up))"
proof -
  from mapping_update_done [OF assms(1-3)] assms(4) have
    "\<forall>k \<in> desired_slugs fm forks. desired_mapping env scheme ord slug fm forks k (maps w' k)"
    by (auto simp: manager_inputs_def)
  then have "desired_mapping env scheme ord slug fm forks (mapping_slug fm i up)
      (maps w' (mapping_slug fm i up))"
    using assms(6,7) by (auto simp: desired_slugs_def)
  then obtain j v where jv: "j \<in> identifiers forks" "v \<in> set (fm_upstreams (fm_spec fm))"
    "mapping_written env scheme ord slug fm forks j v (mapping_slug fm i up) (maps w' (mapping_slug fm i up))"
    by (auto simp: desired_mapping_def)
  then have "mapping_key up i = mapping_key v j" by (simp add: mapping_written_def mapping_slug_def)
  with inj_onD [OF assms(5), of "(i, up)" "(j, v)"] assms(6,7) jv(1,2) have "i = j" "up = v" by auto
  with jv(3) show ?thesis by simp
qed

end

end
