(* ===== verification/VSFacts.thy ===== *)
theory VSFacts
  imports BuilderFacts
begin

text \<open>
  Facts about the VirtualService of a service: a reading of its routes as Istio evaluates
  them, and where they send a request, given the VSConfigs of the namespace.
\<close>

section \<open>How routes are evaluated\<close>

text \<open>
  Istio takes the first route one of whose match blocks holds; a block holds when all its
  header conditions do, and a route without blocks matches everything. The semantics of
  regular expressions is a parameter: the program generates exact matches only.
\<close>

type_synonym headers = "(string, string) fmap"

fun string_matches :: "(string \<Rightarrow> string \<Rightarrow> bool) \<Rightarrow> string_match \<Rightarrow> string \<Rightarrow> bool" where
  "string_matches rx (Exact s) v = (v = s)"
| "string_matches rx (Prefix s) v = (take (length s) v = s)"
| "string_matches rx (Regex s) v = rx s v"

definition block_matches :: "(string \<Rightarrow> string \<Rightarrow> bool) \<Rightarrow> headers \<Rightarrow> (string, string_match) fmap \<Rightarrow> bool" where
  "block_matches rx hs b \<longleftrightarrow>
     fmpred (\<lambda>h m. case fmlookup hs h of None \<Rightarrow> False | Some v \<Rightarrow> string_matches rx m v) b"

definition route_matches :: "(string \<Rightarrow> string \<Rightarrow> bool) \<Rightarrow> headers \<Rightarrow> http_route \<Rightarrow> bool" where
  "route_matches rx hs r \<longleftrightarrow> hr_match r = [] \<or> (\<exists>b \<in> set (hr_match r). block_matches rx hs b)"

definition route_destination :: "(string \<Rightarrow> string \<Rightarrow> bool) \<Rightarrow> http_route list \<Rightarrow> headers \<Rightarrow>
    string list option" where
  "route_destination rx routes hs = map_option hr_route (find (route_matches rx hs) routes)"

section \<open>Where a request goes\<close>

text \<open>A request asks for a VSConfig when it carries its header with its value.\<close>

definition requests :: "headers \<Rightarrow> vsconfig \<Rightarrow> bool" where
  "requests hs c \<longleftrightarrow> fmlookup hs (vsc_header_name (vsc_spec c)) = Some (vsc_header_value (vsc_spec c))"

lemma route_matches_config [simp]: "route_matches rx hs (config_route c) \<longleftrightarrow> requests hs c"
  by (auto simp: route_matches_def config_route_def block_matches_def requests_def split: option.splits)

lemma find_map_filter:
  "find P (map f (filter Q xs)) = map_option f (find (\<lambda>x. Q x \<and> P (f x)) xs)"
  by (induction xs) auto

lemma find_append: "find P (xs @ ys) = (case find P xs of None \<Rightarrow> find P ys | Some x \<Rightarrow> Some x)"
  by (induction xs) auto

lemma route_destination_spec:
  "route_destination rx (build_http_routes a) hs =
   Some (case find (\<lambda>c. config_applies a c \<and> requests hs c) (vl_sorted_configs a) of
     Some c \<Rightarrow> [vsc_service (vsc_spec c)]
   | None \<Rightarrow> [meta_name (svc_meta (vl_service a))])"
proof -
  have "find (\<lambda>c. config_applies a c \<and> route_matches rx hs (config_route c)) (vl_sorted_configs a) =
    find (\<lambda>c. config_applies a c \<and> requests hs c) (vl_sorted_configs a)" by simp
  then show ?thesis
    by (auto simp: route_destination_def build_http_routes_def find_append find_map_filter simp del:
        route_matches_config
        split: option.split) (simp_all add: config_route_def route_matches_def)
qed

text \<open>A VSConfig that is the only one asked for gets the request.\<close>

lemma find_unique:
  "x \<in> set xs \<Longrightarrow> P x \<Longrightarrow> (\<And>y. y \<in> set xs \<Longrightarrow> P y \<Longrightarrow> y = x) \<Longrightarrow> find P xs = Some x"
proof (induction xs)
  case (Cons z zs)
  show ?case
  proof (cases "P z")
    case True
    with Cons.prems(3) [of z] show ?thesis by simp
  next
    case False
    with Cons.prems(1,2) have "x \<in> set zs" by auto
    from Cons.IH [OF this Cons.prems(2) Cons.prems(3) [OF list.set_intros(2)]] False show ?thesis by simp
  qed
qed simp

lemma route_destination_unique:
  assumes "c \<in> set (vl_sorted_configs a)" "config_applies a c" "requests hs c"
    and "\<And>c'. c' \<in> set (vl_sorted_configs a) \<Longrightarrow> config_applies a c' \<Longrightarrow> requests hs c' \<Longrightarrow> c' = c"
  shows "route_destination rx (build_http_routes a) hs = Some [vsc_service (vsc_spec c)]"
proof -
  have "find (\<lambda>c. config_applies a c \<and> requests hs c) (vl_sorted_configs a) = Some c"
    by (rule find_unique) (use assms in blast)+
  then show ?thesis by (simp add: route_destination_spec)
qed

lemma route_destination_default:
  assumes "\<And>c. c \<in> set (vl_sorted_configs a) \<Longrightarrow> config_applies a c \<Longrightarrow> \<not> requests hs c"
  shows "route_destination rx (build_http_routes a) hs = Some [meta_name (svc_meta (vl_service a))]"
proof -
  have "find (\<lambda>c. config_applies a c \<and> requests hs c) (vl_sorted_configs a) = None"
    unfolding find_None_iff using assms by blast
  then show ?thesis by (simp add: route_destination_spec)
qed

text \<open>The lister of forks and the lister of VirtualServices fit together.\<close>

lemma build_vsconfig_applies:
  "config_applies a (build_vsconfig s fork header) \<longleftrightarrow>
   meta_name (svc_meta s) = meta_name (svc_meta (vl_service a)) \<and> spec_identifier (fork_spec fork) \<noteq> ''''"
  by (auto simp: config_applies_def build_vsconfig_def)

lemma build_vsconfig_requests:
  "requests hs (build_vsconfig s fork header) \<longleftrightarrow> fmlookup hs header = Some (spec_identifier (fork_spec fork))"
  by (simp add: requests_def build_vsconfig_def)

section \<open>The object list\<close>

lemma build_virtual_service_items:
  "ol_items (build_virtual_service env a) =
   (if \<exists>c \<in> set (vl_sorted_configs a). config_applies a c
    then [OVirtualService (virtual_service_of a (build_http_routes a))] else [])"
  by (auto simp: build_virtual_service_def Let_def build_http_routes_def filter_empty_conv)

lemma build_vs_lister_Ok:
  assumes "build_vs_lister env slug w = (Ok a, w')"
  shows "\<exists>items w1. api_list (env_vsconfigs env) (in_namespace (nn_namespace slug)) w = (Ok items, w1) \<and>
    mset (vl_sorted_configs a) = mset items \<and> sorted (map vsconfig_name (vl_sorted_configs a)) \<and>
    api_get (env_services env) slug w1 = (Ok (vl_service a), w')"
  using assms by (auto simp: build_vs_lister_def eff_simps Let_def)

end
