(* ===== verification/ControllerFacts.thy ===== *)
theory ControllerFacts
  imports Controllers MappingCluster VSFacts
begin

text \<open>
  The updaters and the reconcile functions against a whole cluster: the objects of the four
  generated resources, the Mappings and the Forks. The locale adds to the laws of ClusterLaws
  and MappingCluster that reads change nothing and that writes to one of the three parts
  leave the others alone.
\<close>

section \<open>The interface of an updater\<close>

text \<open>\<open>updater.Updater\<close>: both operations leave a view of the world alone when their parts do.\<close>

locale updater =
  fixes list_items :: "list_options \<Rightarrow> ('w, 'o list) eff"
    and meta :: "'o \<Rightarrow> object_meta"
    and update :: "namespaced_name \<Rightarrow> ('w, unit) eff"
    and view :: "'w \<Rightarrow> 'v"
  assumes list_keeps: "keeps view (list_items opts)"
    and update_keeps: "keeps view (update k)"
begin

lemma update_all_keeps: "keeps view (update_all list_items meta update opts)"
  unfolding update_all_def by (intro keeps_intros list_keeps update_keeps)

end

text \<open>The items before the first failure are updated, the ones after it are not.\<close>

lemma for_each_first_failure:
  assumes "for_each xs f w = (Ok u, w1)" and "f x w1 = (Err e, w2)"
  shows "for_each (xs @ x # ys) f w = (Err e, w2)"
  using assms
proof (induction xs arbitrary: w)
  case (Cons y ys)
  then obtain v where "f y w = (Ok (), v)" "for_each ys f v = (Ok u, w1)" by (auto simp: eff_simps)
  with Cons show ?case by (auto simp: bind_eff_step)
qed (simp add: bind_eff_fail)

lemma update_all_first_failure:
  assumes "list_items opts w = (Ok (xs @ x # ys), w0)"
    and "for_each xs (\<lambda>item. update (meta_key (meta item))) w0 = (Ok u, w1)"
    and "update (meta_key (meta x)) w1 = (Err e, w2)"
  shows "update_all list_items meta update opts w = (Err e, w2)"
  using for_each_first_failure [of xs "\<lambda>item. update (meta_key (meta item))", OF assms(2,3)]
  by (simp add: update_all_def bind_eff_step [of "list_items opts", OF assms(1)])

section \<open>The cluster\<close>

lemma keeps_pair: "keeps (\<lambda>w. (f w, g w)) m \<longleftrightarrow> keeps f m \<and> keeps g m"
  by (auto simp: keeps_def)

text \<open>The builder only reads.\<close>

lemma build_app_keeps_view:
  assumes "\<And>k. keeps view (api_get (env_fork_managers env) k)"
    and "\<And>opts. keeps view (api_list (env_services env) opts)"
    and "\<And>opts. keeps view (api_list (env_deployments env) opts)"
  shows "keeps view (build_app env ord fork)"
proof -
  have "keeps view (collect_deployments env fork svc m)" for svc m
    unfolding collect_deployments_def list_deployments_routable_from_svc_def
    by (auto intro!: keeps_intros assms split: option.split)
  moreover have "keeps view (fork_target_services env fork)"
    unfolding fork_target_services_def by (auto intro!: keeps_intros assms split: option.split)
  ultimately show ?thesis
    unfolding build_app_def get_fork_header_key_def existing_forked_services_def
    by (auto intro!: keeps_intros assms split: prod.split)
qed

locale fork_cluster =
  object_cluster env scheme objs + mapping_cluster env scheme maps
  for env :: "('w, 'u) env"
    and scheme :: "go_type \<Rightarrow> gvk"
    and objs :: "'w object_view"
    and maps :: "'w \<Rightarrow> namespaced_name \<Rightarrow> mapping option" +
  fixes frks :: "'w \<Rightarrow> namespaced_name \<Rightarrow> fork option"
  assumes forks_read:
      "keeps (\<lambda>w. (objs w, maps w, frks w)) (api_get (env_forks env) k)"
      "keeps (\<lambda>w. (objs w, maps w, frks w)) (api_list (env_forks env) opts)"
    and managers_read:
      "keeps (\<lambda>w. (objs w, maps w, frks w)) (api_get (env_fork_managers env) k)"
      "keeps (\<lambda>w. (objs w, maps w, frks w)) (api_list (env_fork_managers env) opts)"
    and services_read:
      "keeps (\<lambda>w. (objs w, maps w, frks w)) (api_get (env_services env) k)"
      "keeps (\<lambda>w. (objs w, maps w, frks w)) (api_list (env_services env) opts)"
    and vsconfigs_read:
      "keeps (\<lambda>w. (objs w, maps w, frks w)) (api_get (env_vsconfigs env) k)"
      "keeps (\<lambda>w. (objs w, maps w, frks w)) (api_list (env_vsconfigs env) opts)"
    and deployments_read: "keeps (\<lambda>w. (objs w, maps w, frks w)) (api_list (env_deployments env) opts)"
    and mappings_read: "keeps (\<lambda>w. (objs w, maps w, frks w)) (api_list (env_mappings env) opts)"
    and object_calls:
      "keeps (\<lambda>w. (maps w, frks w)) (env_list_unstructured env g opts)"
      "keeps (\<lambda>w. (maps w, frks w)) (env_delete_unstructured env u)"
      "keeps (\<lambda>w. (maps w, frks w)) (env_create_or_update env x f)"
    and mapping_calls:
      "keeps (\<lambda>w. (objs w, frks w)) (api_create_or_update (env_mappings env) mp mf)"
      "keeps (\<lambda>w. (objs w, frks w)) (api_delete (env_mappings env) mp)"
    and fork_get: "api_get (env_forks env) k w = (Ok fork, w') \<Longrightarrow> frks w k = Some fork"
    and fork_missing: "api_get (env_forks env) k w = (Err NotFound, w') \<Longrightarrow> frks w k = None"
    and fork_typed: "frks w k = Some fork \<Longrightarrow> fork_type fork = scheme GoFork \<and> meta_key (fork_meta fork) = k"
    and service_typed:
      "api_get (env_services env) k w = (Ok svc, w') \<Longrightarrow> svc_type svc = scheme GoService \<and>
          meta_key (svc_meta svc) = k"
    and fork_delete_keeps: "keeps (\<lambda>w. (objs w, maps w)) (api_delete (env_forks env) fork)"
    and fork_deleted:
      "api_delete (env_forks env) fork w = (res, w') \<Longrightarrow>
       frks w' = (frks w)(meta_key (fork_meta fork) := None) \<or> (\<not> is_ok res \<and> frks w' = frks w)"
begin

lemmas reads = forks_read managers_read services_read vsconfigs_read deployments_read mappings_read
lemmas reads_maps = reads [THEN keeps_part [where f = snd], simplified]
lemmas reads_objs = reads [THEN keeps_part [where f = "\<lambda>(a, b, c). (a, c)"], simplified]

lemma refresh_keeps: "keeps (\<lambda>w. (maps w, frks w)) (refresh env parent lst)"
proof -
  have "keeps (\<lambda>w. (maps w, frks w)) (handle_existing_step env parent lst ids u ex)" for ids u ex
    unfolding handle_existing_step_def by (auto intro!: keeps_intros object_calls)
  then show ?thesis
    unfolding refresh_def handle_existing_def refresh_item_def
    by (intro keeps_intros object_calls)
qed

lemma build_app_keeps: "keeps (\<lambda>w. (objs w, maps w, frks w)) (build_app env ord fork)"
  by (rule build_app_keeps_view) (rule reads)+

lemma build_vs_lister_keeps: "keeps (\<lambda>w. (objs w, maps w, frks w)) (build_vs_lister env k)"
  unfolding build_vs_lister_def Let_def by (intro keeps_intros reads)

text \<open>A call after a \<open>Get\<close> whose \<open>NotFound\<close> is handled.\<close>

lemma keeps_get_cases:
  assumes "keeps view g" and "keeps view missing" and "\<And>x. keeps view (found x)"
  shows "keeps view (\<lambda>w. case g w of
      (Err NotFound, w1) \<Rightarrow> missing w1
    | (Err e, w1) \<Rightarrow> (Err e, w1)
    | (Panic p, w1) \<Rightarrow> (Panic p, w1)
    | (Ok x, w1) \<Rightarrow> found x w1)"
proof (rule keepsI)
  fix w r w'
  assume run: "(case g w of
      (Err NotFound, w1) \<Rightarrow> missing w1
    | (Err e, w1) \<Rightarrow> (Err e, w1)
    | (Panic p, w1) \<Rightarrow> (Panic p, w1)
    | (Ok x, w1) \<Rightarrow> found x w1) = (r, w')"
  obtain r1 w1 where g: "g w = (r1, w1)" by (cases "g w")
  have "view w1 = view w" by (rule keepsD [OF assms(1) g])
  with run g keepsD [OF assms(2)] keepsD [OF assms(3)] show "view w' = view w"
    by (auto split: result.splits error.splits)
qed

lemma microservice_update_keeps: "keeps (\<lambda>w. (maps w, frks w)) (microservice_update env ord k)"
proof -
  note build = build_app_keeps [THEN keeps_part [where f = snd], simplified]
  show ?thesis
    unfolding microservice_update_def [abs_def]
    by (rule keeps_get_cases [where missing = "\<lambda>w. (Ok (), w)"])
      (intro keeps_intros reads_maps build refresh_keeps)+
qed

lemma virtual_service_update_keeps: "keeps (\<lambda>w. (maps w, frks w)) (virtual_service_update env k)"
proof -
  note build = build_vs_lister_keeps [THEN keeps_part [where f = snd], simplified]
  show ?thesis
    unfolding virtual_service_update_def by (intro keeps_intros reads_maps build refresh_keeps)
qed

lemma mapping_update_keeps: "keeps (\<lambda>w. (objs w, frks w)) (mapping_update env ord nn_ord k)"
proof -
  have "keeps (\<lambda>w. (objs w, frks w)) (update_upstream env ord k fm i fs u c)" for fm i fs u c
    unfolding update_upstream_def Let_def by (intro keeps_intros mapping_calls)
  then have "keeps (\<lambda>w. (objs w, frks w)) (update_identifier env ord k fm m i c)" for fm m i c
    unfolding update_identifier_def by (intro keeps_intros)
  then show ?thesis
    unfolding mapping_update_def Let_def by (intro keeps_intros reads_objs mapping_calls)
qed

end

sublocale fork_cluster \<subseteq> microservice: updater "api_list (env_forks env)" fork_meta
    "microservice_update env ord"
    "\<lambda>w. (maps w, frks w)" for ord
  by unfold_locales (rule reads_maps microservice_update_keeps)+

sublocale fork_cluster \<subseteq> virtual_service: updater "api_list (env_services env)" svc_meta
    "virtual_service_update env"
    "\<lambda>w. (maps w, frks w)"
  by unfold_locales (rule reads_maps virtual_service_update_keeps)+

sublocale fork_cluster \<subseteq> mapping: updater "api_list (env_fork_managers env)" fm_meta
    "mapping_update env ord nn_ord"
    "\<lambda>w. (objs w, frks w)" for ord nn_ord
  by unfold_locales (rule reads_objs mapping_update_keeps)+

section \<open>The microservice updater\<close>

text \<open>
  A change a parent is entitled to: an object in its namespace, which was its own and is gone,
  or which is its own now.
\<close>

definition owned_change ::
  "('w, 'u) env \<Rightarrow> owner \<Rightarrow> namespaced_name \<Rightarrow> client_object option \<Rightarrow> client_object option \<Rightarrow> bool" where
  "owned_change env parent k old new \<longleftrightarrow>
     in_parent_namespace parent k \<and>
     (case new of
        None \<Rightarrow> (\<exists>x. old = Some x \<and> owned_by_parent env (obj_meta x) parent)
      | Some s \<Rightarrow> owned_by_parent env (obj_meta s) parent)"

context refresher
begin

lemma refresh_owned_change:
  assumes "refresh env parent lst w = (res, w')" and "objs w' r' k \<noteq> objs w r' k"
  shows "r' = r \<and> owned_change env parent k (objs w r' k) (objs w' r' k)"
  using refresh_frame [OF assms(1), of r' k] assms(2) written_owned [of env scheme parent, OF _ parent_kind]
  by (auto simp: owned_change_def stale_def was_written_def in_parent_namespace_def)

end

text \<open>Several lists, each of a resource of its own, refreshed one after the other.\<close>

lemma refresh_lists_frame:
  assumes "list_all2 (\<lambda>l r. refresher env scheme objs l r parent) ls rs" and "distinct rs"
    and "for_each ls (refresh env parent) w = (res, w')" and "objs w' r k \<noteq> objs w r k"
  shows "r \<in> set rs \<and> owned_change env parent k (objs w r k) (objs w' r k)"
  using assms
proof (induction ls rs arbitrary: w rule: list_all2_induct)
  case (Cons l ls r1 rs)
  from Cons.prems(2) have "bind_eff (refresh env parent l) (\<lambda>_. for_each ls (refresh env parent)) w = (res, w')"
    by simp
  then show ?case
  proof (cases rule: bind_eff_cases)
    case (first res1)
    with refresher.refresh_owned_change [OF Cons.hyps(1) first(1)] Cons.prems(3) show ?thesis by auto
  next
    case (second u w1)
    show ?thesis
    proof (cases "objs w' r k = objs w1 r k")
      case True
      with refresher.refresh_owned_change [OF Cons.hyps(1) second(1), of r k] Cons.prems(3) show ?thesis by auto
    next
      case False
      with Cons.IH [OF _ second(2)] Cons.prems(1) have
        later: "r \<in> set rs" "owned_change env parent k (objs w1 r k) (objs w' r k)" by auto
      then have "r \<noteq> r1" using Cons.prems(1) by auto
      with refresher.refresh_owned_change [OF Cons.hyps(1) second(1), of r k] have
          "objs w1 r k = objs w r k" by auto
      with later show ?thesis by simp
    qed
  qed
qed simp

text \<open>The objects of one resource are changed by the refresh of its own list only.\<close>

lemma refresh_lists_one:
  assumes "list_all2 (\<lambda>l r. refresher env scheme objs l r parent) ls rs" and "distinct rs"
    and "for_each ls (refresh env parent) w = (res, w')" and "objs w' r k \<noteq> objs w r k"
  shows "\<exists>l v v' res'. (l, r) \<in> set (zip ls rs) \<and> refresh env parent l v = (res', v') \<and>
    objs v r = objs w r \<and> objs v' r k = objs w' r k"
  using assms
proof (induction ls rs arbitrary: w rule: list_all2_induct)
  case (Cons l ls r1 rs)
  note frame = refresher.refresh_owned_change [OF Cons.hyps(1)]
  from Cons.prems(2) have "bind_eff (refresh env parent l) (\<lambda>_. for_each ls (refresh env parent)) w = (res, w')"
    by simp
  then show ?case
  proof (cases rule: bind_eff_cases)
    case (first res1)
    with frame [OF first(1) Cons.prems(3)] show ?thesis by auto
  next
    case (second u w1)
    show ?thesis
    proof (cases "r = r1")
      case True
      have "r \<notin> set rs" using Cons.prems(1) True by simp
      with refresh_lists_frame [OF Cons.hyps(2) _ second(2), of r k] Cons.prems(1) have
          "objs w' r k = objs w1 r k" by auto
      with second(1) True show ?thesis by auto
    next
      case False
      with frame [OF second(1)] have "objs w1 r = objs w r" by (auto simp: fun_eq_iff)
      with Cons.IH [OF _ second(2)] Cons.prems(1,3) show ?thesis by auto
    qed
  qed
qed simp

text \<open>When all succeed, each list has been refreshed, among the objects of its resource that were there.\<close>

lemma refresh_lists_run:
  assumes "list_all2 (\<lambda>l r. refresher env scheme objs l r parent) ls rs" and "distinct rs"
    and "for_each ls (refresh env parent) w = (Ok u, w')" and "(l, r) \<in> set (zip ls rs)"
  shows "\<exists>v v'. refresh env parent l v = (Ok (), v') \<and> objs v r = objs w r \<and> objs v' r = objs w' r"
  using assms
proof (induction ls rs arbitrary: w rule: list_all2_induct)
  case (Cons l1 ls r1 rs)
  from Cons.prems(2) obtain w1 where one: "refresh env parent l1 w = (Ok (), w1)"
    and rest: "for_each ls (refresh env parent) w1 = (Ok u, w')" by (auto simp: eff_simps)
  show ?case
  proof (cases "(l, r) \<in> set (zip ls rs)")
    case True
    then have "r \<noteq> r1" using Cons.prems(1) by (auto dest: set_zip_rightD)
    then have "objs w1 r = objs w r"
      using refresher.refresh_owned_change [OF Cons.hyps(1) one, of r] by (intro ext) auto
    with Cons.IH [OF _ rest True] Cons.prems(1) show ?thesis by simp
  next
    case False
    with Cons.prems(3) have lr: "l = l1" "r = r1" by auto
    have "r1 \<notin> set rs" using Cons.prems(1) by simp
    then have "objs w' r1 = objs w1 r1"
      using refresh_lists_frame [OF Cons.hyps(2) _ rest] Cons.prems(1) by (intro ext) auto
    with one lr show ?thesis by auto
  qed
qed simp

lemma refresh_lists_done:
  assumes "list_all2 (\<lambda>l r. stable_refresher env scheme objs l r parent) ls rs" and "distinct rs"
    and "for_each ls (refresh env parent) w = (Ok u, w')" and "(l, r) \<in> set (zip ls rs)"
    and "well_named env parent l (objs w r)" and "inj_on (default_name env parent l) (set (ol_items l))"
  shows "realised env scheme parent l (objs w' r)"
proof -
  have "list_all2 (\<lambda>l r. refresher env scheme objs l r parent) ls rs"
    using assms(1) by (rule list_all2_mono) (rule stable_refresher.axioms(1))
  from refresh_lists_run [OF this assms(2-4)] obtain v v' where
    run: "refresh env parent l v = (Ok (), v')" and v: "objs v r = objs w r" "objs v' r = objs w' r" by blast
  have "stable_refresher env scheme objs l r parent" using assms(1,4) by (auto simp: list_all2_iff)
  from stable_refresher.refresh_realises [OF this run] assms(5,6) v show ?thesis by simp
qed

text \<open>The resources of the three lists of a fork, in their order.\<close>

definition fork_resources :: "resource list" where
  "fork_resources = [RDeploymentCopy, RService, RVSConfig]"

context fork_cluster
begin

lemma app_lists_refreshers:
  assumes "generate_app_lists env ord a = Ok ls" and "range_order ord" and "fork_type fork = scheme GoFork"
  shows "list_all2 (\<lambda>l r. refresher env scheme objs l r (fork_owner fork)) ls fork_resources"
proof -
  from assms(1) obtain dcs where dcs: "generate_deployment_copies ord a = Ok dcs"
    and ls: "ls = [dcs, generate_services ord a, generate_vsconfigs env a]"
    by (auto simp: generate_app_lists_def result_simps)
  have kind: "ow_gvk (fork_owner fork) = scheme (ow_go_type (fork_owner fork))"
    by (simp add: fork_owner_def assms(3))
  show ?thesis
    unfolding ls fork_resources_def
    by (intro list.rel_intros refresher.intro refresher_axioms.intro kind object_cluster_axioms
        deployment_copies_contract [OF dcs assms(2)]
        services.identity_contract_axioms vsconfigs.identity_contract_axioms)
qed

lemma microservice_update_found:
  assumes "microservice_update env ord k w = (res, w')"
  obtains (unchanged) "objs w' = objs w"
    | (refreshed) fork w0 a w1 ls where "api_get (env_forks env) k w = (Ok fork, w0)" "objs w0 = objs w"
        "build_app env ord fork w0 = (Ok a, w1)" "objs w1 = objs w"
        "generate_app_lists env ord a = Ok ls" "for_each ls (refresh env (fork_owner fork)) w1 = (res, w')"
proof -
  note keep = forks_read(1) [unfolded keeps_pair, THEN conjunct1, THEN keepsD]
  note build = build_app_keeps [unfolded keeps_pair, THEN conjunct1, THEN keepsD]
  obtain r0 w0 where get: "api_get (env_forks env) k w = (r0, w0)" by (cases "api_get (env_forks env) k w")
  show thesis
  proof (cases r0)
    case (Ok fork)
    with assms get have "bind_eff (build_app env ord fork) (\<lambda>app.
        bind_eff (lift_result (generate_app_lists env ord app)) (\<lambda>ls.
        for_each ls (refresh env (fork_owner fork)))) w0 = (res, w')"
      by (simp add: microservice_update_def)
    then show thesis
    proof (cases rule: bind_eff_cases)
      case (first r1)
      with unchanged build keep [OF get] show thesis by metis
    next
      case (second a w1)
      have w1: "objs w1 = objs w" using build [OF second(1)] keep [OF get] by simp
      show thesis
      proof (cases "generate_app_lists env ord a")
        case ls: (Ok ls)
        with second(2) refreshed [OF get [unfolded Ok] keep [OF get] second(1) w1] show thesis by simp
      qed (use second(2) w1 unchanged in auto)
    qed
  next
    case (Err e)
    with assms get keep [OF get] unchanged show thesis
      by (auto simp: microservice_update_def split: error.splits)
  next
    case (Panic p)
    with assms get keep [OF get] unchanged show thesis by (simp add: microservice_update_def)
  qed
qed

text \<open>
  Whatever its outcome, an update of a fork changes only DeploymentCopies, Services and
  VSConfigs in its namespace that are, or were, its own.
\<close>

lemma microservice_update_frame:
  assumes "microservice_update env ord q w = (res, w')" and "range_order ord"
    and "objs w' r k \<noteq> objs w r k"
  shows "\<exists>fork. frks w q = Some fork \<and> r \<in> set fork_resources \<and>
    owned_change env (fork_owner fork) k (objs w r k) (objs w' r k)"
  using assms(1)
proof (cases rule: microservice_update_found)
  case (refreshed fork w0 a w1 ls)
  have fork: "frks w q = Some fork" using fork_get [OF refreshed(1)] .
  have "list_all2 (\<lambda>l r. refresher env scheme objs l r (fork_owner fork)) ls fork_resources"
    using app_lists_refreshers [OF refreshed(5) assms(2)] fork_typed [OF fork] by simp
  from refresh_lists_frame [OF this _ refreshed(6), of r k] assms(3) refreshed(4) fork show ?thesis
    by (simp add: fork_resources_def)
qed (use assms(3) in simp)

end

text \<open>
  Names of copies that fit the 63 bytes the refresher allows, and lists whose objects have
  pairwise different names because their originals do.
\<close>

definition copy_name :: "deployment \<Rightarrow> fork \<Rightarrow> string" where
  "copy_name d fork = sprintf_dash (meta_name (dep_meta d)) (meta_name (fork_meta fork))"

definition short_names :: "app \<Rightarrow> bool" where
  "short_names a \<longleftrightarrow>
     (\<forall>s \<in> set (app_services a). length (service_name s (app_fork a)) \<le> 63) \<and>
     (\<forall>d \<in> set (app_deployments a). length (copy_name d (app_fork a)) \<le> 63)"

definition distinct_originals :: "app \<Rightarrow> bool" where
  "distinct_originals a \<longleftrightarrow>
     distinct (map (\<lambda>s. meta_name (svc_meta s)) (app_services a)) \<and>
     distinct (map (\<lambda>d. meta_name (dep_meta d)) (app_deployments a))"

lemma default_name_short:
  assumes "ol_identity lst (Typed x) = Ok i" and "meta_name (obj_meta x) \<noteq> ''''"
  shows "default_name env parent lst x =
    Ok (if 63 < length (meta_name (obj_meta x)) then take 63 (meta_name (obj_meta x)) else meta_name
        (obj_meta x))"
  using assms by (simp add: default_name_def item_name_def refresh_name_def)

lemma copy_names_nonempty [simp]: "service_name s fork \<noteq> ''''" "copy_name d fork \<noteq> ''''"
  by (simp_all add: service_name_def copy_name_def sprintf_dash_def)

lemma service_name_inject:
  "service_name s fork = service_name t fork \<longleftrightarrow> meta_name (svc_meta s) = meta_name (svc_meta t)"
  by (simp add: service_name_def)

lemma copy_name_inject: "copy_name d fork = copy_name e fork \<longleftrightarrow> meta_name (dep_meta d) = meta_name (dep_meta e)"
  by (simp add: copy_name_def)

lemma labelled_service_copy_name [simp]:
  "meta_name (svc_meta (labelled_service_copy ord a s)) = service_name s (app_fork a)"
  by (simp add: labelled_service_copy_def build_service_copy_def Let_def)

lemma build_vsconfig_name [simp]: "meta_name (vsc_meta (build_vsconfig s fork h)) = service_name s fork"
  by (simp add: build_vsconfig_def)

lemma inj_on_default_name:
  assumes "\<forall>x \<in> set (ol_items lst). default_name env parent lst x = Ok (meta_name (obj_meta x))"
    and "inj_on (\<lambda>x. meta_name (obj_meta x)) (set (ol_items lst))"
  shows "inj_on (default_name env parent lst) (set (ol_items lst))"
  using assms by (auto simp: inj_on_def)

lemma service_default_names:
  fixes env :: "('w, 'u) env"
  assumes "short_names a" "distinct_originals a"
  shows "s \<in> set (app_services a) \<Longrightarrow>
      default_name env parent (generate_services ord a) (OService (labelled_service_copy ord a s)) =
      Ok (service_name s (app_fork a))"
    and "inj_on (default_name env parent (generate_services ord a))
        (set (ol_items (generate_services ord a :: 'u object_list)))"
proof -
  show name: "default_name env parent (generate_services ord a) (OService (labelled_service_copy ord a s)) =
      Ok (service_name s (app_fork a))" if "s \<in> set (app_services a)" for s
    by (subst default_name_short) (use assms(1) that in \<open>auto simp: generate_services_def short_names_def\<close>)
  show "inj_on (default_name env parent (generate_services ord a))
      (set (ol_items (generate_services ord a :: 'u object_list)))"
  proof (rule inj_on_default_name)
    show "inj_on (\<lambda>x. meta_name (obj_meta x)) (set (ol_items (generate_services ord a)))"
      using assms(2) by (auto simp: inj_on_def generate_services_def service_name_inject
          distinct_originals_def distinct_map)
  qed (use name in \<open>auto simp: generate_services_def\<close>)
qed

lemma vsconfig_default_names:
  assumes "short_names a" "distinct_originals a"
  shows "s \<in> set (app_services a) \<Longrightarrow>
      default_name env parent (generate_vsconfigs env a)
          (OVSConfig (build_vsconfig s (app_fork a) (app_fork_header a))) =
      Ok (service_name s (app_fork a))"
    and "inj_on (default_name env parent (generate_vsconfigs env a))
        (set (ol_items (generate_vsconfigs env a)))"
proof -
  show name: "default_name env parent (generate_vsconfigs env a)
      (OVSConfig (build_vsconfig s (app_fork a) (app_fork_header a))) =
      Ok (service_name s (app_fork a))" if "s \<in> set (app_services a)" for s
    by (subst default_name_short) (use assms(1) that in \<open>auto simp: generate_vsconfigs_def short_names_def\<close>)
  show "inj_on (default_name env parent (generate_vsconfigs env a)) (set (ol_items (generate_vsconfigs env a)))"
  proof (rule inj_on_default_name)
    show "inj_on (\<lambda>x. meta_name (obj_meta x)) (set (ol_items (generate_vsconfigs env a)))"
      using assms(2) by (auto simp: inj_on_def generate_vsconfigs_def service_name_inject
          distinct_originals_def distinct_map)
  qed (use name in \<open>auto simp: generate_vsconfigs_def\<close>)
qed

lemma list_all2_right: "list_all2 P xs ys \<Longrightarrow> y \<in> set ys \<Longrightarrow> \<exists>x \<in> set xs. P x y"
  by (induction rule: list_all2_induct) auto

lemma list_all2_left: "list_all2 P xs ys \<Longrightarrow> x \<in> set xs \<Longrightarrow> \<exists>y \<in> set ys. P x y"
  by (induction rule: list_all2_induct) auto

lemma deployment_copies_items:
  assumes "generate_deployment_copies ord a = Ok lst" and "range_order ord" and "x \<in> set (ol_items lst)"
  shows "\<exists>d \<in> set (app_deployments a). \<exists>c. x = ODeploymentCopy c \<and>
      meta_name (dc_meta c) = copy_name d (app_fork a) \<and>
    build_deployment_copy ord d (app_fork a)
      (lookup_list (app_deploy_name_to_service_names a) (meta_name (dep_meta d))) = Ok c"
proof -
  from assms(1) have "list_all2 (\<lambda>d x. \<exists>c. x = ODeploymentCopy c \<and> build_deployment_copy ord d (app_fork a)
      (lookup_list (app_deploy_name_to_service_names a) (meta_name (dep_meta d))) = Ok c)
          (app_deployments a) (ol_items lst)"
    by (auto simp: generate_deployment_copies_def result_simps map_results_eq_Ok elim!: list_all2_mono)
  from list_all2_right [OF this assms(3)] obtain d c where
    "d \<in> set (app_deployments a)" "x = ODeploymentCopy c" "build_deployment_copy ord d (app_fork a)
      (lookup_list (app_deploy_name_to_service_names a) (meta_name (dep_meta d))) = Ok c"
    by auto
  with build_deployment_copy_Ok(1) [OF _ assms(2)] show ?thesis by (auto simp: copy_name_def)
qed

lemma deployment_copy_default_names:
  assumes "short_names a" "distinct_originals a" "generate_deployment_copies ord a = Ok lst" "range_order ord"
  shows "x \<in> set (ol_items lst) \<Longrightarrow> default_name env parent lst x = Ok (meta_name (obj_meta x))"
    and "inj_on (default_name env parent lst) (set (ol_items lst))"
proof -
  have id: "ol_identity lst = (\<lambda>obj. Ok (meta_name (any_meta obj)))"
    using assms(3) by (auto simp: generate_deployment_copies_def result_simps)
  show name: "default_name env parent lst x = Ok (meta_name (obj_meta x))" if "x \<in> set (ol_items lst)" for x
    using deployment_copies_items [OF assms(3,4) that] assms(1)
    by (subst default_name_short) (auto simp: id short_names_def)
  show "inj_on (default_name env parent lst) (set (ol_items lst))"
  proof (rule inj_on_default_name)
    show "inj_on (\<lambda>x. meta_name (obj_meta x)) (set (ol_items lst))"
    proof (rule inj_onI)
      fix x y
      assume xy: "x \<in> set (ol_items lst)" "y \<in> set (ol_items lst)"
          "meta_name (obj_meta x) = meta_name (obj_meta y)"
      from deployment_copies_items [OF assms(3,4) xy(1)] obtain d c where
        d: "d \<in> set (app_deployments a)" "x = ODeploymentCopy c"
            "meta_name (dc_meta c) = copy_name d (app_fork a)"
          "build_deployment_copy ord d (app_fork a)
             (lookup_list (app_deploy_name_to_service_names a) (meta_name (dep_meta d))) = Ok c" by auto
      from deployment_copies_items [OF assms(3,4) xy(2)] obtain e c' where
        e: "e \<in> set (app_deployments a)" "y = ODeploymentCopy c'"
            "meta_name (dc_meta c') = copy_name e (app_fork a)"
          "build_deployment_copy ord e (app_fork a)
             (lookup_list (app_deploy_name_to_service_names a) (meta_name (dep_meta e))) = Ok c'" by auto
      have "meta_name (dep_meta d) = meta_name (dep_meta e)"
        using xy(3) d(2,3) e(2,3) by (simp add: copy_name_inject)
      then have "d = e" using assms(2) d(1) e(1)
        by (auto simp: distinct_originals_def distinct_map dest: inj_onD)
      with d(2,4) e(2,4) show "x = y" by simp
    qed
  qed (use name in simp)
qed

context fork_cluster
begin

text \<open>The three lists keep what the refresher asks of a list when the names of copies are short.\<close>

lemma fork_lists_stable:
  assumes "ow_gvk (fork_owner fork) = scheme (ow_go_type (fork_owner fork))"
    and "generate_deployment_copies ord a = Ok dcs" "range_order ord" and "short_names a"
  shows "list_all2 (\<lambda>l r. stable_refresher env scheme objs l r (fork_owner fork))
    [dcs, generate_services ord a, generate_vsconfigs env a] fork_resources"
  unfolding fork_resources_def
proof (intro list.rel_intros services_stable vsconfigs_stable object_cluster_axioms assms(1)
    deployment_copies_stable [OF _ _ assms(2,3)])
  fix x
  assume "x \<in> set (ol_items dcs)"
  from deployment_copies_items [OF assms(2,3) this] assms(4)
  show "meta_name (obj_meta x) \<noteq> '''' \<and> length (meta_name (obj_meta x)) \<le> 63"
    by (auto simp: short_names_def)
qed

text \<open>The three lists are refreshed with different resources, so what each refresh achieves stays.\<close>

lemma fork_lists_realised:
  assumes "for_each [dcs, generate_services ord a, generate_vsconfigs env a]
      (refresh env (fork_owner fork)) w = (Ok u, w')"
    and "ow_gvk (fork_owner fork) = scheme (ow_go_type (fork_owner fork))"
    and dcs: "generate_deployment_copies ord a = Ok dcs" "range_order ord"
    and names: "short_names a" "distinct_originals a"
    and l: "(l, r) \<in> set (zip [dcs, generate_services ord a, generate_vsconfigs env a] fork_resources)"
    and named: "well_named env (fork_owner fork) l (objs w r)"
  shows "realised env scheme (fork_owner fork) l (objs w' r)"
proof (rule refresh_lists_done [where w = w and rs = fork_resources
      and ls = "[dcs, generate_services ord a, generate_vsconfigs env a]"])
  show "inj_on (default_name env (fork_owner fork) l) (set (ol_items l))"
    using l deployment_copy_default_names(2) [OF names dcs] service_default_names(2) [OF names]
      vsconfig_default_names(2) [OF names]
    by (auto simp: fork_resources_def)
qed (use assms(1) l named fork_lists_stable [OF assms(2) dcs names(1)] in \<open>simp_all add: fork_resources_def\<close>)

lemma microservice_update_loop:
  assumes "microservice_update env ord q w = (Ok u, w')" and "frks w q = Some fork"
  obtains w0 a w1 dcs where "api_get (env_forks env) q w = (Ok fork, w0)"
    "build_app env ord fork w0 = (Ok a, w1)" "generate_deployment_copies ord a = Ok dcs" "objs w1 = objs w"
    "for_each [dcs, generate_services ord a, generate_vsconfigs env a] (refresh env (fork_owner fork))
        w1 = (Ok u, w')"
proof -
  obtain r0 w0 where get: "api_get (env_forks env) q w = (r0, w0)" by (cases "api_get (env_forks env) q w")
  have r0: "r0 = Ok fork"
    using assms get fork_get [of q w] fork_missing [of q w]
    by (cases r0) (auto simp: microservice_update_def split: error.splits)
  with assms(1) get obtain a w1 ls where build: "build_app env ord fork w0 = (Ok a, w1)"
    and gen: "generate_app_lists env ord a = Ok ls"
    and loop: "for_each ls (refresh env (fork_owner fork)) w1 = (Ok u, w')"
    by (auto simp: microservice_update_def eff_simps)
  have "objs w1 = objs w"
    using keepsD [OF forks_read(1) get] keepsD [OF build_app_keeps build] by simp
  moreover from gen obtain dcs where "generate_deployment_copies ord a = Ok dcs"
    and "ls = [dcs, generate_services ord a, generate_vsconfigs env a]"
    by (auto simp: generate_app_lists_def result_simps)
  ultimately show thesis using that get r0 build loop by blast
qed

lemma microservice_update_done:
  assumes "microservice_update env ord q w = (Ok u, w')" and "range_order ord" and "frks w q = Some fork"
  shows "\<exists>w0 a w1 dcs. api_get (env_forks env) q w = (Ok fork, w0) \<and>
    build_app env ord fork w0 = (Ok a, w1) \<and> generate_deployment_copies ord a = Ok dcs \<and>
    (short_names a \<and> distinct_originals a \<longrightarrow>
     (well_named env (fork_owner fork) dcs (objs w RDeploymentCopy) \<longrightarrow>
        realised env scheme (fork_owner fork) dcs (objs w' RDeploymentCopy)) \<and>
     (well_named env (fork_owner fork) (generate_services ord a) (objs w RService) \<longrightarrow>
        realised env scheme (fork_owner fork) (generate_services ord a) (objs w' RService)) \<and>
     (well_named env (fork_owner fork) (generate_vsconfigs env a) (objs w RVSConfig) \<longrightarrow>
        realised env scheme (fork_owner fork) (generate_vsconfigs env a) (objs w' RVSConfig)))"
proof -
  from microservice_update_loop [OF assms(1,3)] obtain w0 a w1 dcs where
    get: "api_get (env_forks env) q w = (Ok fork, w0)" and build: "build_app env ord fork w0 = (Ok a, w1)"
    and dcs: "generate_deployment_copies ord a = Ok dcs" and w1: "objs w1 = objs w"
    and loop: "for_each [dcs, generate_services ord a, generate_vsconfigs env a]
      (refresh env (fork_owner fork)) w1 = (Ok u, w')" .
  have "ow_gvk (fork_owner fork) = scheme (ow_go_type (fork_owner fork))"
    using fork_typed [OF assms(3)] by (simp add: fork_owner_def)
  note realised = fork_lists_realised [OF loop this dcs assms(2), unfolded w1]
  show ?thesis
    using get build dcs realised [of dcs RDeploymentCopy] realised [of "generate_services ord a" RService]
      realised [of "generate_vsconfigs env a" RVSConfig]
    by (auto simp: fork_resources_def)
qed

end

section \<open>The VirtualService updater\<close>

lemma single_default_name:
  "inj_on (default_name env parent (build_virtual_service env a))
      (set (ol_items (build_virtual_service env a)))"
  by (auto simp: build_virtual_service_items inj_on_def)

context fork_cluster
begin

lemma virtual_service_update_found:
  assumes "virtual_service_update env k w = (res, w')"
  obtains (unchanged) "objs w' = objs w" "\<not> is_ok res"
    | (refreshed) s w0 a w1 where "api_get (env_services env) k w = (Ok s, w0)" "objs w0 = objs w"
        "build_vs_lister env k w0 = (Ok a, w1)" "objs w1 = objs w"
        "for_each [build_virtual_service env a] (refresh env (service_owner s)) w1 = (res, w')"
proof -
  note keep = services_read(1) [unfolded keeps_pair, THEN conjunct1, THEN keepsD]
  note build = build_vs_lister_keeps [unfolded keeps_pair, THEN conjunct1, THEN keepsD]
  from assms show thesis
    unfolding virtual_service_update_def
  proof (cases rule: bind_eff_cases)
    case (first r1)
    with unchanged keep show thesis by (auto simp: is_ok_def split: result.splits)
  next
    case (second s w0)
    note s = second(1)
    from second(2) show thesis
    proof (cases rule: bind_eff_cases)
      case (first r1)
      with unchanged build keep [OF s] show thesis by (auto simp: is_ok_def split: result.splits)
    next
      case (second a w1)
      then show thesis
        using refreshed [OF s keep [OF s] second(1)] build [OF second(1)] keep [OF s]
        by (simp add: generate_vs_lists_def)
    qed
  qed
qed

lemma service_owner_kind:
  "api_get (env_services env) k w = (Ok s, w') \<Longrightarrow>
   ow_gvk (service_owner s) = scheme (ow_go_type (service_owner s))"
  using service_typed by (simp add: service_owner_def)

text \<open>An update of a service changes VirtualServices of that service only.\<close>

lemma virtual_service_update_frame:
  assumes "virtual_service_update env q w = (res, w')" and "objs w' r k \<noteq> objs w r k"
  shows "\<exists>s w0. api_get (env_services env) q w = (Ok s, w0) \<and> r = RVirtualService \<and>
    owned_change env (service_owner s) k (objs w r k) (objs w' r k)"
  using assms(1)
proof (cases rule: virtual_service_update_found)
  case (refreshed s w0 a w1)
  have "list_all2 (\<lambda>l r. refresher env scheme objs l r (service_owner s)) [build_virtual_service env a]
      [RVirtualService]"
    by (intro list.rel_intros refresher.intro refresher_axioms.intro object_cluster_axioms
        virtual_services.identity_contract_axioms service_owner_kind [OF refreshed(1)])
  from refresh_lists_frame [OF this _ refreshed(5), of r k] assms(2) refreshed(1,4) show ?thesis by auto
qed (use assms(2) in simp)

text \<open>After a successful update the service has the VirtualService its VSConfigs ask for, or none.\<close>

lemma virtual_service_update_done:
  assumes "virtual_service_update env q w = (Ok u, w')"
  shows "\<exists>s w0 a w1. api_get (env_services env) q w = (Ok s, w0) \<and> build_vs_lister env q w0 = (Ok a, w1) \<and>
    (well_named env (service_owner s) (build_virtual_service env a) (objs w RVirtualService) \<longrightarrow>
     realised env scheme (service_owner s) (build_virtual_service env a) (objs w' RVirtualService))"
  using assms
proof (cases rule: virtual_service_update_found)
  case (refreshed s w0 a w1)
  have stable: "list_all2 (\<lambda>l r. stable_refresher env scheme objs l r (service_owner s))
      [build_virtual_service env a] [RVirtualService]"
    by (intro list.rel_intros virtual_services_stable object_cluster_axioms service_owner_kind
        [OF refreshed(1)])
  have "realised env scheme (service_owner s) (build_virtual_service env a) (objs w' RVirtualService)"
    if "well_named env (service_owner s) (build_virtual_service env a) (objs w RVirtualService)"
    using refresh_lists_done [OF stable _ refreshed(5) _ _ single_default_name] refreshed(4) that by simp
  with refreshed show ?thesis by blast
qed simp

section \<open>The fork reconciler\<close>

lemma expired_fork_deleted:
  assumes "reconcile_fork env ord nn_ord now q w = (res, w')"
    and "frks w q = Some fork" and "spec_deadline (fork_spec fork) = Some d" "env_time_before env d now"
  shows "objs w' = objs w" "maps w' = maps w"
    and "frks w' = (frks w)(q := None) \<or> (\<not> is_ok res \<and> frks w' = frks w)"
proof -
  obtain r0 w0 where get: "api_get (env_forks env) q w = (r0, w0)" by (cases "api_get (env_forks env) q w")
  have w0: "objs w0 = objs w" "maps w0 = maps w" "frks w0 = frks w"
    using keepsD [OF forks_read(1) get] by simp_all
  have "(objs w' = objs w \<and> maps w' = maps w) \<and>
    (frks w' = (frks w)(q := None) \<or> (\<not> is_ok res \<and> frks w' = frks w))"
  proof (cases r0)
    case (Ok f)
    with get assms(2) fork_get have "f = fork" by auto
    with assms(1,3,4) get Ok have del: "api_delete (env_forks env) fork w0 = (res, w')"
      by (simp add: reconcile_fork_def reconcile_fork_found_def)
    have "meta_key (fork_meta fork) = q" using fork_typed assms(2) by simp
    with fork_deleted [OF del] keepsD [OF fork_delete_keeps del] w0 show ?thesis by auto
  next
    case (Err e)
    with assms(1,2) get fork_missing [of q w] w0 show ?thesis
      by (auto simp: reconcile_fork_def split: error.splits)
  next
    case (Panic p)
    with assms(1) get w0 show ?thesis by (auto simp: reconcile_fork_def)
  qed
  then show "objs w' = objs w" "maps w' = maps w"
    "frks w' = (frks w)(q := None) \<or> (\<not> is_ok res \<and> frks w' = frks w)" by auto
qed

lemma keeps_reconcile_found:
  assumes "\<not> (case spec_deadline (fork_spec fork) of None \<Rightarrow> False | Some d \<Rightarrow> env_time_before env d now)"
  shows "keeps frks (reconcile_fork_found env ord nn_ord now q fork)"
proof -
  note m = mapping_update_keeps [THEN keeps_part [where f = snd], simplified]
    microservice_update_keeps [THEN keeps_part [where f = snd], simplified]
  show ?thesis
    unfolding reconcile_fork_found_def using assms by (auto intro!: keeps_intros m)
qed

text \<open>A fork is deleted after its deadline only, and no other fork is.\<close>

lemma forks_deleted_when_expired:
  assumes "reconcile_fork env ord nn_ord now q w = (res, w')" and "frks w' k \<noteq> frks w k"
  shows "k = q \<and> frks w' k = None \<and>
    (\<exists>fork d. frks w q = Some fork \<and> spec_deadline (fork_spec fork) = Some d \<and> env_time_before env d now)"
proof -
  obtain r0 w0 where get: "api_get (env_forks env) q w = (r0, w0)" by (cases "api_get (env_forks env) q w")
  have w0: "frks w0 = frks w" using keepsD [OF forks_read(1) get] by simp
  have "keeps frks (mapping_update_all env ord nn_ord no_options)"
    unfolding mapping_update_all_def
    using mapping.update_all_keeps [THEN keeps_part [where f = snd]] by simp
  note all = keepsD [OF this]
  show ?thesis
  proof (cases r0)
    case (Ok fork)
    with get fork_get have fork: "frks w q = Some fork" by auto
    from Ok get assms(1) have found: "reconcile_fork_found env ord nn_ord now q fork w0 = (res, w')"
      by (simp add: reconcile_fork_def)
    show ?thesis
    proof (cases "case spec_deadline (fork_spec fork) of None \<Rightarrow> False | Some d \<Rightarrow> env_time_before env d now")
      case True
      then obtain d where d: "spec_deadline (fork_spec fork) = Some d" "env_time_before env d now"
        by (auto split: option.splits)
      from expired_fork_deleted(3) [OF assms(1) fork d] assms(2) fork d show ?thesis
        by (auto split: if_splits)
    next
      case False
      from keepsD [OF keeps_reconcile_found [OF this] found] w0 assms(2) show ?thesis by simp
    qed
  next
    case (Err e)
    with assms get w0 all show ?thesis by (auto simp: reconcile_fork_def split: error.splits)
  next
    case (Panic p)
    with assms get w0 show ?thesis by (simp add: reconcile_fork_def)
  qed
qed

text \<open>A fork that is gone has the Mappings of every manager brought up to date.\<close>

lemma missing_fork_updates_managers:
  assumes "reconcile_fork env ord nn_ord now q w = (res, w')" and "frks w q = None"
  shows "objs w' = objs w" "frks w' = frks w"
proof -
  obtain r0 w0 where get: "api_get (env_forks env) q w = (r0, w0)" by (cases "api_get (env_forks env) q w")
  have w0: "objs w0 = objs w" "frks w0 = frks w" using keepsD [OF forks_read(1) get] by simp_all
  have "keeps (\<lambda>w. (objs w, frks w)) (mapping_update_all env ord nn_ord no_options)"
    unfolding mapping_update_all_def by (rule mapping.update_all_keeps)
  note all = keepsD [OF this]
  have "\<nexists>f. r0 = Ok f" using fork_get get assms(2) by auto
  with assms(1) get w0 all have "(objs w', frks w') = (objs w, frks w)"
    by (cases r0) (auto simp: reconcile_fork_def split: error.splits)
  then show "objs w' = objs w" "frks w' = frks w" by auto
qed

lemma live_fork_reconciled:
  assumes "reconcile_fork env ord nn_ord now q w = (Ok u, w')" and "frks w q = Some fork"
    and "case spec_deadline (fork_spec fork) of None \<Rightarrow> True | Some d \<Rightarrow> \<not> env_time_before env d now"
  shows "\<exists>slug w0 w1. parse_manager_slug (spec_manager (fork_spec fork)) = Ok slug \<and>
    api_get (env_forks env) q w = (Ok fork, w0) \<and> (objs w0, maps w0, frks w0) = (objs w, maps w, frks w) \<and>
    mapping_update env ord nn_ord slug w0 = (Ok (), w1) \<and> objs w1 = objs w \<and>
    microservice_update env ord q w1 = (Ok u, w') \<and> maps w' = maps w1 \<and> frks w1 q = Some fork"
proof -
  obtain r0 w0 where get: "api_get (env_forks env) q w = (r0, w0)" by (cases "api_get (env_forks env) q w")
  have w0: "(objs w0, maps w0, frks w0) = (objs w, maps w, frks w)" by (rule keepsD [OF forks_read(1) get])
  have "r0 = Ok fork"
  proof (cases r0)
    case (Ok f)
    with get fork_get assms(2) show ?thesis by auto
  qed (use get assms(1,2) fork_missing [of q w] in \<open>auto simp: reconcile_fork_def split: error.splits\<close>)
  with get assms(1) have "reconcile_fork_found env ord nn_ord now q fork w0 = (Ok u, w')"
    by (simp add: reconcile_fork_def)
  then obtain slug w1 where slug: "parse_manager_slug (spec_manager (fork_spec fork)) = Ok slug"
    and m: "mapping_update env ord nn_ord slug w0 = (Ok (), w1)"
    and s: "microservice_update env ord q w1 = (Ok u, w')"
    using assms(3) by (auto simp: reconcile_fork_found_def eff_simps split: option.splits)
  with w0 get \<open>r0 = Ok fork\<close> keepsD [OF mapping_update_keeps m] keepsD [OF microservice_update_keeps s] assms(2)
  show ?thesis
    by (intro exI [of _ slug] exI [of _ w0] exI [of _ w1]) auto
qed

lemma malformed_manager_fails:
  assumes "reconcile_fork env ord nn_ord now q w = (res, w')" and "frks w q = Some fork"
    and "case spec_deadline (fork_spec fork) of None \<Rightarrow> True | Some d \<Rightarrow> \<not> env_time_before env d now"
    and "parse_manager_slug (spec_manager (fork_spec fork)) = Err e"
  shows "\<not> is_ok res" and "(objs w', maps w', frks w') = (objs w, maps w, frks w)"
proof -
  obtain r0 w0 where get: "api_get (env_forks env) q w = (r0, w0)" by (cases "api_get (env_forks env) q w")
  have w0: "(objs w0, maps w0, frks w0) = (objs w, maps w, frks w)" by (rule keepsD [OF forks_read(1) get])
  have "\<not> is_ok res \<and> w' = w0"
  proof (cases r0)
    case (Ok f)
    with get fork_get assms(2) have "f = fork" by auto
    with Ok get assms(1,3,4) show ?thesis
      by (auto simp: reconcile_fork_def reconcile_fork_found_def bind_eff_def split: option.splits)
  qed (use get assms(1,2) fork_missing [of q w] in \<open>auto simp: reconcile_fork_def split: error.splits\<close>)
  with w0 show "\<not> is_ok res" "(objs w', maps w', frks w') = (objs w, maps w, frks w)" by auto
qed

end

section \<open>Reconciling the requests of a tick\<close>

context fork_cluster
begin

lemma expired_forks_reconciled:
  assumes "for_each ts (\<lambda>(t, k). reconcile_fork env ord nn_ord t k) w = (Ok u, w')"
    and "\<forall>(t, k) \<in> set ts. \<forall>f. frks w k = Some f \<longrightarrow>
      (\<exists>d. spec_deadline (fork_spec f) = Some d \<and> env_time_before env d t)"
  shows "frks w' k = (if k \<in> snd ` set ts then None else frks w k)"
  using assms
proof (induction ts arbitrary: w)
  case (Cons p ts)
  obtain t q where p: "p = (t, q)" by (cases p)
  from Cons.prems(1) obtain w1 where run: "reconcile_fork env ord nn_ord t q w = (Ok (), w1)"
    and rest: "for_each ts (\<lambda>(t, k). reconcile_fork env ord nn_ord t k) w1 = (Ok u, w')"
    by (auto simp: p eff_simps)
  have w1: "frks w1 = (frks w)(q := None)"
  proof (cases "frks w q")
    case None
    with missing_fork_updates_managers [OF run] show ?thesis by auto
  next
    case (Some f)
    with Cons.prems(2) obtain d where "spec_deadline (fork_spec f) = Some d" "env_time_before env d t"
      unfolding p by auto
    from expired_fork_deleted [OF run Some this] show ?thesis by simp
  qed
  have "\<forall>(t, k) \<in> set ts. \<forall>f. frks w1 k = Some f \<longrightarrow> (\<exists>d. spec_deadline (fork_spec f) = Some d \<and>
      env_time_before env d t)"
    using Cons.prems(2) by (auto simp: w1)
  from Cons.IH [OF rest this] show ?case by (auto simp: p w1)
qed simp

end

end
