(* ===== verification/RoutedCluster.thy ===== *)
theory RoutedCluster
  imports ControllerFacts
begin

text \<open>
  The whole cluster as the reconcilers of Forks and of VSConfigs share it: what typed reads
  return is tied to the stored objects, so that what one reconciler writes is what the other
  one reads. On top of it, what an update of a fork does is stated without mentioning the
  application it builds in between.
\<close>

section \<open>Listings\<close>

text \<open>What \<open>List\<close> returns of the stored objects.\<close>

definition admits :: "list_options \<Rightarrow> object_meta \<Rightarrow> bool" where
  "admits opts m \<longleftrightarrow>
     (lo_namespace opts = '''' \<or> meta_namespace m = lo_namespace opts) \<and>
     (case lo_selector opts of None \<Rightarrow> True | Some sel \<Rightarrow> sel (meta_labels m))"

locale routed_cluster =
  fork_cluster env scheme objs maps frks + steady: steady_reads env deps
  for env :: "('w, 'u) env"
    and scheme :: "go_type \<Rightarrow> gvk"
    and objs :: "'w object_view"
    and maps :: "'w \<Rightarrow> namespaced_name \<Rightarrow> mapping option"
    and frks :: "'w \<Rightarrow> namespaced_name \<Rightarrow> fork option"
    and deps :: "'w \<Rightarrow> list_options \<Rightarrow> deployment list" +
  fixes mgrs :: "'w \<Rightarrow> namespaced_name \<Rightarrow> fork_manager option"
  assumes steady_reads:
      "keeps (\<lambda>w. (deps w, mgrs w)) (api_get (env_forks env) k)"
      "keeps (\<lambda>w. (deps w, mgrs w)) (api_list (env_forks env) opts)"
      "keeps (\<lambda>w. (deps w, mgrs w)) (api_get (env_fork_managers env) k)"
      "keeps (\<lambda>w. (deps w, mgrs w)) (api_get (env_services env) k)"
      "keeps (\<lambda>w. (deps w, mgrs w)) (api_list (env_services env) opts)"
      "keeps (\<lambda>w. (deps w, mgrs w)) (api_list (env_vsconfigs env) opts)"
      "keeps (\<lambda>w. (deps w, mgrs w)) (api_list (env_deployments env) opts)"
      "keeps (\<lambda>w. (deps w, mgrs w)) (api_list (env_mappings env) opts)"
    and steady_writes:
      "keeps (\<lambda>w. (deps w, mgrs w)) (env_list_unstructured env g opts)"
      "keeps (\<lambda>w. (deps w, mgrs w)) (env_delete_unstructured env u)"
      "keeps (\<lambda>w. (deps w, mgrs w)) (env_create_or_update env x f)"
      "keeps (\<lambda>w. (deps w, mgrs w)) (api_create_or_update (env_mappings env) mp mf)"
      "keeps (\<lambda>w. (deps w, mgrs w)) (api_delete (env_mappings env) mp)"
    and manager_found: "api_get (env_fork_managers env) k w = (Ok fm, w') \<Longrightarrow> mgrs w k = Some fm"
    and service_found:
      "api_get (env_services env) k w = (Ok s, w') \<Longrightarrow>
       \<exists>t. objs w RService k = Some (OService t) \<and> svc_meta s = svc_meta t \<and> svc_spec s = svc_spec t"
    and services_listed:
      "api_list (env_services env) opts w = (Ok ss, w') \<Longrightarrow>
       (\<lambda>s. (svc_meta s, svc_spec s)) ` set ss =
       {(svc_meta t, svc_spec t) |t. \<exists>k. objs w RService k = Some (OService t) \<and> admits opts (svc_meta t)}"
    and vsconfig_found:
      "api_get (env_vsconfigs env) k w = (Ok v, w') \<Longrightarrow>
       \<exists>t. objs w RVSConfig k = Some (OVSConfig t) \<and> vsc_meta v = vsc_meta t \<and> vsc_spec v = vsc_spec t"
    and vsconfig_missing: "api_get (env_vsconfigs env) k w = (Err NotFound, w') \<Longrightarrow> objs w RVSConfig k = None"
    and vsconfigs_listed:
      "api_list (env_vsconfigs env) opts w = (Ok vs, w') \<Longrightarrow>
       (\<lambda>v. (vsc_meta v, vsc_spec v)) ` set vs =
       {(vsc_meta t, vsc_spec t) |t. \<exists>k. objs w RVSConfig k = Some (OVSConfig t) \<and> admits opts (vsc_meta t)}"
    and steady_fork_calls:
      "keeps (\<lambda>w. (deps w, mgrs w)) (api_get (env_vsconfigs env) k)"
      "keeps (\<lambda>w. (deps w, mgrs w)) (api_list (env_fork_managers env) opts)"
      "keeps (\<lambda>w. (deps w, mgrs w)) (api_delete (env_forks env) frk)"
begin

lemma view_service: "objs w RService k = Some (OService t) \<Longrightarrow> meta_key (svc_meta t) = k"
  using view_key [of w RService k "OService t"] by simp

lemma view_vsconfig: "objs w RVSConfig k = Some (OVSConfig t) \<Longrightarrow> meta_key (vsc_meta t) = k"
  using view_key [of w RVSConfig k "OVSConfig t"] by simp

lemma stored_service: "objs w RService k = Some x \<Longrightarrow> \<exists>t. x = OService t"
  using view_resource [of w RService k x] by (cases x) auto

lemma stored_vsconfig: "objs w RVSConfig k = Some x \<Longrightarrow> \<exists>t. x = OVSConfig t"
  using view_resource [of w RVSConfig k x] by (cases x) auto

lemma refresh_steady: "keeps (\<lambda>w. (deps w, mgrs w)) (refresh env parent lst)"
proof -
  have "keeps (\<lambda>w. (deps w, mgrs w)) (handle_existing_step env parent lst ids u ex)" for ids u ex
    unfolding handle_existing_step_def by (auto intro!: keeps_intros steady_writes)
  then show ?thesis
    unfolding refresh_def handle_existing_def refresh_item_def
    by (intro keeps_intros steady_writes)
qed

lemma build_app_steady: "keeps (\<lambda>w. (deps w, mgrs w)) (build_app env ord fork)"
  by (rule build_app_keeps_view) (rule steady_reads)+

lemma microservice_update_steady: "keeps (\<lambda>w. (deps w, mgrs w)) (microservice_update env ord k)"
  unfolding microservice_update_def [abs_def]
  by (rule keeps_get_cases [where missing = "\<lambda>w. (Ok (), w)"])
    (intro keeps_intros steady_reads build_app_steady refresh_steady)+

lemma mapping_update_steady: "keeps (\<lambda>w. (deps w, mgrs w)) (mapping_update env ord nn_ord k)"
proof -
  have "keeps (\<lambda>w. (deps w, mgrs w)) (update_upstream env ord k fm i fs u c)" for fm i fs u c
    unfolding update_upstream_def Let_def by (intro keeps_intros steady_writes)
  then have "keeps (\<lambda>w. (deps w, mgrs w)) (update_identifier env ord k fm m i c)" for fm m i c
    unfolding update_identifier_def by (intro keeps_intros)
  then show ?thesis
    unfolding mapping_update_def Let_def by (intro keeps_intros steady_reads steady_writes)
qed

end

section \<open>The services a fork is for\<close>

text \<open>The stored services that the selector of the fork admits, in its namespace.\<close>

definition target_services ::
  "('w, 'u) env \<Rightarrow> 'w object_view \<Rightarrow> fork \<Rightarrow> 'w \<Rightarrow> service set" where
  "target_services env objs fork w =
     (case spec_services (fork_spec fork) of
        None \<Rightarrow> {}
      | Some services \<Rightarrow>
          (case env_label_selector_as_selector env (fs_selector services) of
             Ok sel \<Rightarrow> {t. \<exists>k. objs w RService k = Some (OService t) \<and>
               admits \<lparr>lo_selector = Some sel, lo_namespace = meta_namespace (fork_meta fork)\<rparr> (svc_meta t)}
           | _ \<Rightarrow> {}))"

text \<open>
  The conditions under which the names of the copies are what the program makes them: they fit
  63 bytes, and the objects the fork owns already were named by the program.
\<close>

definition names_fit ::
  "('w, 'u) env \<Rightarrow> 'w object_view \<Rightarrow> ('w \<Rightarrow> list_options \<Rightarrow> deployment list) \<Rightarrow> fork \<Rightarrow> 'w \<Rightarrow> bool" where
  "names_fit env objs deps fork w \<longleftrightarrow>
     (\<forall>s \<in> target_services env objs fork w. length (service_name s fork) \<le> 63) \<and>
     (\<forall>d \<in> set (candidate_deployments env deps fork w). length (copy_name d fork) \<le> 63)"

definition original_name :: "labels \<Rightarrow> string" where
  "original_name ls = (case fmlookup ls original_service_label_key of Some l \<Rightarrow> l | None \<Rightarrow> '''')"

definition program_named :: "('w, 'u) env \<Rightarrow> 'w object_view \<Rightarrow> fork \<Rightarrow> 'w \<Rightarrow> bool" where
  "program_named env objs fork w \<longleftrightarrow>
     (\<forall>k t. objs w RService k = Some (OService t) \<longrightarrow> in_parent_namespace (fork_owner fork) k \<longrightarrow>
        owned_by_parent env (svc_meta t) (fork_owner fork) \<longrightarrow>
        meta_name (svc_meta t) = sprintf_dash (original_name (meta_labels (svc_meta t)))
            (meta_name (fork_meta fork))) \<and>
     (\<forall>k t. objs w RVSConfig k = Some (OVSConfig t) \<longrightarrow> in_parent_namespace (fork_owner fork) k \<longrightarrow>
        owned_by_parent env (vsc_meta t) (fork_owner fork) \<longrightarrow>
        meta_name (vsc_meta t) = sprintf_dash (vsc_host (vsc_spec t)) (meta_name (fork_meta fork)))"

lemma labelled_service_copy_original:
  "range_order ord \<Longrightarrow> original_name (meta_labels (svc_meta (labelled_service_copy ord a s))) =
      meta_name (svc_meta s)"
  by (simp add: labelled_service_copy_def build_service_copy_def Let_def original_name_def
      original_service_label_key_def fork_identifier_label_key_def)

text \<open>A list whose default names are made of the identities is well named when the objects are.\<close>

lemma well_namedI:
  assumes "\<And>x. x \<in> set (ol_items lst) \<Longrightarrow> \<exists>i. ol_identity lst (Typed x) = Ok i \<and>
      default_name env parent lst x = Ok (g i)"
    and "\<And>k x y i. m k = Some x \<Longrightarrow> in_parent_namespace parent k \<Longrightarrow> owned_by_parent env (obj_meta x) parent \<Longrightarrow>
      ol_identity lst (Typed x) = Ok i \<Longrightarrow> y \<in> set (ol_items lst) \<Longrightarrow> ol_identity lst (Typed y) = Ok i \<Longrightarrow>
      meta_name (obj_meta x) = g i"
  shows "well_named env parent lst m"
  unfolding well_named_def
proof (intro allI impI)
  fix k x y
  assume x: "m k = Some x" "in_parent_namespace parent k" "owned_by_parent env (obj_meta x) parent"
    and y: "y \<in> set (ol_items lst)" "ol_identity lst (Typed y) = ol_identity lst (Typed x)"
  from assms(1) [OF y(1)] obtain i where i: "ol_identity lst (Typed y) = Ok i"
      "default_name env parent lst y = Ok (g i)"
    by blast
  with assms(2) [OF x _ y(1), of i] y(2) show "default_name env parent lst y =
      Ok (meta_name (obj_meta x))" by simp
qed

context routed_cluster
begin

lemma build_app_reads:
  assumes "build_app env ord fork w = (Ok a, w')"
  shows "app_fork a = fork"
    and "(\<lambda>s. (svc_meta s, svc_spec s)) ` set (app_services a) =
      (\<lambda>s. (svc_meta s, svc_spec s)) ` target_services env objs fork w"
    and "\<exists>slug fm. parse_manager_slug (spec_manager (fork_spec fork)) = Ok slug \<and> mgrs w slug = Some fm \<and>
      app_fork_header a = fm_header_key (fm_spec fm)"
proof -
  from assms obtain h ss ex mps w1 w2 w3 where
    h: "get_fork_header_key env fork w = (Ok h, w1)" and ss: "fork_target_services env fork w1 = (Ok ss, w2)"
    and a: "a = (case mps of (ds, ns) \<Rightarrow> \<lparr>app_services = ss, app_deployments = sorted_deployments ord ds,
      app_existing_copied_services = ex, app_deploy_name_to_service_names = inverse_map ord ns,
      app_fork_header = h, app_fork = fork\<rparr>)"
    by (auto simp: build_app_def eff_simps split: prod.splits)
  show "app_fork a = fork" by (simp add: a split: prod.split)
  have hk: "app_fork_header a = h" and sk: "app_services a = ss" by (simp_all add: a split: prod.split)
  from h obtain slug fm where slug: "parse_manager_slug (spec_manager (fork_spec fork)) = Ok slug"
    and fm: "api_get (env_fork_managers env) slug w = (Ok fm, w1)" "h = fm_header_key (fm_spec fm)"
    by (auto simp: get_fork_header_key_def eff_simps)
  with manager_found [OF fm(1)] hk
  show "\<exists>slug fm. parse_manager_slug (spec_manager (fork_spec fork)) = Ok slug \<and> mgrs w slug = Some fm \<and>
      app_fork_header a = fm_header_key (fm_spec fm)" by auto
  have w1: "objs w1 = objs w" using keepsD [OF managers_read(1) fm(1)] by simp
  show "(\<lambda>s. (svc_meta s, svc_spec s)) ` set (app_services a) =
      (\<lambda>s. (svc_meta s, svc_spec s)) ` target_services env objs fork w"
  proof (cases "spec_services (fork_spec fork)")
    case None
    with ss sk show ?thesis by (simp add: fork_target_services_def target_services_def)
  next
    case (Some sv)
    with ss obtain sel where sel: "env_label_selector_as_selector env (fs_selector sv) = Ok sel"
      and list: "api_list (env_services env)
        \<lparr>lo_selector = Some sel, lo_namespace = meta_namespace (fork_meta fork)\<rparr> w1 = (Ok ss, w2)"
      by (auto simp: fork_target_services_def eff_simps)
    from services_listed [OF list] Some sel show ?thesis
      by (auto simp: target_services_def sk w1 image_def)
  qed
qed

lemma app_services_targets:
  assumes "build_app env ord fork w = (Ok a, w')"
  shows "s \<in> set (app_services a) \<Longrightarrow>
      \<exists>t \<in> target_services env objs fork w. svc_meta t = svc_meta s \<and> svc_spec t = svc_spec s"
    and "t \<in> target_services env objs fork w \<Longrightarrow>
      \<exists>s \<in> set (app_services a). svc_meta s = svc_meta t \<and> svc_spec s = svc_spec t"
proof -
  note eq = build_app_reads(2) [OF assms]
  show "\<exists>t \<in> target_services env objs fork w. svc_meta t = svc_meta s \<and> svc_spec t = svc_spec s"
    if "s \<in> set (app_services a)"
    using imageI [OF that, of "\<lambda>s. (svc_meta s, svc_spec s)"] unfolding eq by auto
  show "\<exists>s \<in> set (app_services a). svc_meta s = svc_meta t \<and> svc_spec s = svc_spec t"
    if "t \<in> target_services env objs fork w"
    using imageI [OF that, of "\<lambda>s. (svc_meta s, svc_spec s)"] unfolding eq [symmetric] by auto
qed

lemma app_names:
  assumes "build_app env ord fork w = (Ok a, w')" and "range_order ord"
    and "meta_namespace (fork_meta fork) \<noteq> ''''" and "names_fit env objs deps fork w"
  shows "short_names a" "distinct_originals a"
proof -
  have fork: "app_fork a = fork" by (rule build_app_reads(1) [OF assms(1)])
  show "short_names a"
    unfolding short_names_def fork
  proof (intro conjI ballI)
    fix s
    assume "s \<in> set (app_services a)"
    from app_services_targets(1) [OF assms(1) this] assms(4) show "length (service_name s fork) \<le> 63"
      by (auto simp: names_fit_def service_name_def)
  next
    fix d
    assume "d \<in> set (app_deployments a)"
    with steady.build_app_deployments(1) [OF assms(1-3)] assms(4) show "length (copy_name d fork) \<le> 63"
      by (auto simp: names_fit_def)
  qed
  have "distinct (map (\<lambda>s. meta_name (svc_meta s)) (app_services a))"
    by (rule steady.build_app_Ok [OF assms(1)]) (use assms(3) in simp)
  with steady.build_app_deployments(3) [OF assms(1-3)] show "distinct_originals a"
    by (simp add: distinct_originals_def)
qed

end

section \<open>What an update of a fork leaves\<close>

definition copied_deployments ::
  "('w, 'u) env \<Rightarrow> 'w object_view \<Rightarrow> ('w \<Rightarrow> list_options \<Rightarrow> deployment list) \<Rightarrow> fork \<Rightarrow> 'w \<Rightarrow> deployment set" where
  "copied_deployments env objs deps fork w =
     {d \<in> set (candidate_deployments env deps fork w). \<exists>t \<in> target_services env objs fork w.
         routable_from env d t}"

context routed_cluster
begin

lemma app_deployments_copied:
  assumes "build_app env ord fork w = (Ok a, w')" and "range_order ord"
    and "meta_namespace (fork_meta fork) \<noteq> ''''"
  shows "set (app_deployments a) = copied_deployments env objs deps fork w"
  unfolding steady.build_app_deployments(1) [OF assms] copied_deployments_def
  using app_services_targets [OF assms(1)] by (auto simp: routable_from_def) metis+

end

text \<open>Where the objects of a fork are stored: one place per target service and copied deployment.\<close>

fun fork_keys ::
  "('w, 'u) env \<Rightarrow> 'w object_view \<Rightarrow> ('w \<Rightarrow> list_options \<Rightarrow> deployment list) \<Rightarrow> fork \<Rightarrow> 'w \<Rightarrow>
   resource \<Rightarrow> namespaced_name set" where
  "fork_keys env objs deps fork w RDeploymentCopy =
     (\<lambda>d. NN (meta_namespace (fork_meta fork)) (copy_name d fork)) ` copied_deployments env objs deps fork w"
| "fork_keys env objs deps fork w RVirtualService = {}"
| "fork_keys env objs deps fork w _ =
     (\<lambda>t. NN (meta_namespace (fork_meta fork)) (service_name t fork)) ` target_services env objs fork w"

definition owned_at ::
  "('w, 'u) env \<Rightarrow> owner \<Rightarrow> (namespaced_name \<Rightarrow> client_object option) \<Rightarrow> namespaced_name \<Rightarrow> bool" where
  "owned_at env parent m k \<longleftrightarrow>
     in_parent_namespace parent k \<and> (\<exists>x. m k = Some x \<and> owned_by_parent env (obj_meta x) parent)"

lemma realised_owned_at:
  assumes "realised env scheme parent lst m" and "\<And>k x. m k = Some x \<Longrightarrow> meta_key (obj_meta x) = k"
    and "meta_namespace (ow_meta parent) \<noteq> ''''" "ow_gvk parent = scheme (ow_go_type parent)"
    and "\<forall>x \<in> set (ol_items lst). default_name env parent lst x = Ok (meta_name (obj_meta x))"
  shows "owned_at env parent m k \<longleftrightarrow>
    k \<in> (\<lambda>x. NN (meta_namespace (ow_meta parent)) (meta_name (obj_meta x))) ` set (ol_items lst)"
proof
  assume "owned_at env parent m k"
  then obtain s where s: "m k = Some s" "in_parent_namespace parent k" "owned_by_parent env (obj_meta s) parent"
    by (auto simp: owned_at_def)
  with assms(1) obtain x where x: "x \<in> set (ol_items lst)" "default_name env parent lst x =
      Ok (meta_name (obj_meta s))"
    unfolding realised_def by metis
  have "k = NN (nn_namespace k) (meta_name (obj_meta s))" using assms(2) [OF s(1)] by (auto simp: meta_key_def)
  moreover have "nn_namespace k = meta_namespace (ow_meta parent)" using s(2) assms(3)
    by (simp add: in_parent_namespace_def)
  ultimately show "k \<in> (\<lambda>x. NN (meta_namespace (ow_meta parent)) (meta_name (obj_meta x))) ` set (ol_items lst)"
    using x assms(5) by (intro image_eqI [of _ _ x]) auto
next
  assume "k \<in> (\<lambda>x. NN (meta_namespace (ow_meta parent)) (meta_name (obj_meta x))) ` set (ol_items lst)"
  then obtain x where x: "x \<in> set (ol_items lst)"
      "k = NN (meta_namespace (ow_meta parent)) (meta_name (obj_meta x))" by auto
  with assms(1,5) obtain s where "m k = Some s" "written env scheme parent (meta_name (obj_meta x)) x s"
    unfolding realised_def by auto
  with x(2) written_owned [of env scheme parent, OF _ assms(4)] show "owned_at env parent m k"
    by (auto simp: owned_at_def in_parent_namespace_def)
qed

text \<open>The lists of an application are well named among the objects of a fork that the program has named.\<close>

lemma copies_well_named:
  assumes "short_names a" "distinct_originals a" "generate_deployment_copies ord a = Ok dcs" "range_order ord"
  shows "well_named env parent dcs m"
proof (rule well_namedI [where g = "\<lambda>n. n"])
  have id: "ol_identity dcs = (\<lambda>obj. Ok (meta_name (any_meta obj)))"
    using assms(3) by (auto simp: generate_deployment_copies_def result_simps)
  show "\<exists>i. ol_identity dcs (Typed x) = Ok i \<and> default_name env parent dcs x = Ok i"
      if "x \<in> set (ol_items dcs)" for x
    using deployment_copy_default_names(1) [OF assms that] by (simp add: id)
  show "meta_name (obj_meta x) = i" if "ol_identity dcs (Typed x) = Ok i" for x i using that by (simp add: id)
qed

context routed_cluster
begin

lemma services_well_named:
  assumes "short_names a" "distinct_originals a" "range_order ord" "app_fork a = fork"
      "program_named env objs fork w"
  shows "well_named env (fork_owner fork) (generate_services ord a) (objs w RService)"
proof (rule well_namedI [where g = "\<lambda>n. sprintf_dash n (meta_name (fork_meta fork))"])
  fix x
  assume "x \<in> set (ol_items (generate_services ord a :: 'u object_list))"
  then obtain s where s: "s \<in> set (app_services a)" "x = OService (labelled_service_copy ord a s)"
    by (auto simp: generate_services_def)
  then show "\<exists>i. ol_identity (generate_services ord a :: 'u object_list) (Typed x) = Ok i \<and>
      default_name env (fork_owner fork) (generate_services ord a) x =
          Ok (sprintf_dash i (meta_name (fork_meta fork)))"
    using service_default_names(1) [OF assms(1,2) s(1)] labelled_service_copy_original [OF assms(3), of a s]
    by (simp add: generate_services_def original_name_def [symmetric] service_name_def assms(4))
next
  fix k x i
  assume x: "objs w RService k = Some x" "in_parent_namespace (fork_owner fork) k"
    "owned_by_parent env (obj_meta x) (fork_owner fork)"
        "ol_identity (generate_services ord a :: 'u object_list) (Typed x) = Ok i"
  from stored_service [OF x(1)] obtain t where "x = OService t" ..
  with x assms(5) show "meta_name (obj_meta x) = sprintf_dash i (meta_name (fork_meta fork))"
    by (auto simp: program_named_def generate_services_def original_name_def [symmetric])
qed

lemma vsconfigs_well_named:
  assumes "short_names a" "distinct_originals a" "app_fork a = fork" "program_named env objs fork w"
  shows "well_named env (fork_owner fork) (generate_vsconfigs env a) (objs w RVSConfig)"
proof (rule well_namedI [where g = "\<lambda>n. sprintf_dash n (meta_name (fork_meta fork))"])
  fix x
  assume "x \<in> set (ol_items (generate_vsconfigs env a))"
  then obtain s where s: "s \<in> set (app_services a)"
      "x = OVSConfig (build_vsconfig s (app_fork a) (app_fork_header a))"
    by (auto simp: generate_vsconfigs_def)
  then show "\<exists>i. ol_identity (generate_vsconfigs env a) (Typed x) = Ok i \<and>
      default_name env (fork_owner fork) (generate_vsconfigs env a) x =
          Ok (sprintf_dash i (meta_name (fork_meta fork)))"
    using vsconfig_default_names(1) [OF assms(1,2) s(1)]
    by (simp add: generate_vsconfigs_def service_name_def assms(3) build_vsconfig_def)
next
  fix k x i
  assume x: "objs w RVSConfig k = Some x" "in_parent_namespace (fork_owner fork) k"
    "owned_by_parent env (obj_meta x) (fork_owner fork)"
        "ol_identity (generate_vsconfigs env a) (Typed x) = Ok i"
  from stored_vsconfig [OF x(1)] obtain t where "x = OVSConfig t" ..
  with x assms(4) show "meta_name (obj_meta x) = sprintf_dash i (meta_name (fork_meta fork))"
    by (auto simp: program_named_def generate_vsconfigs_def)
qed

text \<open>
  A successful update of a fork: the application it built is about the target services and the
  manager's header, and its three lists have been realised.
\<close>

lemma fork_update_realised:
  assumes "microservice_update env ord q w = (Ok u, w')" and "range_order ord" and "frks w q = Some fork"
    and "nn_namespace q \<noteq> ''''" "names_fit env objs deps fork w" "program_named env objs fork w"
  obtains a dcs where
    "app_fork a = fork" "short_names a" "distinct_originals a" "generate_deployment_copies ord a = Ok dcs"
    "(\<lambda>s. (svc_meta s, svc_spec s)) ` set (app_services a) =
      (\<lambda>s. (svc_meta s, svc_spec s)) ` target_services env objs fork w"
    "set (app_deployments a) = copied_deployments env objs deps fork w"
    "\<exists>slug fm. parse_manager_slug (spec_manager (fork_spec fork)) = Ok slug \<and> mgrs w slug = Some fm \<and>
      app_fork_header a = fm_header_key (fm_spec fm)"
    "realised env scheme (fork_owner fork) dcs (objs w' RDeploymentCopy)"
    "realised env scheme (fork_owner fork) (generate_services ord a) (objs w' RService)"
    "realised env scheme (fork_owner fork) (generate_vsconfigs env a) (objs w' RVSConfig)"
    "\<exists>v v'. build_app env ord fork v = (Ok a, v')"
proof -
  from microservice_update_done [OF assms(1-3)] obtain w0 a w1 dcs where
    get: "api_get (env_forks env) q w = (Ok fork, w0)" and build: "build_app env ord fork w0 = (Ok a, w1)"
    and dcs: "generate_deployment_copies ord a = Ok dcs"
    and real: "short_names a \<Longrightarrow> distinct_originals a \<Longrightarrow>
     (well_named env (fork_owner fork) dcs (objs w RDeploymentCopy) \<longrightarrow>
        realised env scheme (fork_owner fork) dcs (objs w' RDeploymentCopy)) \<and>
     (well_named env (fork_owner fork) (generate_services ord a) (objs w RService) \<longrightarrow>
        realised env scheme (fork_owner fork) (generate_services ord a) (objs w' RService)) \<and>
     (well_named env (fork_owner fork) (generate_vsconfigs env a) (objs w RVSConfig) \<longrightarrow>
        realised env scheme (fork_owner fork) (generate_vsconfigs env a) (objs w' RVSConfig))" by blast
  have w0: "objs w0 = objs w" "deps w0 = deps w" "mgrs w0 = mgrs w"
    using keepsD [OF forks_read(1) get] keepsD [OF steady_reads(1) get] by simp_all
  have cands: "candidate_deployments env deps fork w0 = candidate_deployments env deps fork w"
    by (simp only: candidate_deployments_def w0)
  have targets: "target_services env objs fork w0 = target_services env objs fork w"
    by (simp only: target_services_def w0)
  have fit: "names_fit env objs deps fork w0" using assms(5) by (simp only: names_fit_def cands targets)
  have ns: "meta_namespace (fork_meta fork) \<noteq> ''''"
    using fork_typed [OF assms(3)] assms(4) by (auto simp: meta_key_def)
  note fork = build_app_reads(1) [OF build] and names = app_names [OF build assms(2) ns fit]
  note named = copies_well_named [OF names dcs assms(2)] services_well_named [OF names assms(2) fork assms(6)]
    vsconfigs_well_named [OF names fork assms(6)]
  have "set (app_deployments a) = copied_deployments env objs deps fork w"
    using app_deployments_copied [OF build assms(2) ns] by (simp only: copied_deployments_def cands targets)
  with named show thesis
    using that [OF fork names dcs _ _ _ conjunct1 [OF real [OF names], THEN mp]]
      build_app_reads(2,3) [OF build] real [OF names] build by (simp only: targets w0) blast
qed

end

text \<open>The labels of the copy of a service, and whether the selector of the fork admits labels.\<close>

definition copy_labels :: "fork \<Rightarrow> string \<Rightarrow> labels" where
  "copy_labels fork n =
     fmupd fork_identifier_label_key (spec_identifier (fork_spec fork))
         (fmupd original_service_label_key n fmempty)"

definition selects_service :: "('w, 'u) env \<Rightarrow> fork \<Rightarrow> labels \<Rightarrow> bool" where
  "selects_service env fork ls \<longleftrightarrow>
     (case spec_services (fork_spec fork) of
        None \<Rightarrow> False
      | Some services \<Rightarrow>
          (case env_label_selector_as_selector env (fs_selector services) of Ok sel \<Rightarrow> sel ls | _ \<Rightarrow> False))"

lemma target_services_iff:
  "t \<in> target_services env objs fork w \<longleftrightarrow>
   (\<exists>k. objs w RService k = Some (OService t)) \<and> selects_service env fork (meta_labels (svc_meta t)) \<and>
   (meta_namespace (fork_meta fork) = '''' \<or> meta_namespace (svc_meta t) = meta_namespace (fork_meta fork))"
  by (auto simp: target_services_def selects_service_def admits_def split: option.splits result.splits)

lemma labelled_service_copy_labels [simp]:
  "range_order ord \<Longrightarrow>
   meta_labels (svc_meta (labelled_service_copy ord a s)) = copy_labels (app_fork a) (meta_name (svc_meta s))"
  by (simp add: labelled_service_copy_def build_service_copy_def Let_def copy_labels_def)

lemma copy_labels_original [simp]: "original_name (copy_labels fork n) = n"
  by (simp add: original_name_def copy_labels_def original_service_label_key_def fork_identifier_label_key_def)

lemma deployment_copies_names:
  assumes "generate_deployment_copies ord a = Ok lst" and "range_order ord"
  shows "map (\<lambda>x. meta_name (obj_meta x)) (ol_items lst) = map (\<lambda>d. copy_name d (app_fork a))
      (app_deployments a)"
proof -
  from assms(1) have "list_all2 (\<lambda>d x. meta_name (obj_meta x) = copy_name d (app_fork a))
      (app_deployments a) (ol_items lst)"
    by (auto simp: generate_deployment_copies_def result_simps map_results_eq_Ok copy_name_def
        build_deployment_copy_Ok(1) [OF _ assms(2)] elim!: list_all2_mono)
  then show ?thesis by (induction rule: list_all2_induct) simp_all
qed

lemma image_pair_eq:
  assumes "(\<lambda>s. (f s, g s)) ` A = (\<lambda>s. (f s, g s)) ` B"
  shows "(\<lambda>s. h (f s) (g s)) ` A = (\<lambda>s. h (f s) (g s)) ` B"
  using arg_cong [OF assms, of "(`) (\<lambda>(x, y). h x y)"] by (simp add: image_image)

context routed_cluster
begin

lemma fork_namespace:
  "frks w q = Some fork \<Longrightarrow> meta_namespace (fork_meta fork) = nn_namespace q \<and>
   meta_namespace (ow_meta (fork_owner fork)) = nn_namespace q \<and>
   ow_gvk (fork_owner fork) = scheme (ow_go_type (fork_owner fork))"
  by (drule fork_typed) (auto simp: meta_key_def fork_owner_def)

text \<open>The names under which the objects of the three lists are kept are those of \<open>fork_keys\<close>.\<close>

lemma fork_list_named:
  assumes "app_fork a = fork" "short_names a" "distinct_originals a" and "range_order ord"
    and "generate_deployment_copies ord a = Ok dcs"
  shows "\<forall>x \<in> set (ol_items dcs). default_name env (fork_owner fork) dcs x = Ok (meta_name (obj_meta x))"
    and "\<forall>x \<in> set (ol_items (generate_services ord a :: 'u object_list)).
      default_name env (fork_owner fork) (generate_services ord a) x = Ok (meta_name (obj_meta x))"
    and "\<forall>x \<in> set (ol_items (generate_vsconfigs env a)).
      default_name env (fork_owner fork) (generate_vsconfigs env a) x = Ok (meta_name (obj_meta x))"
  using deployment_copy_default_names(1) [OF assms(2,3,5,4)] service_default_names(1) [OF assms(2,3)]
    vsconfig_default_names(1) [OF assms(2,3)]
  by (auto simp: generate_services_def generate_vsconfigs_def assms(1))

lemma fork_list_keys:
  assumes "app_fork a = fork" and "range_order ord" and "generate_deployment_copies ord a = Ok dcs"
    and "(\<lambda>s. (svc_meta s, svc_spec s)) ` set (app_services a) = (\<lambda>s. (svc_meta s, svc_spec s)) ` T"
  shows "(\<lambda>x. NN ns (meta_name (obj_meta x))) ` set (ol_items dcs) = (\<lambda>d. NN ns (copy_name d fork)) `
      set (app_deployments a)"
    and "(\<lambda>x. NN ns (meta_name (obj_meta x))) ` set (ol_items (generate_services ord a :: 'u object_list)) =
      (\<lambda>s. NN ns (service_name s fork)) ` T"
    and "(\<lambda>x. NN ns (meta_name (obj_meta x))) ` set (ol_items (generate_vsconfigs env a)) =
      (\<lambda>s. NN ns (service_name s fork)) ` T"
proof -
  show "(\<lambda>x. NN ns (meta_name (obj_meta x))) ` set (ol_items dcs) = (\<lambda>d. NN ns (copy_name d fork)) ` set
      (app_deployments a)"
    using arg_cong [OF deployment_copies_names [OF assms(3,2)], of "\<lambda>xs. NN ns ` set xs"]
    by (simp add: image_image assms(1))
  have "(\<lambda>s. NN ns (service_name s fork)) ` set (app_services a) = (\<lambda>s. NN ns (service_name s fork)) ` T"
    using image_pair_eq [OF assms(4), of
        "\<lambda>m _. NN ns (sprintf_dash (meta_name m) (meta_name (fork_meta fork)))"]
    by (simp add: service_name_def)
  then show "(\<lambda>x. NN ns (meta_name (obj_meta x))) ` set (ol_items (generate_services ord a :: 'u object_list)) =
      (\<lambda>s. NN ns (service_name s fork)) ` T"
    "(\<lambda>x. NN ns (meta_name (obj_meta x))) ` set (ol_items (generate_vsconfigs env a)) =
      (\<lambda>s. NN ns (service_name s fork)) ` T"
    by (simp_all add: generate_services_def generate_vsconfigs_def image_image assms(1))
qed

lemma fork_update_owned:
  assumes "microservice_update env ord q w = (Ok u, w')" and "range_order ord" and "frks w q = Some fork"
    and "nn_namespace q \<noteq> ''''" "names_fit env objs deps fork w" "program_named env objs fork w"
    and "r \<in> set fork_resources"
  shows "owned_at env (fork_owner fork) (objs w' r) k \<longleftrightarrow> k \<in> fork_keys env objs deps fork w r"
proof (rule fork_update_realised [OF assms(1-6)])
  fix a dcs
  assume fork: "app_fork a = fork" and names: "short_names a" "distinct_originals a"
    and dcs: "generate_deployment_copies ord a = Ok dcs"
    and services: "(\<lambda>s. (svc_meta s, svc_spec s)) ` set (app_services a) =
      (\<lambda>s. (svc_meta s, svc_spec s)) ` target_services env objs fork w"
    and deployments: "set (app_deployments a) = copied_deployments env objs deps fork w"
    and realised: "realised env scheme (fork_owner fork) dcs (objs w' RDeploymentCopy)"
      "realised env scheme (fork_owner fork) (generate_services ord a) (objs w' RService)"
      "realised env scheme (fork_owner fork) (generate_vsconfigs env a) (objs w' RVSConfig)"
  note ns = fork_namespace [OF assms(3)]
  have keys: "owned_at env (fork_owner fork) (objs w' r) k \<longleftrightarrow>
      k \<in> (\<lambda>x. NN (nn_namespace q) (meta_name (obj_meta x))) ` set (ol_items lst)"
    if "realised env scheme (fork_owner fork) lst (objs w' r)"
      "\<forall>x \<in> set (ol_items lst). default_name env (fork_owner fork) lst x = Ok (meta_name (obj_meta x))"
          for r lst
    using realised_owned_at [OF that(1) view_key _ _ that(2)] ns assms(4) by simp
  note named = fork_list_named [OF fork names assms(2) dcs]
  note listed = fork_list_keys [OF fork assms(2) dcs services, of "nn_namespace q"]
  from assms(7) consider "r = RDeploymentCopy" | "r = RService" | "r = RVSConfig"
    by (auto simp: fork_resources_def)
  then show ?thesis
    using keys [OF realised(1) named(1)] keys [OF realised(2) named(2)] keys [OF realised(3) named(3)]
        ns deployments
    by cases (simp_all add: listed)
qed

end

section \<open>The copies of services and their VSConfigs\<close>

text \<open>
  What the copy \<open>c\<close> of the service \<open>t\<close> has to be: its only owner is the fork, and it has the labels of a copy,
  a selector for the pods of this fork and service, and the ports of the service.
\<close>

definition copy_of_service :: "('w, 'u) env \<Rightarrow> fork \<Rightarrow> service \<Rightarrow> service \<Rightarrow> bool" where
  "copy_of_service env fork t c \<longleftrightarrow>
     owned_by_parent env (svc_meta c) (fork_owner fork) \<and>
     (\<forall>p. owned_by_parent env (svc_meta c) p \<longrightarrow> meta_name (ow_meta p) = meta_name (fork_meta fork)) \<and>
     meta_labels (svc_meta c) = copy_labels fork (meta_name (svc_meta t)) \<and>
     (\<forall>ls. selects (ss_selector (svc_spec c)) ls \<longleftrightarrow>
        fmlookup ls (get_label_key_for_routing_label (meta_name (svc_meta t))) = Some ''true'' \<and>
        fmlookup ls fork_identifier_label_key = Some (spec_identifier (fork_spec fork))) \<and>
     map (\<lambda>p. (sp_name p, sp_port p)) (ss_ports (svc_spec c)) = map (\<lambda>p. (sp_name p, sp_port p))
         (ss_ports (svc_spec t))"

lemma persisted_copy_ports:
  "service_spec_persisted a b \<Longrightarrow>
   map (\<lambda>p. (sp_name p, sp_port p)) (ss_ports b) = map (\<lambda>p. (sp_name p, sp_port p)) (ss_ports a)"
proof -
  assume "service_spec_persisted a b"
  then have "list_all2 (\<lambda>p q. sp_name q = sp_name p \<and> sp_port q = sp_port p) (ss_ports a) (ss_ports b)"
    by (simp add: service_spec_persisted_def)
  then show ?thesis by (induction rule: list_all2_induct) simp_all
qed

lemma written_service_copy:
  assumes "written env scheme (fork_owner fork) name (OService (labelled_service_copy ord a s)) x"
    and "range_order ord" "app_fork a = fork" "ow_gvk (fork_owner fork) = scheme (ow_go_type (fork_owner fork))"
    and "svc_meta s = svc_meta t" "svc_spec s = svc_spec t"
  shows "\<exists>c. x = OService c \<and> copy_of_service env fork t c"
proof -
  from assms(1) obtain c where c: "x = OService c"
    and spec: "service_spec_persisted (svc_spec (labelled_service_copy ord a s)) (svc_spec c)"
    by (cases x) (auto simp: written_def)
  have "selects (ss_selector (svc_spec c)) ls \<longleftrightarrow>
      selects (ss_selector (svc_spec (build_service_copy s fork ex))) ls" for ls ex
    using spec by (simp add: service_spec_persisted_def labelled_service_copy_def Let_def
        build_service_copy_def assms(3))
  moreover have "map (\<lambda>p. (sp_name p, sp_port p)) (ss_ports (svc_spec c)) =
      map (\<lambda>p. (sp_name p, sp_port p)) (ss_ports (svc_spec t))"
    using persisted_copy_ports [OF spec]
    by (simp add: labelled_service_copy_def Let_def build_service_copy_def copy_service_port_def assms(6))
  moreover have "meta_owner_refs (svc_meta c) = [controller_ref env scheme (fork_owner fork)]"
    using assms(1) by (simp add: c written_def labelled_service_copy_def Let_def build_service_copy_def)
  then have "\<forall>p. owned_by_parent env (svc_meta c) p \<longrightarrow> meta_name (ow_meta p) = meta_name (fork_meta fork)"
    by (auto simp: owned_by_parent_def controller_ref_def fork_owner_def)
  ultimately have "copy_of_service env fork t c"
    using assms(1-5) written_owned [OF assms(1,4)]
    by (simp add: copy_of_service_def c written_def service_copy_selects)
  with c show ?thesis by simp
qed

context routed_cluster
begin

lemma fork_update_services:
  assumes "microservice_update env ord q w = (Ok u, w')" and "range_order ord" and "frks w q = Some fork"
    and "nn_namespace q \<noteq> ''''" "names_fit env objs deps fork w" "program_named env objs fork w"
    and "t \<in> target_services env objs fork w"
  shows "(\<exists>c. objs w' RService (NN (nn_namespace q) (service_name t fork)) = Some (OService c) \<and>
      copy_of_service env fork t c) \<and>
    (\<exists>slug fm v. parse_manager_slug (spec_manager (fork_spec fork)) = Ok slug \<and> mgrs w slug = Some fm \<and>
      objs w' RVSConfig (NN (nn_namespace q) (service_name t fork)) = Some (OVSConfig v) \<and>
      vsc_spec v = vsc_spec (build_vsconfig t fork (fm_header_key (fm_spec fm))))"
proof (rule fork_update_realised [OF assms(1-6)])
  fix a dcs
  assume a: "app_fork a = fork" and names: "short_names a" "distinct_originals a"
    and services: "(\<lambda>s. (svc_meta s, svc_spec s)) ` set (app_services a) =
      (\<lambda>s. (svc_meta s, svc_spec s)) ` target_services env objs fork w"
    and header: "\<exists>slug fm. parse_manager_slug (spec_manager (fork_spec fork)) = Ok slug \<and>
        mgrs w slug = Some fm \<and>
      app_fork_header a = fm_header_key (fm_spec fm)"
    and real: "realised env scheme (fork_owner fork) (generate_services ord a) (objs w' RService)"
      "realised env scheme (fork_owner fork) (generate_vsconfigs env a) (objs w' RVSConfig)"
  note ns = fork_namespace [OF assms(3)]
  from imageI [OF assms(7), of "\<lambda>s. (svc_meta s, svc_spec s)"] obtain s where
    s: "s \<in> set (app_services a)" "svc_meta s = svc_meta t" "svc_spec s = svc_spec t"
    unfolding services [symmetric] by auto
  then have name: "service_name s fork = service_name t fork" by (simp add: service_name_def)
  have "OService (labelled_service_copy ord a s) \<in> set (ol_items (generate_services ord a :: 'u object_list))"
    using s(1) by (auto simp: generate_services_def)
  with real(1) service_default_names(1) [OF names s(1), of env "fork_owner fork" ord] obtain x where
    x: "objs w' RService (NN (nn_namespace q) (service_name t fork)) = Some x"
      "written env scheme (fork_owner fork) (service_name t fork) (OService (labelled_service_copy ord a s)) x"
    unfolding realised_def by (auto simp: ns a name)
  have "OVSConfig (build_vsconfig s fork (app_fork_header a)) \<in> set (ol_items (generate_vsconfigs env a))"
    using s(1) by (auto simp: generate_vsconfigs_def a)
  with real(2) vsconfig_default_names(1) [OF names s(1), of env "fork_owner fork"] obtain y where
    y: "objs w' RVSConfig (NN (nn_namespace q) (service_name t fork)) = Some y"
      "written env scheme (fork_owner fork) (service_name t fork)
          (OVSConfig (build_vsconfig s fork (app_fork_header a))) y"
    unfolding realised_def by (auto simp: ns a name)
  from y(2) obtain v where "y = OVSConfig v" "vsc_spec v = vsc_spec (build_vsconfig t fork (app_fork_header a))"
    by (cases y) (auto simp: written_def build_vsconfig_def s service_name_def)
  with y(1) header x(1) written_service_copy [OF x(2) assms(2) a _ s(2,3)] ns show ?thesis by auto
qed

text \<open>Conversely, what the fork owns afterwards is one of these.\<close>

lemma fork_update_owned_services:
  assumes "microservice_update env ord q w = (Ok u, w')" and "range_order ord" and "frks w q = Some fork"
    and "nn_namespace q \<noteq> ''''" "names_fit env objs deps fork w" "program_named env objs fork w"
    and "r = RService \<or> r = RVSConfig" and "owned_at env (fork_owner fork) (objs w' r) k"
  obtains t where "t \<in> target_services env objs fork w" "k = NN (nn_namespace q) (service_name t fork)"
proof -
  have "r \<in> set fork_resources" using assms(7) by (auto simp: fork_resources_def)
  from fork_update_owned [OF assms(1-6) this, of k] assms(7,8) fork_namespace [OF assms(3)] that
  show thesis by auto
qed

end

section \<open>The copies of deployments\<close>

text \<open>
  What is left of a deployment to copy: a DeploymentCopy with its name and the routing labels, so
  that the copy of a target service selects the pods of the copy exactly when the service
  selects those of the deployment.
\<close>

definition copy_of_deployment ::
  "('w, 'u) env \<Rightarrow> fork \<Rightarrow> service set \<Rightarrow> deployment \<Rightarrow> deployment_copy \<Rightarrow> bool" where
  "copy_of_deployment env fork ts d dc \<longleftrightarrow>
     owned_by_parent env (dc_meta dc) (fork_owner fork) \<and>
     dc_target_deployment_name (dc_spec dc) = meta_name (dep_meta d) \<and>
     (\<forall>t \<in> ts. \<forall>c. copy_of_service env fork t c \<longrightarrow> template_keeps_routing fork (meta_name (svc_meta t)) \<longrightarrow>
        (selects (ss_selector (svc_spec c)) (dc_custom_labels (dc_spec dc)) \<longleftrightarrow> routable_from env d t))"

lemma list_all2_split_obtain:
  assumes "list_all2 P xs ys" and "x \<in> set xs"
  obtains y where "y \<in> set ys" "P x y"
  using assms by (induction rule: list_all2_induct) auto

lemma deployment_copies_of:
  assumes "generate_deployment_copies ord a = Ok lst" and "d \<in> set (app_deployments a)"
  obtains c where "build_deployment_copy ord d (app_fork a)
      (lookup_list (app_deploy_name_to_service_names a) (meta_name (dep_meta d))) = Ok c"
    and "ODeploymentCopy c \<in> set (ol_items lst)"
proof -
  from assms(1) have "list_all2 (\<lambda>d x. \<exists>c. build_deployment_copy ord d (app_fork a)
      (lookup_list (app_deploy_name_to_service_names a) (meta_name (dep_meta d))) = Ok c \<and>
          x = ODeploymentCopy c)
    (app_deployments a) (ol_items lst)"
    by (auto simp: generate_deployment_copies_def result_simps map_results_eq_Ok elim!: list_all2_mono)
  from list_all2_split_obtain [OF this assms(2)] that show thesis by blast
qed

lemma image_pairD:
  assumes "(\<lambda>s. (f s, g s)) ` A = (\<lambda>s. (f s, g s)) ` B" and "x \<in> B"
  shows "\<exists>y \<in> A. f y = f x \<and> g y = g x"
  using imageI [OF assms(2), of "\<lambda>s. (f s, g s)"] unfolding assms(1) [symmetric] by auto

context routed_cluster
begin

lemma fork_update_deployments:
  assumes "microservice_update env ord q w = (Ok u, w')" and "range_order ord" and "frks w q = Some fork"
    and "nn_namespace q \<noteq> ''''" "names_fit env objs deps fork w" "program_named env objs fork w"
    and "d \<in> copied_deployments env objs deps fork w"
  shows "\<exists>dc. objs w' RDeploymentCopy (NN (nn_namespace q) (copy_name d fork)) = Some (ODeploymentCopy dc) \<and>
    copy_of_deployment env fork (target_services env objs fork w) d dc"
proof (rule fork_update_realised [OF assms(1-6)])
  fix a dcs
  assume a: "app_fork a = fork" and names: "short_names a" "distinct_originals a"
    and dcs: "generate_deployment_copies ord a = Ok dcs"
    and services: "(\<lambda>s. (svc_meta s, svc_spec s)) ` set (app_services a) =
      (\<lambda>s. (svc_meta s, svc_spec s)) ` target_services env objs fork w"
    and deployments: "set (app_deployments a) = copied_deployments env objs deps fork w"
    and real: "realised env scheme (fork_owner fork) dcs (objs w' RDeploymentCopy)"
    and "\<exists>v v'. build_app env ord fork v = (Ok a, v')"
  then obtain v v' where build: "build_app env ord fork v = (Ok a, v')" by blast
  note ns = fork_namespace [OF assms(3)]
  let ?names = "lookup_list (app_deploy_name_to_service_names a) (meta_name (dep_meta d))"
  have d: "d \<in> set (app_deployments a)" using assms(7) deployments by simp
  from deployment_copies_of [OF dcs d] obtain c where
    c: "build_deployment_copy ord d fork ?names = Ok c" "ODeploymentCopy c \<in> set (ol_items dcs)"
      unfolding a by blast
  note copy = build_deployment_copy_Ok [OF c(1) assms(2)]
  have "default_name env (fork_owner fork) dcs (ODeploymentCopy c) = Ok (copy_name d fork)"
    using deployment_copy_default_names(1) [OF names dcs assms(2) c(2)] by (simp add: copy(1) copy_name_def)
  with bspec [OF conjunct1 [OF real [unfolded realised_def]] c(2)] obtain x where
    x: "objs w' RDeploymentCopy (NN (nn_namespace q) (copy_name d fork)) = Some x"
      "written env scheme (fork_owner fork) (copy_name d fork) (ODeploymentCopy c) x"
    by (auto simp: ns)
  from x(2) obtain dc where dc: "x = ODeploymentCopy dc" "dc_spec dc = dc_spec c"
    by (cases x) (auto simp: written_def)
  have "selects (ss_selector (svc_spec e)) (dc_custom_labels (dc_spec dc)) \<longleftrightarrow> routable_from env d t"
    if t: "t \<in> target_services env objs fork w" and e: "copy_of_service env fork t e"
      and keeps: "template_keeps_routing fork (meta_name (svc_meta t))" for t e
  proof -
    from image_pairD [OF services t] obtain s where
      s: "s \<in> set (app_services a)" "svc_meta s = svc_meta t" "svc_spec s = svc_spec t" by blast
    have "selects (ss_selector (svc_spec e)) ls \<longleftrightarrow>
        selects (ss_selector (svc_spec (labelled_service_copy ord a s))) ls" for ls
      using e by (simp add: copy_of_service_def labelled_service_copy_def Let_def service_copy_selects a s(2))
    with steady.copies_mirror_routing [OF build assms(2) _ d s(1) c(1)] keeps s assms(4) show ?thesis
      by (simp add: ns dc(2) routable_from_def)
  qed
  with written_owned [OF x(2)] ns dc copy(2) have
      "copy_of_deployment env fork (target_services env objs fork w) d dc"
    by (auto simp: copy_of_deployment_def)
  with x(1) dc(1) show ?thesis by blast
qed

end

section \<open>The specification of an update of a fork\<close>

text \<open>
  What the world has to be after the fork has been updated in the world \<open>w\<close>: the fork owns exactly
  the objects at its keys, every target service has its copy and the VSConfig that routes to
  it, and every copied deployment its DeploymentCopy. The application, the lists and the
  refresher do not appear in it.
\<close>

definition fork_realised ::
  "('w, 'u) env \<Rightarrow> 'w object_view \<Rightarrow> ('w \<Rightarrow> list_options \<Rightarrow> deployment list) \<Rightarrow>
   ('w \<Rightarrow> namespaced_name \<Rightarrow> fork_manager option) \<Rightarrow> fork \<Rightarrow> 'w \<Rightarrow> 'w \<Rightarrow> bool" where
  "fork_realised env objs deps mgrs fork w w' \<longleftrightarrow>
     (let ns = meta_namespace (fork_meta fork); targets = target_services env objs fork w in
      (\<forall>r \<in> set fork_resources. \<forall>k.
         owned_at env (fork_owner fork) (objs w' r) k \<longleftrightarrow> k \<in> fork_keys env objs deps fork w r) \<and>
      (\<forall>t \<in> targets. \<exists>c. objs w' RService (NN ns (service_name t fork)) = Some (OService c) \<and>
          copy_of_service env fork t c) \<and>
      (\<forall>t \<in> targets. \<exists>slug fm v. parse_manager_slug (spec_manager (fork_spec fork)) = Ok slug \<and>
          mgrs w slug = Some fm \<and>
         objs w' RVSConfig (NN ns (service_name t fork)) = Some (OVSConfig v) \<and>
         vsc_spec v = \<lparr>vsc_host = meta_name (svc_meta t), vsc_service = service_name t fork,
           vsc_header_name = fm_header_key (fm_spec fm), vsc_header_value = spec_identifier (fork_spec fork)\<rparr>) \<and>
      (\<forall>d \<in> copied_deployments env objs deps fork w. \<exists>dc.
         objs w' RDeploymentCopy (NN ns (copy_name d fork)) = Some (ODeploymentCopy dc) \<and>
         copy_of_deployment env fork targets d dc))"

context routed_cluster
begin

lemma fork_update_refines:
  assumes "microservice_update env ord q w = (Ok u, w')" and "range_order ord" and "frks w q = Some fork"
    and "nn_namespace q \<noteq> ''''" "names_fit env objs deps fork w" "program_named env objs fork w"
  shows "fork_realised env objs deps mgrs fork w w'"
  unfolding fork_realised_def Let_def conjunct1 [OF fork_namespace [OF assms(3)]]
  using fork_update_owned [OF assms] fork_update_services [OF assms] fork_update_deployments [OF assms]
  by (simp add: build_vsconfig_def)

end

section \<open>Updating a fork again\<close>

text \<open>
  A fork whose selector leaves its own copies alone: it admits no copy's labels, no target is
  owned by the fork, and no copy takes the name of a target.
\<close>

definition leaves_copies ::
  "('w, 'u) env \<Rightarrow> 'w object_view \<Rightarrow> fork \<Rightarrow> 'w \<Rightarrow> bool" where
  "leaves_copies env objs fork w \<longleftrightarrow>
     (\<forall>t \<in> target_services env objs fork w.
        \<not> selects_service env fork (copy_labels fork (meta_name (svc_meta t))) \<and>
        \<not> owned_by_parent env (svc_meta t) (fork_owner fork) \<and>
        (\<forall>s \<in> target_services env objs fork w. service_name s fork \<noteq> meta_name (svc_meta t)))"

context routed_cluster
begin

lemma fork_update_steady:
  assumes "microservice_update env ord q w = (res, w')"
  shows "deps w' = deps w" "mgrs w' = mgrs w" "frks w' = frks w"
    and "candidate_deployments env deps fork w' = candidate_deployments env deps fork w"
proof -
  show deps: "deps w' = deps w" and "mgrs w' = mgrs w" "frks w' = frks w"
    using keepsD [OF microservice_update_steady assms] keepsD [OF microservice_update_keeps assms] by simp_all
  from deps show "candidate_deployments env deps fork w' = candidate_deployments env deps fork w"
    by (simp only: candidate_deployments_def)
qed

text \<open>Whatever the outcome of an update, it writes items of the lists of the application it has built.\<close>

lemma update_writes_items:
  assumes "microservice_update env ord q w = (res, w')" and "range_order ord" and "frks w q = Some fork"
    and "nn_namespace q \<noteq> ''''" "names_fit env objs deps fork w" "program_named env objs fork w"
    and "objs w' r k \<noteq> objs w r k" "objs w' r k = Some x"
  obtains a dcs l y name where "app_fork a = fork" "short_names a" "distinct_originals a"
    "\<forall>s \<in> set (app_services a). \<exists>t \<in> target_services env objs fork w. svc_meta t = svc_meta s \<and>
        svc_spec t = svc_spec s"
    "set (app_deployments a) = copied_deployments env objs deps fork w"
    "generate_deployment_copies ord a = Ok dcs"
    "(l, r) \<in> set (zip [dcs, generate_services ord a, generate_vsconfigs env a] fork_resources)"
    "y \<in> set (ol_items l)" "default_name env (fork_owner fork) l y = Ok name"
    "k = NN (nn_namespace q) name" "written env scheme (fork_owner fork) name y x"
  using assms(1)
proof (cases rule: microservice_update_found)
  case (refreshed fork' w0 a w1 ls)
  have f: "fork' = fork" using fork_get [OF refreshed(1)] assms(3) by simp
  note ns = fork_namespace [OF assms(3)]
  note kind = ns [THEN conjunct2, THEN conjunct2]
  have w0: "objs w0 = objs w" "deps w0 = deps w"
    using refreshed(2) keepsD [OF steady_reads(1) refreshed(1)] by simp_all
  have targets: "target_services env objs fork w0 = target_services env objs fork w"
    by (simp only: target_services_def w0)
  have cands: "candidate_deployments env deps fork w0 = candidate_deployments env deps fork w"
    by (simp only: candidate_deployments_def w0)
  have "names_fit env objs deps fork w0" using assms(5) by (simp only: names_fit_def targets cands)
  then have names: "short_names a" "distinct_originals a"
    using app_names [OF refreshed(3) assms(2), unfolded f] ns assms(4) by simp_all
  have a: "app_fork a = fork" using build_app_reads(1) [OF refreshed(3)] f by simp
  have ns0: "meta_namespace (fork_meta fork) \<noteq> []" using ns assms(4) by simp
  have deployments: "set (app_deployments a) = copied_deployments env objs deps fork w"
    using app_deployments_copied [OF refreshed(3) assms(2), unfolded f, OF ns0]
    by (simp only: copied_deployments_def targets cands)
  have refreshers: "list_all2 (\<lambda>l r. refresher env scheme objs l r (fork_owner fork)) ls fork_resources"
    using app_lists_refreshers [OF refreshed(5) assms(2)] fork_typed [OF assms(3)] by simp
  from refreshed(4,6) assms(7) f obtain l v v' res' where
    l: "(l, r) \<in> set (zip ls fork_resources)" and run: "refresh env (fork_owner fork) l v = (res', v')"
    and v: "objs v r = objs w r" "objs v' r k = objs w' r k"
    using refresh_lists_one [OF refreshers _ refreshed(6) [unfolded f], of r k]
      by (auto simp: fork_resources_def)
  from refreshed(5) obtain dcs where dcs: "generate_deployment_copies ord a = Ok dcs"
    and ls: "ls = [dcs, generate_services ord a, generate_vsconfigs env a]"
    by (auto simp: generate_app_lists_def result_simps)
  have stable: "stable_refresher env scheme objs l r (fork_owner fork)"
    using fork_lists_stable [OF kind dcs assms(2) names(1)] l unfolding ls by (auto simp: list_all2_iff)
  have "well_named env (fork_owner fork) l (objs w r)"
    using copies_well_named [OF names dcs assms(2)] services_well_named [OF names assms(2) a assms(6)]
      vsconfigs_well_named [OF names a assms(6)] l unfolding ls by (auto simp: fork_resources_def)
  with refresher.refresh_writes_default [OF stable_refresher.axioms(1) [OF stable] run, of k x]
      assms(7,8) v obtain y name where
    "y \<in> set (ol_items l)" "default_name env (fork_owner fork) l y = Ok name"
    "k = NN (nn_namespace q) name" "written env scheme (fork_owner fork) name y x" by (auto simp: ns)
  with that [OF a names _ deployments dcs l [unfolded ls]] app_services_targets(1) [OF refreshed(3),
      unfolded f targets]
  show thesis by blast
qed (use assms(7) in simp)

text \<open>
  Whatever the outcome of an update, a Service or VSConfig that it writes is the copy of a target
  service or routes to it.
\<close>

lemma update_writes_copies:
  assumes "microservice_update env ord q w = (res, w')" and "range_order ord" and "frks w q = Some fork"
    and "nn_namespace q \<noteq> ''''" "names_fit env objs deps fork w" "program_named env objs fork w"
    and "r = RService \<or> r = RVSConfig" "objs w' r k \<noteq> objs w r k" "objs w' r k = Some x"
  obtains t where "t \<in> target_services env objs fork w" "k = NN (nn_namespace q) (service_name t fork)"
    "r = RService \<Longrightarrow> \<exists>c. x = OService c \<and> copy_of_service env fork t c"
    "r = RVSConfig \<Longrightarrow> \<exists>v. x = OVSConfig v \<and> vsc_host (vsc_spec v) = meta_name (svc_meta t)"
proof (rule update_writes_items [OF assms(1-6,8,9)])
  fix a dcs l y name
  assume a: "app_fork a = fork" and names: "short_names a" "distinct_originals a"
    and targets: "\<forall>s \<in> set (app_services a). \<exists>t \<in> target_services env objs fork w. svc_meta t =
        svc_meta s \<and> svc_spec t = svc_spec s"
    and l: "(l, r) \<in> set (zip [dcs, generate_services ord a, generate_vsconfigs env a] fork_resources)"
    and y: "y \<in> set (ol_items l)" "default_name env (fork_owner fork) l y = Ok name"
      "k = NN (nn_namespace q) name" "written env scheme (fork_owner fork) name y x"
  note kind = fork_namespace [OF assms(3), THEN conjunct2, THEN conjunct2]
  have l: "l = (if r = RService then generate_services ord a else generate_vsconfigs env a)"
    using l assms(7) by (auto simp: fork_resources_def)
  from y(1) obtain s where s: "s \<in> set (app_services a)"
    "y = (if r = RService then OService (labelled_service_copy ord a s) else OVSConfig
        (build_vsconfig s fork (app_fork_header a)))"
    by (auto simp: l generate_services_def generate_vsconfigs_def a split: if_splits)
  with targets obtain t where
    t: "t \<in> target_services env objs fork w" "svc_meta s = svc_meta t" "svc_spec s = svc_spec t" by metis
  have name: "name = service_name t fork"
    using y(2) s(2) service_default_names(1) [OF names s(1), of env "fork_owner fork" ord]
      vsconfig_default_names(1) [OF names s(1), of env "fork_owner fork"] a t(2)
    by (auto simp: l service_name_def split: if_splits)
  show thesis
  proof (rule that [OF t(1) y(3) [unfolded name]])
    show "\<exists>c. x = OService c \<and> copy_of_service env fork t c" if "r = RService"
      using written_service_copy [of env scheme fork name ord a s x t, OF _ assms(2) a kind t(2,3)] y(4)
          s(2) that by auto
    show "\<exists>v. x = OVSConfig v \<and> vsc_host (vsc_spec v) = meta_name (svc_meta t)" if "r = RVSConfig"
      using y(4) s(2) t(2) that by (cases x) (auto simp: written_def build_vsconfig_def)
  qed
qed

text \<open>Whatever the resource, it is kept at one of the fork's places, and the fork is its only owner.\<close>

lemma update_writes_at_keys:
  assumes "microservice_update env ord q w = (res, w')" and "range_order ord" and "frks w q = Some fork"
    and "nn_namespace q \<noteq> ''''" "names_fit env objs deps fork w" "program_named env objs fork w"
    and "objs w' r k \<noteq> objs w r k" "objs w' r k = Some x"
  shows "k \<in> fork_keys env objs deps fork w r" and "owned_by_parent env (obj_meta x) p \<Longrightarrow>
      meta_name (ow_meta p) = meta_name (fork_meta fork)"
proof -
  have "k \<in> fork_keys env objs deps fork w r \<and>
    (\<forall>p. owned_by_parent env (obj_meta x) p \<longrightarrow> meta_name (ow_meta p) = meta_name (fork_meta fork))"
  proof (rule update_writes_items [OF assms])
    fix a dcs l y name
    assume a: "app_fork a = fork" and names: "short_names a" "distinct_originals a"
      and targets: "\<forall>s \<in> set (app_services a). \<exists>t \<in> target_services env objs fork w. svc_meta t =
          svc_meta s \<and> svc_spec t = svc_spec s"
      and deployments: "set (app_deployments a) = copied_deployments env objs deps fork w"
      and dcs: "generate_deployment_copies ord a = Ok dcs"
      and l: "(l, r) \<in> set (zip [dcs, generate_services ord a, generate_vsconfigs env a] fork_resources)"
      and y: "y \<in> set (ol_items l)" "default_name env (fork_owner fork) l y = Ok name"
        "k = NN (nn_namespace q) name" "written env scheme (fork_owner fork) name y x"
    note ns = fork_namespace [OF assms(3)]
    have "meta_owner_refs (obj_meta x) = [controller_ref env scheme (fork_owner fork)]"
      using y(4) fork_lists_stable [OF ns [THEN conjunct2, THEN conjunct2] dcs assms(2) names(1)] l y(1)
        identity_contract.items_unowned [of env l r y]
      by (auto simp: written_def list_all2_iff stable_refresher_def refresher_def)
    then have sole: "\<forall>p. owned_by_parent env (obj_meta x) p \<longrightarrow>
        meta_name (ow_meta p) = meta_name (fork_meta fork)"
      by (auto simp: owned_by_parent_def controller_ref_def fork_owner_def)
    have "name = meta_name (obj_meta y)"
      using y(1,2) l fork_list_named [OF a names assms(2) dcs] by (auto simp: fork_resources_def)
    with y(1,3) have k: "k \<in> (\<lambda>x. NN (nn_namespace q) (meta_name (obj_meta x))) ` set (ol_items l)" by auto
    have services: "(\<lambda>s. NN (nn_namespace q) (service_name s fork)) ` set (app_services a) \<subseteq>
        (\<lambda>s. NN (nn_namespace q) (service_name s fork)) ` target_services env objs fork w"
    proof (rule image_subsetI)
      fix s
      assume "s \<in> set (app_services a)"
      with targets obtain t where "t \<in> target_services env objs fork w" "svc_meta t = svc_meta s" by blast
      then show "NN (nn_namespace q) (service_name s fork) \<in>
          (\<lambda>s. NN (nn_namespace q) (service_name s fork)) ` target_services env objs fork w"
        by (intro image_eqI [of _ _ t]) (simp_all add: service_name_def)
    qed
    note listed = fork_list_keys [OF a assms(2) dcs refl, of "nn_namespace q"]
    have "(\<lambda>x. NN (nn_namespace q) (meta_name (obj_meta x))) ` set (ol_items l) \<subseteq> fork_keys env objs
        deps fork w r"
    proof -
      from l consider "r = RDeploymentCopy" "l = dcs" | "r = RService" "l = generate_services ord a"
        | "r = RVSConfig" "l = generate_vsconfigs env a" by (auto simp: fork_resources_def)
      then show ?thesis by cases (simp_all add: listed services ns deployments)
    qed
    with k sole show ?thesis by blast
  qed
  then show "k \<in> fork_keys env objs deps fork w r" and "owned_by_parent env (obj_meta x) p \<Longrightarrow>
      meta_name (ow_meta p) = meta_name (fork_meta fork)" by auto
qed

text \<open>So neither the target services nor the names of what the fork owns are disturbed, even by a
    failing update.\<close>

lemma fork_update_targets:
  assumes "microservice_update env ord q w = (res, w')" and "range_order ord" and "frks w q = Some fork"
    and "nn_namespace q \<noteq> ''''" "names_fit env objs deps fork w" "program_named env objs fork w"
    and "leaves_copies env objs fork w"
  shows "target_services env objs fork w' = target_services env objs fork w"
proof (intro set_eqI iffI)
  note writes = update_writes_copies [OF assms(1-6), of RService]
  fix t
  show "t \<in> target_services env objs fork w" if t: "t \<in> target_services env objs fork w'"
  proof (rule ccontr)
    assume no: "t \<notin> target_services env objs fork w"
    from t obtain k where k: "objs w' RService k = Some (OService t)" by (auto simp: target_services_iff)
    with t no have "objs w' RService k \<noteq> objs w RService k" by (auto simp: target_services_iff)
    from writes [OF _ this k] obtain s where "s \<in> target_services env objs fork w"
        "copy_of_service env fork s t" by blast
    with assms(7) t show False by (auto simp: copy_of_service_def leaves_copies_def target_services_iff)
  qed
  show "t \<in> target_services env objs fork w'" if t: "t \<in> target_services env objs fork w"
  proof (rule ccontr)
    assume no: "t \<notin> target_services env objs fork w'"
    from t obtain k where k: "objs w RService k = Some (OService t)" by (auto simp: target_services_iff)
    with t no have change: "objs w' RService k \<noteq> objs w RService k" by (auto simp: target_services_iff)
    show False
    proof (cases "objs w' RService k")
      case None
      with microservice_update_frame [OF assms(1,2) change] assms(3,7) k t show False
        by (auto simp: owned_change_def leaves_copies_def)
    next
      case (Some x)
      from writes [OF _ change Some] obtain s where
        s: "s \<in> target_services env objs fork w" "k = NN (nn_namespace q) (service_name s fork)" by blast
      with view_service [OF k] have "service_name s fork = meta_name (svc_meta t)" by (auto simp: meta_key_def)
      with s(1) t assms(7) show False by (auto simp: leaves_copies_def)
    qed
  qed
qed

lemma fork_update_program_named:
  assumes "microservice_update env ord q w = (res, w')" and "range_order ord" and "frks w q = Some fork"
    and "nn_namespace q \<noteq> ''''" "names_fit env objs deps fork w" "program_named env objs fork w"
  shows "program_named env objs fork w'"
  unfolding program_named_def
proof (intro conjI allI impI)
  fix k t
  assume t: "objs w' RService k = Some (OService t)" "in_parent_namespace (fork_owner fork) k"
    "owned_by_parent env (svc_meta t) (fork_owner fork)"
  show "meta_name (svc_meta t) = sprintf_dash (original_name (meta_labels (svc_meta t)))
      (meta_name (fork_meta fork))"
  proof (cases "objs w' RService k = objs w RService k")
    case True
    with assms(6) t show ?thesis by (simp add: program_named_def)
  next
    case False
    from update_writes_copies [OF assms(1-6) _ False t(1)] obtain s where
      "k = NN (nn_namespace q) (service_name s fork)" "copy_of_service env fork s t" by blast
    with view_service [OF t(1)] show ?thesis by (simp add: copy_of_service_def meta_key_def service_name_def)
  qed
next
  fix k v
  assume v: "objs w' RVSConfig k = Some (OVSConfig v)" "in_parent_namespace (fork_owner fork) k"
    "owned_by_parent env (vsc_meta v) (fork_owner fork)"
  show "meta_name (vsc_meta v) = sprintf_dash (vsc_host (vsc_spec v)) (meta_name (fork_meta fork))"
  proof (cases "objs w' RVSConfig k = objs w RVSConfig k")
    case True
    with assms(6) v show ?thesis by (simp add: program_named_def)
  next
    case False
    from update_writes_copies [OF assms(1-6) _ False v(1)] obtain s where
      "k = NN (nn_namespace q) (service_name s fork)" "vsc_host (vsc_spec v) = meta_name (svc_meta s)" by blast
    with view_vsconfig [OF v(1)] show ?thesis by (simp add: meta_key_def service_name_def)
  qed
qed

text \<open>
  A successful update after any update realises the environment of the services and deployments
  there were before; after a successful one it creates and deletes nothing.
\<close>

lemma next_update:
  assumes "microservice_update env ord q w = (res, w')" and "range_order ord" and "frks w q = Some fork"
    and "nn_namespace q \<noteq> ''''" "names_fit env objs deps fork w" "program_named env objs fork w"
    and "leaves_copies env objs fork w"
  shows "frks w' q = Some fork" "names_fit env objs deps fork w'" "program_named env objs fork w'"
    and "fork_keys env objs deps fork w' r = fork_keys env objs deps fork w r"
    and "fork_realised env objs deps mgrs fork w' w'' = fork_realised env objs deps mgrs fork w w''"
proof -
  note steady = fork_update_steady [OF assms(1)]
  show "frks w' q = Some fork" using steady(3) assms(3) by simp
  note targets = fork_update_targets [OF assms]
  show "names_fit env objs deps fork w'" using assms(5) by (simp only: names_fit_def targets steady(4))
  show "program_named env objs fork w'" by (rule fork_update_program_named [OF assms(1-6)])
  have copied: "copied_deployments env objs deps fork w' = copied_deployments env objs deps fork w"
    by (simp only: copied_deployments_def targets steady(4))
  have keys: "fork_keys env objs deps fork w' r = fork_keys env objs deps fork w r" for r
    by (cases r) (simp_all only: fork_keys.simps copied targets)
  then show "fork_keys env objs deps fork w' r = fork_keys env objs deps fork w r" .
  show "fork_realised env objs deps mgrs fork w' w'' = fork_realised env objs deps mgrs fork w w''"
    by (simp only: fork_realised_def copied targets keys steady(2))
qed

lemma next_update_realises:
  assumes "microservice_update env ord q w = (res, w')" and "range_order ord" and "frks w q = Some fork"
    and "nn_namespace q \<noteq> ''''" "names_fit env objs deps fork w" "program_named env objs fork w"
    and "leaves_copies env objs fork w" and "microservice_update env ord q w' = (Ok u', w'')"
  shows "fork_realised env objs deps mgrs fork w w''"
  using fork_update_refines [OF assms(8,2) next_update(1) [OF assms(1-7)] assms(4) next_update(2,3)
      [OF assms(1-7)]]
  by (simp only: next_update(5) [OF assms(1-7)])

lemma second_update_settles:
  assumes "microservice_update env ord q w = (Ok u, w')" and "range_order ord" and "frks w q = Some fork"
    and "nn_namespace q \<noteq> ''''" "names_fit env objs deps fork w" "program_named env objs fork w"
    and "leaves_copies env objs fork w" and "microservice_update env ord q w' = (Ok u', w'')"
  shows "objs w'' r k = None \<longleftrightarrow> objs w' r k = None"
proof (cases "objs w'' r k = objs w' r k")
  case False
  note next_world = next_update [OF assms(1-7)]
  from microservice_update_frame [OF assms(8,2) False] next_world(1) have
    r: "r \<in> set fork_resources"
      and change: "owned_change env (fork_owner fork) k (objs w' r k) (objs w'' r k)" by auto
  have "owned_at env (fork_owner fork) (objs w'' r) k \<longleftrightarrow> owned_at env (fork_owner fork) (objs w' r) k"
    unfolding fork_update_owned [OF assms(1-6) r]
      fork_update_owned [OF assms(8,2) next_world(1) assms(4) next_world(2,3) r] next_world(4) ..
  with change show ?thesis by (auto simp: owned_change_def owned_at_def split: option.splits)
qed simp

end

context routed_cluster
begin

text \<open>
  A fork whose selector admits the labels of copies takes its own copies for services to fork:
  the next update copies the copies.
\<close>

lemma fork_update_copies_copies:
  assumes "microservice_update env ord q w = (Ok u, w')" and "range_order ord" and "frks w q = Some fork"
    and "nn_namespace q \<noteq> ''''" "names_fit env objs deps fork w" "program_named env objs fork w"
    and "t \<in> target_services env objs fork w"
        "selects_service env fork (copy_labels fork (meta_name (svc_meta t)))"
    and "microservice_update env ord q w' = (Ok u', w'')" "names_fit env objs deps fork w'"
  shows "\<exists>c. objs w'' RService (NN (nn_namespace q) (sprintf_dash (service_name t fork)
      (meta_name (fork_meta fork)))) =
    Some (OService c) \<and> owned_by_parent env (svc_meta c) (fork_owner fork)"
proof -
  note ns = fork_namespace [OF assms(3)]
  from fork_update_services [OF assms(1-7)] obtain c where
    c: "objs w' RService (NN (nn_namespace q) (service_name t fork)) = Some (OService c)"
        "copy_of_service env fork t c" by blast
  have key: "meta_key (svc_meta c) = NN (nn_namespace q) (service_name t fork)" by (rule view_service [OF c(1)])
  with c ns assms(8) have target: "c \<in> target_services env objs fork w'"
    by (auto simp: target_services_iff copy_of_service_def meta_key_def)
  have fork: "frks w' q = Some fork" using fork_update_steady(3) [OF assms(1)] assms(3) by simp
  from fork_update_services [OF assms(9,2) fork assms(4,10) fork_update_program_named [OF assms(1-6)]
      target] key
  show ?thesis by (auto simp: copy_of_service_def service_name_def meta_key_def)
qed

end

end
