(* ===== verification/ForkRouting.thy ===== *)
theory ForkRouting
  imports RoutedCluster
begin

text \<open>
  The composition of the reconcilers of Forks and of VSConfigs: from the services a fork is for
  to the routes of the VirtualServices that send its requests to the copies.
\<close>

section \<open>From a fork to the routes of a service\<close>

lemma route_destination_agreed:
  assumes "c \<in> set (vl_sorted_configs a)" "config_applies a c" "requests hs c"
    and "\<And>c'. c' \<in> set (vl_sorted_configs a) \<Longrightarrow> config_applies a c' \<Longrightarrow> requests hs c' \<Longrightarrow>
        vsc_service (vsc_spec c') = n"
  shows "route_destination rx (build_http_routes a) hs = Some [n]"
proof -
  have "find (\<lambda>c. config_applies a c \<and> requests hs c) (vl_sorted_configs a) \<noteq> None"
    using assms(1-3) by (auto simp: find_None_iff)
  then obtain c' where c': "find (\<lambda>c. config_applies a c \<and> requests hs c) (vl_sorted_configs a) =
      Some c'" by blast
  then have "c' \<in> set (vl_sorted_configs a)" "config_applies a c'" "requests hs c'"
    by (auto simp: find_Some_iff)
  with assms(4) c' show ?thesis by (simp add: route_destination_spec)
qed

text \<open>VirtualServices for a service are called like it.\<close>

definition routes_named :: "'w object_view \<Rightarrow> namespaced_name \<Rightarrow> 'w \<Rightarrow> bool" where
  "routes_named objs k w \<longleftrightarrow>
     (\<forall>k' v. objs w RVirtualService k' = Some (OVirtualService v) \<longrightarrow> nn_namespace k' = nn_namespace k \<longrightarrow>
        last_host v = nn_name k \<longrightarrow> meta_name (vs_meta v) = nn_name k)"

text \<open>What the routes of a service do with a request, given the VSConfigs stored in its namespace.\<close>

definition configs_route ::
  "'w object_view \<Rightarrow> namespaced_name \<Rightarrow> 'w \<Rightarrow> (string, string) fmap \<Rightarrow> vsconfig set" where
  "configs_route objs k w hs =
     {v. \<exists>k'. objs w RVSConfig k' = Some (OVSConfig v) \<and> nn_namespace k' = nn_namespace k \<and>
        vsc_host (vsc_spec v) = nn_name k \<and> vsc_header_value (vsc_spec v) \<noteq> '''' \<and> requests hs v}"

definition routed ::
  "(string \<Rightarrow> string \<Rightarrow> bool) \<Rightarrow> 'w object_view \<Rightarrow> namespaced_name \<Rightarrow> 'w \<Rightarrow> (string, string) fmap \<Rightarrow> string \<Rightarrow>
      bool" where
  "routed rx objs k w hs n \<longleftrightarrow>
     (\<exists>v. objs w RVirtualService k = Some (OVirtualService v) \<and> vs_hosts (vs_spec v) = [nn_name k] \<and>
        route_destination rx (vs_http (vs_spec v)) hs = Some [n])"

context routed_cluster
begin

text \<open>The one VirtualService of a service gets its name, and the list is well named where that is the rule.\<close>

lemma route_default_name:
  assumes "meta_key (svc_meta (vl_service a)) = k" "nn_name k \<noteq> ''''" "length (nn_name k) \<le> 63"
  shows "default_name env parent (build_virtual_service env a)
      (OVirtualService (virtual_service_of a (build_http_routes a))) =
    Ok (nn_name k)"
proof -
  from assms(1) have name: "meta_name (svc_meta (vl_service a)) = nn_name k" by (auto simp: meta_key_def)
  have identity: "ol_identity (build_virtual_service env a)
      (Typed (OVirtualService (virtual_service_of a (build_http_routes a)))) =
      Ok (nn_name k)"
    by (simp add: build_virtual_service_def Let_def virtual_service_of_def last_host_def name)
  show ?thesis
    by (subst default_name_short [OF identity]) (use assms(2,3) in \<open>simp_all add: virtual_service_of_def
        Let_def name\<close>)
qed

lemma routes_well_named:
  assumes "meta_key (svc_meta (vl_service a)) = k" "routes_named objs k w"
    and "nn_namespace k \<noteq> ''''" "nn_name k \<noteq> ''''" "length (nn_name k) \<le> 63"
    and "meta_namespace (ow_meta parent) = nn_namespace k"
  shows "well_named env parent (build_virtual_service env a) (objs w RVirtualService)"
proof (rule well_namedI [where g = "\<lambda>i. i"])
  let ?x = "OVirtualService (virtual_service_of a (build_http_routes a))"
  from assms(1) have identity: "ol_identity (build_virtual_service env a) (Typed ?x) = Ok (nn_name k)"
    by (auto simp: build_virtual_service_def Let_def virtual_service_of_def last_host_def meta_key_def)
  have single: "y = ?x" if "y \<in> set (ol_items (build_virtual_service env a))" for y
    using that by (auto simp: build_virtual_service_items split: if_splits)
  show "\<exists>i. ol_identity (build_virtual_service env a) (Typed y) = Ok i \<and>
      default_name env parent (build_virtual_service env a) y = Ok i"
    if "y \<in> set (ol_items (build_virtual_service env a))" for y
    using single [OF that] identity route_default_name [OF assms(1,4,5)] by simp
  fix k' y z i
  assume y: "objs w RVirtualService k' = Some y" "in_parent_namespace parent k'"
    "ol_identity (build_virtual_service env a) (Typed y) = Ok i"
    and z: "z \<in> set (ol_items (build_virtual_service env a))"
        "ol_identity (build_virtual_service env a) (Typed z) = Ok i"
  from view_resource [OF y(1)] obtain v where v: "y = OVirtualService v" by (cases y) auto
  have "i = nn_name k" using z(2) single [OF z(1)] identity by simp
  with y v have "last_host v = nn_name k" "nn_namespace k' = nn_namespace k"
    using assms(3,6) by (auto simp: build_virtual_service_def Let_def in_parent_namespace_def)
  with assms(2) y(1) v \<open>i = nn_name k\<close> show "meta_name (obj_meta y) = i" by (auto simp: routes_named_def)
qed

text \<open>
  The update of a service, seen from outside: the lister it has built has the VSConfigs stored in the
  namespace of the service, and the VirtualServices that the service owns are the ones of the list.
\<close>

lemma service_update_lister:
  assumes "virtual_service_update env k w = (Ok u, w')" and "routes_named objs k w"
    and "nn_namespace k \<noteq> ''''" "nn_name k \<noteq> ''''" "length (nn_name k) \<le> 63"
  obtains t a where "objs w RService k = Some (OService t)" "meta_key (svc_meta (vl_service a)) = k"
    "(\<lambda>v. (vsc_meta v, vsc_spec v)) ` set (vl_sorted_configs a) =
      {(vsc_meta t, vsc_spec t) |t. \<exists>k'. objs w RVSConfig k' = Some (OVSConfig t) \<and>
          nn_namespace k' = nn_namespace k}"
    "realised env scheme (service_owner (t\<lparr>svc_type := scheme GoService\<rparr>)) (build_virtual_service env a)
        (objs w' RVirtualService)"
    "default_name env (service_owner (t\<lparr>svc_type := scheme GoService\<rparr>)) (build_virtual_service env a)
      (OVirtualService (virtual_service_of a (build_http_routes a))) = Ok (nn_name k)"
proof -
  from virtual_service_update_done [OF assms(1)] obtain s w0 a w1 where
    s: "api_get (env_services env) k w = (Ok s, w0)" and a: "build_vs_lister env k w0 = (Ok a, w1)"
    and real: "well_named env (service_owner s) (build_virtual_service env a) (objs w RVirtualService) \<Longrightarrow>
      realised env scheme (service_owner s) (build_virtual_service env a) (objs w' RVirtualService)" by blast
  from service_found [OF s] obtain t where t: "objs w RService k = Some (OService t)"
      "svc_meta s = svc_meta t" by blast
  have owner: "service_owner (t\<lparr>svc_type := scheme GoService\<rparr>) = service_owner s"
    using service_typed [OF s] t(2) by (simp add: service_owner_def)
  have ns: "meta_namespace (ow_meta (service_owner s)) = nn_namespace k"
    using service_typed [OF s] by (auto simp: service_owner_def meta_key_def)
  from build_vs_lister_Ok [OF a] obtain items w2 where
    items: "api_list (env_vsconfigs env) (in_namespace (nn_namespace k)) w0 = (Ok items, w2)"
    and sorted: "mset (vl_sorted_configs a) = mset items"
    and svc: "api_get (env_services env) k w2 = (Ok (vl_service a), w1)" by blast
  have key: "meta_key (svc_meta (vl_service a)) = k" using service_typed [OF svc] by simp
  then have name: "meta_name (svc_meta (vl_service a)) = nn_name k" by (auto simp: meta_key_def)
  have w0: "objs w0 = objs w" using keepsD [OF services_read(1) s] by simp
  have "admits (in_namespace (nn_namespace k)) (vsc_meta v) \<longleftrightarrow> nn_namespace k' = nn_namespace k"
    if "objs w RVSConfig k' = Some (OVSConfig v)" for k' v
    using view_vsconfig [OF that] assms(3) by (auto simp: admits_def in_namespace_def meta_key_def)
  then have "(\<exists>k'. objs w RVSConfig k' = Some (OVSConfig v) \<and>
      admits (in_namespace (nn_namespace k)) (vsc_meta v)) \<longleftrightarrow>
      (\<exists>k'. objs w RVSConfig k' = Some (OVSConfig v) \<and> nn_namespace k' = nn_namespace k)" for v by blast
  then have configs: "(\<lambda>v. (vsc_meta v, vsc_spec v)) ` set (vl_sorted_configs a) =
      {(vsc_meta t, vsc_spec t) |t. \<exists>k'. objs w RVSConfig k' = Some (OVSConfig t) \<and>
          nn_namespace k' = nn_namespace k}"
    using vsconfigs_listed [OF items] mset_eq_setD [OF sorted] by (simp only: w0)
  note named = route_default_name [OF key assms(4,5), of "service_owner s"] routes_well_named
      [OF key assms(2-5) ns]
  from that [OF t(1) key configs, unfolded owner, OF real [OF named(2)] named(1)] show thesis .
qed

text \<open>The configs that the lister has read and that apply are those that ask for the request.\<close>

lemma listed_config:
  assumes "meta_key (svc_meta (vl_service a)) = k"
    and "(\<lambda>v. (vsc_meta v, vsc_spec v)) ` set (vl_sorted_configs a) =
      {(vsc_meta t, vsc_spec t) |t. \<exists>k'. objs w RVSConfig k' = Some (OVSConfig t) \<and>
          nn_namespace k' = nn_namespace k}"
  shows "v \<in> configs_route objs k w hs \<Longrightarrow>
      \<exists>c \<in> set (vl_sorted_configs a). vsc_spec c = vsc_spec v \<and> config_applies a c \<and> requests hs c"
    and "c \<in> set (vl_sorted_configs a) \<Longrightarrow> config_applies a c \<Longrightarrow> requests hs c \<Longrightarrow>
      \<exists>v \<in> configs_route objs k w hs. vsc_spec v = vsc_spec c"
proof -
  have name: "meta_name (svc_meta (vl_service a)) = nn_name k" using assms(1) by (auto simp: meta_key_def)
  show "\<exists>c \<in> set (vl_sorted_configs a). vsc_spec c = vsc_spec v \<and> config_applies a c \<and> requests hs c"
    if v: "v \<in> configs_route objs k w hs"
  proof -
    from v have "(vsc_meta v, vsc_spec v) \<in> (\<lambda>v. (vsc_meta v, vsc_spec v)) ` set (vl_sorted_configs a)"
      unfolding assms(2) by (auto simp: configs_route_def)
    then obtain c where "c \<in> set (vl_sorted_configs a)" "vsc_spec c = vsc_spec v" by auto
    with v show ?thesis by (auto simp: configs_route_def requests_def config_applies_def name)
  qed
  show "\<exists>v \<in> configs_route objs k w hs. vsc_spec v = vsc_spec c"
    if c: "c \<in> set (vl_sorted_configs a)" "config_applies a c" "requests hs c"
  proof -
    from imageI [OF c(1), of "\<lambda>v. (vsc_meta v, vsc_spec v)"] obtain t k' where
      "vsc_spec c = vsc_spec t" "objs w RVSConfig k' = Some (OVSConfig t)" "nn_namespace k' = nn_namespace k"
      unfolding assms(2) by auto
    with c(2,3) have "t \<in> configs_route objs k w hs \<and> vsc_spec t = vsc_spec c"
      by (auto simp: configs_route_def requests_def config_applies_def name)
    then show ?thesis by blast
  qed
qed

lemma service_update_routes:
  assumes "virtual_service_update env k w = (Ok u, w')" and "routes_named objs k w"
    and "nn_namespace k \<noteq> ''''" "nn_name k \<noteq> ''''" "length (nn_name k) \<le> 63"
    and "configs_route objs k w hs \<noteq> {}" and "\<forall>v \<in> configs_route objs k w hs. vsc_service (vsc_spec v) = n"
  shows "routed rx objs k w' hs n"
proof (rule service_update_lister [OF assms(1-5)])
  fix t a
  let ?owner = "service_owner (t\<lparr>svc_type := scheme GoService\<rparr>)"
  assume t: "objs w RService k = Some (OService t)" and key: "meta_key (svc_meta (vl_service a)) = k"
    and configs: "(\<lambda>v. (vsc_meta v, vsc_spec v)) ` set (vl_sorted_configs a) =
      {(vsc_meta t, vsc_spec t) |t. \<exists>k'. objs w RVSConfig k' = Some (OVSConfig t) \<and>
          nn_namespace k' = nn_namespace k}"
    and real: "realised env scheme ?owner (build_virtual_service env a) (objs w' RVirtualService)"
    and default: "default_name env ?owner (build_virtual_service env a)
      (OVirtualService (virtual_service_of a (build_http_routes a))) = Ok (nn_name k)"
  from key have name: "meta_name (svc_meta (vl_service a)) = nn_name k" by (auto simp: meta_key_def)
  have owner: "meta_namespace (ow_meta ?owner) = nn_namespace k"
    using view_service [OF t] by (auto simp: service_owner_def meta_key_def)
  from assms(6) listed_config(1) [OF key configs] obtain c where
    c: "c \<in> set (vl_sorted_configs a)" "config_applies a c" "requests hs c" by blast
  have dest: "route_destination rx (build_http_routes a) hs = Some [n]"
  proof (rule route_destination_agreed [OF c])
    fix d
    assume "d \<in> set (vl_sorted_configs a)" "config_applies a d" "requests hs d"
    from listed_config(2) [OF key configs this] assms(7) show "vsc_service (vsc_spec d) = n" by auto
  qed
  have "OVirtualService (virtual_service_of a (build_http_routes a)) \<in> set
      (ol_items (build_virtual_service env a))"
    using c by (auto simp: build_virtual_service_items)
  with real default obtain y where y: "objs w' RVirtualService (NN (nn_namespace k) (nn_name k)) = Some y"
    "written env scheme ?owner (nn_name k) (OVirtualService (virtual_service_of a (build_http_routes a))) y"
    unfolding realised_def by (fastforce simp: owner)
  then obtain v' where "y = OVirtualService v'"
      "vs_spec v' = vs_spec (virtual_service_of a (build_http_routes a))"
    by (cases y) (auto simp: written_def)
  with y(1) dest show ?thesis
    by (auto simp: routed_def virtual_service_of_def Let_def name)
qed

text \<open>Requests that no VSConfig asks for stay with the service.\<close>

lemma service_update_default:
  assumes "virtual_service_update env k w = (Ok u, w')" and "routes_named objs k w"
    and "nn_namespace k \<noteq> ''''" "nn_name k \<noteq> ''''" "length (nn_name k) \<le> 63"
    and "configs_route objs k w hs = {}"
    and "objs w RService k = Some (OService t)" and "objs w' RVirtualService k' = Some (OVirtualService v)"
    and "nn_namespace k' = nn_namespace k"
        "owned_by_parent env (vs_meta v) (service_owner (t\<lparr>svc_type := scheme GoService\<rparr>))"
  shows "k' = k \<and> route_destination rx (vs_http (vs_spec v)) hs = Some [nn_name k]"
proof (rule service_update_lister [OF assms(1-5)])
  fix t' a
  let ?owner = "service_owner (t'\<lparr>svc_type := scheme GoService\<rparr>)" and ?lst = "build_virtual_service env a"
  let ?x = "OVirtualService (virtual_service_of a (build_http_routes a))"
  assume "objs w RService k = Some (OService t')" and key: "meta_key (svc_meta (vl_service a)) = k"
    and configs: "(\<lambda>v. (vsc_meta v, vsc_spec v)) ` set (vl_sorted_configs a) =
      {(vsc_meta t, vsc_spec t) |t. \<exists>k'. objs w RVSConfig k' = Some (OVSConfig t) \<and>
          nn_namespace k' = nn_namespace k}"
    and real: "realised env scheme ?owner ?lst (objs w' RVirtualService)"
    and default: "default_name env ?owner ?lst ?x = Ok (nn_name k)"
  then have t: "t' = t" using assms(7) by simp
  have owner: "meta_namespace (ow_meta ?owner) = nn_namespace k"
    using view_service [OF assms(7)] by (auto simp: service_owner_def meta_key_def t)
  have own: "in_parent_namespace ?owner k'" using owner assms(9) by (auto simp: in_parent_namespace_def)
  from real assms(8,10) own obtain x where "x \<in> set (ol_items ?lst)" "default_name env ?owner ?lst x =
      Ok (meta_name (vs_meta v))"
    unfolding realised_def t by fastforce
  moreover from this(1) have x: "x = ?x" by (auto simp: build_virtual_service_items split: if_splits)
  ultimately have item: "?x \<in> set (ol_items ?lst)" and name: "meta_name (vs_meta v) = nn_name k"
    using default by auto
  have k': "k' = k" using view_key [OF assms(8)] name assms(9) by (cases k; cases k') (auto simp: meta_key_def)
  from real item default assms(8) have "vs_spec v = vs_spec (virtual_service_of a (build_http_routes a))"
    unfolding realised_def by (fastforce simp: owner k' written_def)
  moreover have "find (\<lambda>c. config_applies a c \<and> requests hs c) (vl_sorted_configs a) = None"
    using listed_config(2) [OF key configs, of _ hs] assms(6) by (auto simp: find_None_iff)
  then have "route_destination rx (build_http_routes a) hs = Some [nn_name k]"
    using key by (auto simp: route_destination_spec meta_key_def)
  ultimately show ?thesis using k' by (simp add: virtual_service_of_def Let_def)
qed

end

section \<open>The reconcile of a VSConfig\<close>

context routed_cluster
begin

lemma vsconfig_reconciled:
  assumes "reconcile_vsconfig env key w = (Ok u, w')" and "objs w RVSConfig key = Some (OVSConfig cfg)"
  obtains w1 where "virtual_service_update env (NN (nn_namespace key) (vsc_host (vsc_spec cfg))) w1 =
      (Ok u, w')"
    and "objs w1 = objs w"
proof -
  obtain r0 w1 where get: "api_get (env_vsconfigs env) key w = (r0, w1)"
    by (cases "api_get (env_vsconfigs env) key w")
  have w1: "objs w1 = objs w" using keepsD [OF vsconfigs_read(1) get] by simp
  show thesis
  proof (cases r0)
    case (Ok inst)
    with vsconfig_found [of key w] get assms(2) have "vsc_host (vsc_spec inst) =
        vsc_host (vsc_spec cfg)" by auto
    with assms(1) get Ok w1 that show thesis by (simp add: reconcile_vsconfig_def)
  next
    case (Err e)
    with vsconfig_missing [of key w] get assms show thesis
      by (auto simp: reconcile_vsconfig_def split: error.splits)
  qed (use get assms(1) in \<open>simp add: reconcile_vsconfig_def\<close>)
qed

lemma vsconfig_reconcile_frame:
  assumes "reconcile_vsconfig env key w = (Ok u, w')" and "objs w RVSConfig key = Some (OVSConfig cfg)"
    and "r \<noteq> RVirtualService"
  shows "objs w' r k = objs w r k"
proof (rule vsconfig_reconciled [OF assms(1,2)])
  fix w1
  assume "virtual_service_update env (NN (nn_namespace key) (vsc_host (vsc_spec cfg))) w1 = (Ok u, w')"
      "objs w1 = objs w"
  with virtual_service_update_frame [of _ w1 "Ok u" w' r k] assms(3) show ?thesis by auto
qed

text \<open>
  After the reconcile of a VSConfig the routes of its host follow the VSConfigs of the namespace: a
  request that some of them ask for goes where they agree, and any other stays with the service.
\<close>

lemma vsconfig_reconcile_routes:
  assumes "reconcile_vsconfig env key w = (Ok u, w')" and "objs w RVSConfig key = Some (OVSConfig cfg)"
    and "k = NN (nn_namespace key) (vsc_host (vsc_spec cfg))" "routes_named objs k w"
    and "nn_namespace k \<noteq> ''''" "nn_name k \<noteq> ''''" "length (nn_name k) \<le> 63"
  shows "configs_route objs k w hs \<noteq> {} \<Longrightarrow> \<forall>v \<in> configs_route objs k w hs. vsc_service (vsc_spec v) = n \<Longrightarrow>
      routed rx objs k w' hs n"
    and "configs_route objs k w hs = {} \<Longrightarrow> objs w RService k = Some (OService t) \<Longrightarrow>
      objs w' RVirtualService k' = Some (OVirtualService v) \<Longrightarrow> nn_namespace k' = nn_namespace k \<Longrightarrow>
      owned_by_parent env (vs_meta v) (service_owner (t\<lparr>svc_type := scheme GoService\<rparr>)) \<Longrightarrow>
      k' = k \<and> route_destination rx (vs_http (vs_spec v)) hs = Some [nn_name k]"
proof -
  from vsconfig_reconciled [OF assms(1,2)] assms(3) obtain w1 where
    run: "virtual_service_update env k w1 = (Ok u, w')" and w1: "objs w1 = objs w" by blast
  have named: "routes_named objs k w1" using assms(4) by (simp only: routes_named_def w1)
  have configs: "configs_route objs k w1 hs = configs_route objs k w hs" by (simp only: configs_route_def w1)
  show "configs_route objs k w hs \<noteq> {} \<Longrightarrow> \<forall>v \<in> configs_route objs k w hs. vsc_service (vsc_spec v) = n \<Longrightarrow>
      routed rx objs k w' hs n"
    using service_update_routes [OF run named assms(5-7), of hs n rx] unfolding configs by blast
  show "configs_route objs k w hs = {} \<Longrightarrow> objs w RService k = Some (OService t) \<Longrightarrow>
      objs w' RVirtualService k' = Some (OVirtualService v) \<Longrightarrow> nn_namespace k' = nn_namespace k \<Longrightarrow>
      owned_by_parent env (vs_meta v) (service_owner (t\<lparr>svc_type := scheme GoService\<rparr>)) \<Longrightarrow>
      k' = k \<and> route_destination rx (vs_http (vs_spec v)) hs = Some [nn_name k]"
    using service_update_default [OF run named assms(5-7), of hs t k' v rx] unfolding configs w1 by blast
qed

end

section \<open>From a fork to its requests\<close>

context routed_cluster
begin

text \<open>A reconcile of a live fork, as the update of its objects in a world that reads like the first.\<close>

lemma live_fork_objects:
  assumes "reconcile_fork env ord nn_ord now q w = (Ok u, w')" and "frks w q = Some fork"
    and "case spec_deadline (fork_spec fork) of None \<Rightarrow> True | Some d \<Rightarrow> \<not> env_time_before env d now"
  obtains w1 where "microservice_update env ord q w1 = (Ok u, w')" "frks w1 q = Some fork"
    "objs w1 = objs w" "deps w1 = deps w" "mgrs w1 = mgrs w"
proof -
  from live_fork_reconciled [OF assms] obtain slug w0 w1 where
    get: "api_get (env_forks env) q w = (Ok fork, w0)"
      and m: "mapping_update env ord nn_ord slug w0 = (Ok (), w1)"
    and rest: "objs w1 = objs w" "microservice_update env ord q w1 = (Ok u, w')" "frks w1 q = Some fork"
      by blast
  have "deps w1 = deps w" "mgrs w1 = mgrs w"
    using keepsD [OF steady_reads(1) get] keepsD [OF mapping_update_steady m] by simp_all
  with rest that show thesis by blast
qed

lemma fork_views_cong:
  assumes "objs w1 = objs w" "deps w1 = deps w"
  shows "target_services env objs fork w1 = target_services env objs fork w"
    and "candidate_deployments env deps fork w1 = candidate_deployments env deps fork w"
    and "names_fit env objs deps fork w1 = names_fit env objs deps fork w"
    and "program_named env objs fork w1 = program_named env objs fork w"
    and "leaves_copies env objs fork w1 = leaves_copies env objs fork w"
    and "fork_keys env objs deps fork w1 r = fork_keys env objs deps fork w r"
proof -
  show t: "target_services env objs fork w1 = target_services env objs fork w"
    by (simp only: target_services_def assms)
  show c: "candidate_deployments env deps fork w1 = candidate_deployments env deps fork w"
    by (simp only: candidate_deployments_def assms)
  show "names_fit env objs deps fork w1 = names_fit env objs deps fork w" by (simp only: names_fit_def t c)
  show "program_named env objs fork w1 = program_named env objs fork w" by (simp only: program_named_def assms)
  show "leaves_copies env objs fork w1 = leaves_copies env objs fork w" by (simp only: leaves_copies_def t)
  show "fork_keys env objs deps fork w1 r = fork_keys env objs deps fork w r"
    by (cases r) (simp_all only: fork_keys.simps copied_deployments_def t c)
qed

text \<open>After the update of a fork, the VSConfigs that a request can meet are the fork's, or were there.\<close>

lemma fork_update_configs_route:
  assumes "microservice_update env ord q w = (Ok u, w')" and "range_order ord" and "frks w q = Some fork"
    and "nn_namespace q \<noteq> ''''" "names_fit env objs deps fork w" "program_named env objs fork w"
    and "nn_namespace k = nn_namespace q"
    and "\<forall>v \<in> configs_route objs k w hs. owned_by_parent env (vsc_meta v) (fork_owner fork)"
    and "v \<in> configs_route objs k w' hs"
  shows "vsc_service (vsc_spec v) = sprintf_dash (nn_name k) (meta_name (fork_meta fork))"
proof -
  note ns = fork_namespace [OF assms(3)]
  from assms(9) obtain k' where v: "objs w' RVSConfig k' = Some (OVSConfig v)"
      "nn_namespace k' = nn_namespace k"
    "vsc_host (vsc_spec v) = nn_name k" by (auto simp: configs_route_def)
  have "owned_by_parent env (vsc_meta v) (fork_owner fork)"
  proof (cases "objs w' RVSConfig k' = objs w RVSConfig k'")
    case True
    with v(1) have "objs w RVSConfig k' = Some (OVSConfig v)" by simp
    with assms(9) v(2) have "v \<in> configs_route objs k w hs" by (auto simp: configs_route_def)
    with assms(8) show ?thesis by blast
  next
    case False
    from microservice_update_frame [OF assms(1,2) False] assms(3) v(1) show ?thesis
      by (auto simp: owned_change_def)
  qed
  with v assms(7) ns have "owned_at env (fork_owner fork) (objs w' RVSConfig) k'"
    by (auto simp: owned_at_def in_parent_namespace_def)
  from fork_update_owned_services [OF assms(1-6) _ this] obtain s where
    s: "s \<in> target_services env objs fork w" "k' = NN (nn_namespace q) (service_name s fork)" by blast
  with fork_update_services [OF assms(1-6) s(1)] v show ?thesis
    by (auto simp: build_vsconfig_def service_name_def)
qed

text \<open>
  The path of a request: when the fork and then the VSConfig of one of its services have been
  reconciled, requests with the fork's header go to the copy of the service.
\<close>

lemma forked_request_routed:
  assumes "reconcile_fork env ord nn_ord now q w = (Ok u, w1)" and "range_order ord" and "frks w q = Some fork"
    and "case spec_deadline (fork_spec fork) of None \<Rightarrow> True | Some d \<Rightarrow> \<not> env_time_before env d now"
    and "nn_namespace q \<noteq> ''''" "names_fit env objs deps fork w" "program_named env objs fork w"
    and "t \<in> target_services env objs fork w" "meta_name (svc_meta t) \<noteq> ''''"
    and "k = NN (nn_namespace q) (meta_name (svc_meta t))" "routes_named objs k w"
    and "spec_identifier (fork_spec fork) \<noteq> ''''"
    and "parse_manager_slug (spec_manager (fork_spec fork)) = Ok slug" "mgrs w slug = Some fm"
    and "fmlookup hs (fm_header_key (fm_spec fm)) = Some (spec_identifier (fork_spec fork))"
    and "\<forall>v \<in> configs_route objs k w hs. owned_by_parent env (vsc_meta v) (fork_owner fork)"
    and "reconcile_vsconfig env (NN (nn_namespace q) (service_name t fork)) w1 = (Ok u', w2)"
  shows "routed rx objs k w2 hs (service_name t fork)"
    and "\<exists>c. objs w2 RService (NN (nn_namespace q) (service_name t fork)) = Some (OService c) \<and>
        copy_of_service env fork t c"
    and "d \<in> copied_deployments env objs deps fork w \<Longrightarrow>
      \<exists>dc. objs w2 RDeploymentCopy (NN (nn_namespace q) (copy_name d fork)) = Some (ODeploymentCopy dc) \<and>
        copy_of_deployment env fork (target_services env objs fork w) d dc"
proof -
  from live_fork_objects [OF assms(1,3,4)] obtain v where
    run: "microservice_update env ord q v = (Ok u, w1)" and fork: "frks v q = Some fork"
    and v: "objs v = objs w" "deps v = deps w" "mgrs v = mgrs w" by blast
  note cong = fork_views_cong [OF v(1,2), of fork]
  have fit: "names_fit env objs deps fork v" "program_named env objs fork v"
      "t \<in> target_services env objs fork v"
    using assms(6-8) cong by simp_all
  note updated = fork_update_services [OF run assms(2) fork assms(5) fit]
  let ?key = "NN (nn_namespace q) (service_name t fork)"
  from updated obtain cfg where
    cfg: "objs w1 RVSConfig ?key = Some (OVSConfig cfg)"
      "vsc_spec cfg = vsc_spec (build_vsconfig t fork (fm_header_key (fm_spec fm)))"
    using assms(13,14) v(3) by auto
  from vsconfig_reconciled [OF assms(17) cfg(1)] cfg(2) assms(10) obtain w1' where
    update: "virtual_service_update env k w1' = (Ok u', w2)" and w1': "objs w1' = objs w1"
    by (auto simp: build_vsconfig_def)
  have routes: "objs w1 RVirtualService k' = objs v RVirtualService k'" for k'
    using microservice_update_frame [OF run assms(2), of RVirtualService k'] by (auto simp: fork_resources_def)
  have named: "routes_named objs k w1'" using assms(11) unfolding routes_named_def w1' routes v(1) .
  have len: "length (meta_name (svc_meta t)) \<le> 63"
    using assms(6,8) by (auto simp: names_fit_def service_name_def)
  have configs: "configs_route objs k' w1' hs = configs_route objs k' w1 hs"
    "configs_route objs k' v hs = configs_route objs k' w hs" for k'
    by (simp_all only: configs_route_def w1' v(1))
  have "cfg \<in> configs_route objs k w1' hs"
    using cfg assms(10,12,15) by (auto simp: configs_route_def w1' requests_def build_vsconfig_def)
  moreover have "vsc_service (vsc_spec c) = service_name t fork" if "c \<in> configs_route objs k w1' hs" for c
    using fork_update_configs_route [OF run assms(2) fork assms(5) fit(1,2), of k hs c] that assms(10,16)
    by (simp add: configs service_name_def)
  ultimately show "routed rx objs k w2 hs (service_name t fork)"
    using service_update_routes [OF update named, of hs] assms(5,9,10) len by auto
  have frame: "objs w2 r k' = objs w1 r k'" if "r \<noteq> RVirtualService" for r k'
    by (rule vsconfig_reconcile_frame [OF assms(17) cfg(1) that])
  with updated show "\<exists>c. objs w2 RService ?key = Some (OService c) \<and> copy_of_service env fork t c" by auto
  have "copied_deployments env objs deps fork v = copied_deployments env objs deps fork w"
    by (simp only: copied_deployments_def cong)
  with fork_update_deployments [OF run assms(2) fork assms(5) fit(1,2), of d] frame
  show "d \<in> copied_deployments env objs deps fork w \<Longrightarrow>
      \<exists>dc. objs w2 RDeploymentCopy (NN (nn_namespace q) (copy_name d fork)) = Some (ODeploymentCopy dc) \<and>
        copy_of_deployment env fork (target_services env objs fork w) d dc"
    by (simp add: cong)
qed

end

section \<open>What the reconcile of a fork leaves\<close>

lemma manager_slug_parts:
  assumes "parse_manager_slug m = Ok slug"
  obtains ns n where "slug = NN ns n" "m = ns @ ''/'' @ n"
proof -
  from assms obtain ns n where parts: "slug = NN ns n" "go_split m ''/'' = [ns, n]"
    by (auto simp: parse_manager_slug_def split: list.splits)
  from parts(2) [unfolded go_split_char_pair] have "m = ns @ ''/'' @ n" by simp
  with parts(1) that show thesis by blast
qed

context routed_cluster
begin

lemma fork_realised_cong:
  assumes "objs w1 = objs w" "deps w1 = deps w" "mgrs w1 = mgrs w"
  shows "fork_realised env objs deps mgrs fork w1 w' = fork_realised env objs deps mgrs fork w w'"
proof -
  note cong = fork_views_cong [OF assms(1,2), of fork]
  have "copied_deployments env objs deps fork w1 = copied_deployments env objs deps fork w"
    by (simp only: copied_deployments_def cong)
  then show ?thesis by (simp only: fork_realised_def cong assms(3))
qed

lemma fork_reconcile_refines:
  assumes "range_order ord" "range_order nn_ord" "reconcile_fork env ord nn_ord now q w = (Ok u, w')"
    and "frks w q = Some fork"
    and "case spec_deadline (fork_spec fork) of None \<Rightarrow> True | Some d \<Rightarrow> \<not> env_time_before env d now"
    and "nn_namespace q \<noteq> ''''" "names_fit env objs deps fork w" "program_named env objs fork w"
  shows "fork_realised env objs deps mgrs fork w w'"
    and "\<exists>ns n w0 fm forks. spec_manager (fork_spec fork) = ns @ ''/'' @ n \<and>
       (objs w0, maps w0, frks w0) = (objs w, maps w, frks w) \<and> manager_inputs env (NN ns n) w0 fm forks \<and>
       (\<forall>k \<in> desired_slugs fm forks. desired_mapping env scheme ord (NN ns n) fm forks k (maps w' k)) \<and>
       (\<forall>k m. maps w' k = Some m \<longrightarrow> has_manager_label n m \<longrightarrow> k \<in> desired_slugs fm forks)"
proof -
  from live_fork_objects [OF assms(3-5)] obtain w1 where
    run: "microservice_update env ord q w1 = (Ok u, w')" and fork: "frks w1 q = Some fork"
    and w1: "objs w1 = objs w" "deps w1 = deps w" "mgrs w1 = mgrs w" by blast
  have "names_fit env objs deps fork w1" "program_named env objs fork w1"
    using assms(7,8) fork_views_cong [OF w1(1,2), of fork] by simp_all
  from fork_update_refines [OF run assms(1) fork assms(6) this]
  show "fork_realised env objs deps mgrs fork w w'" unfolding fork_realised_cong [OF w1] .
next
  from live_fork_reconciled [OF assms(3-5)] obtain slug w0 w1 where
    slug: "parse_manager_slug (spec_manager (fork_spec fork)) = Ok slug"
    and w0: "(objs w0, maps w0, frks w0) = (objs w, maps w, frks w)"
    and run: "mapping_update env ord nn_ord slug w0 = (Ok (), w1)" and maps: "maps w' = maps w1" by blast
  from slug obtain ns n where parts: "slug = NN ns n" "spec_manager (fork_spec fork) = ns @ ''/'' @ n"
    by (rule manager_slug_parts)
  from mapping_update_done [OF run assms(1,2)] obtain fm forks where
    "manager_inputs env slug w0 fm forks"
    "\<forall>k \<in> desired_slugs fm forks. desired_mapping env scheme ord slug fm forks k (maps w1 k)"
    "\<forall>k m. maps w1 k = Some m \<longrightarrow> has_manager_label (nn_name slug) m \<longrightarrow> k \<in> desired_slugs fm forks" by blast
  with w0 parts maps
  show "\<exists>ns n w0 fm forks. spec_manager (fork_spec fork) = ns @ ''/'' @ n \<and>
       (objs w0, maps w0, frks w0) = (objs w, maps w, frks w) \<and> manager_inputs env (NN ns n) w0 fm forks \<and>
       (\<forall>k \<in> desired_slugs fm forks. desired_mapping env scheme ord (NN ns n) fm forks k (maps w' k)) \<and>
       (\<forall>k m. maps w' k = Some m \<longrightarrow> has_manager_label n m \<longrightarrow> k \<in> desired_slugs fm forks)"
    by (intro exI [of _ ns] exI [of _ n] exI [of _ w0] exI [of _ fm] exI [of _ forks]) simp
qed

end

end
