(* ===== verification/Store.thy ===== *)
theory Store
  imports ForkRouting "HOL-Library.AList"
begin

text \<open>
  A reference client: an in-memory API server that satisfies every law the development relies
  on. It shows that the laws are consistent, and concrete runs of the program are evaluated
  against it. Objects are kept in lists and found by their key.
\<close>

section \<open>Keyed lists\<close>

definition list_get :: "('a \<Rightarrow> 'k) \<Rightarrow> 'k \<Rightarrow> 'a list \<Rightarrow> 'a option" where
  "list_get key k xs = find (\<lambda>x. key x = k) xs"

definition list_put :: "('a \<Rightarrow> 'k) \<Rightarrow> 'a \<Rightarrow> 'a list \<Rightarrow> 'a list" where
  "list_put key x xs = x # filter (\<lambda>y. key y \<noteq> key x) xs"

definition list_del :: "('a \<Rightarrow> 'k) \<Rightarrow> 'k \<Rightarrow> 'a list \<Rightarrow> 'a list" where
  "list_del key k xs = filter (\<lambda>y. key y \<noteq> k) xs"

function list_keyed :: "('a \<Rightarrow> 'k) \<Rightarrow> 'a list \<Rightarrow> 'a list" where
  "list_keyed key [] = []"
| "list_keyed key (x # xs) = x # list_keyed key (list_del key (key x) xs)"
  by pat_completeness auto
termination
  by (relation "measure (\<lambda>(_, xs). length xs)") (auto simp: list_del_def less_Suc_eq_le)

lemma list_get_simps [simp]:
  "list_get key k [] = None"
  "list_get key k (x # xs) = (if key x = k then Some x else list_get key k xs)"
  by (simp_all add: list_get_def)

lemma list_get_key: "list_get key k xs = Some x \<Longrightarrow> key x = k"
  by (induction xs) (auto split: if_splits)

lemma list_get_filter: "list_get key k (filter (\<lambda>y. key y \<noteq> j) xs) =
    (if k = j then None else list_get key k xs)"
  by (induction xs) auto

lemma list_get_del [simp]: "list_get key k (list_del key j xs) = (if k = j then None else list_get key k xs)"
  by (simp add: list_del_def list_get_filter)

lemma list_get_put [simp]: "list_get key k (list_put key x xs) =
    (if k = key x then Some x else list_get key k xs)"
  by (auto simp: list_put_def list_get_filter)

lemma list_get_self: "(\<exists>k. list_get key k xs = Some x) \<longleftrightarrow> list_get key (key x) xs = Some x"
  by (auto dest: list_get_key)

lemma list_keyed_set: "set (list_keyed key xs) = {x. list_get key (key x) xs = Some x}"
proof (induction key xs rule: list_keyed.induct)
  case (2 key x xs)
  have "set (list_keyed key (list_del key (key x) xs)) = {y. key y \<noteq> key x \<and> list_get key (key y) xs = Some y}"
    using 2 by auto
  note tail = this
  show ?case
  proof (intro set_eqI)
    fix y
    show "y \<in> set (list_keyed key (x # xs)) \<longleftrightarrow> y \<in> {y. list_get key (key y) (x # xs) = Some y}"
      by (cases "key y = key x") (auto simp: tail)
  qed
qed simp

lemma list_keyed_distinct: "distinct (map key (list_keyed key xs))"
proof (induction key xs rule: list_keyed.induct)
  case (2 key x xs)
  then show ?case by (auto simp: list_keyed_set split: if_splits)
qed simp

section \<open>The store\<close>

record store =
  st_forks :: "fork list"
  st_managers :: "fork_manager list"
  st_deployments :: "deployment list"
  st_objects :: "client_object list"
  st_mappings :: "mapping list"

definition object_key :: "client_object \<Rightarrow> resource \<times> namespaced_name" where
  "object_key x = (resource_of x, meta_key (obj_meta x))"

definition store_objs :: "store object_view" where
  "store_objs w r k = list_get object_key (r, k) (st_objects w)"

definition store_maps :: "store \<Rightarrow> namespaced_name \<Rightarrow> mapping option" where
  "store_maps w k = list_get (\<lambda>m. meta_key (mp_meta m)) k (st_mappings w)"

definition store_frks :: "store \<Rightarrow> namespaced_name \<Rightarrow> fork option" where
  "store_frks w k = map_option (\<lambda>f. f\<lparr>fork_type := fork_group_kind ''Fork''\<rparr>)
     (list_get (\<lambda>f. meta_key (fork_meta f)) k (st_forks w))"

fun store_scheme :: "go_type \<Rightarrow> gvk" where
  "store_scheme GoFork = fork_group_kind ''Fork''"
| "store_scheme GoService = \<lparr>gvk_group = '''', gvk_version = ''v1'', gvk_kind = ''Service''\<rparr>"
| "store_scheme GoForkManager = fork_group_kind ''ForkManager''"

section \<open>Reads\<close>

definition store_read_get :: "('o \<Rightarrow> object_meta) \<Rightarrow> (store \<Rightarrow> 'o list) \<Rightarrow> namespaced_name \<Rightarrow> (store, 'o) eff" where
  "store_read_get meta items k w =
     (case list_get (\<lambda>x. meta_key (meta x)) k (items w) of Some x \<Rightarrow> (Ok x, w) | None \<Rightarrow> (Err NotFound, w))"

definition store_items :: "('o \<Rightarrow> object_meta) \<Rightarrow> (store \<Rightarrow> 'o list) \<Rightarrow> list_options \<Rightarrow> store \<Rightarrow> 'o list" where
  "store_items meta items opts w =
     filter (\<lambda>x. admits opts (meta x)) (list_keyed (\<lambda>x. meta_key (meta x)) (items w))"

definition store_read_list :: "('o \<Rightarrow> object_meta) \<Rightarrow> (store \<Rightarrow> 'o list) \<Rightarrow> list_options \<Rightarrow>
    (store, 'o list) eff" where
  "store_read_list meta items opts w = (Ok (store_items meta items opts w), w)"

text \<open>A resource the program only reads, or deletes from.\<close>

definition read_api :: "('o \<Rightarrow> object_meta) \<Rightarrow> (store \<Rightarrow> 'o list) \<Rightarrow> (store, 'o) resource_api" where
  "read_api meta items =
     \<lparr>api_get = store_read_get meta items, api_list = store_read_list meta items,
      api_delete = (\<lambda>_ w. (Err (ApiError ''forbidden''), w)),
      api_create_or_update = (\<lambda>_ _ w. (Err (ApiError ''forbidden''), w))\<rparr>"

fun object_service :: "client_object \<Rightarrow> service list" where
  "object_service (OService s) = [s\<lparr>svc_type := store_scheme GoService\<rparr>]"
| "object_service _ = []"

fun object_vsconfig :: "client_object \<Rightarrow> vsconfig list" where
  "object_vsconfig (OVSConfig v) = [v\<lparr>vsc_type := fork_group_kind ''VSConfig''\<rparr>]"
| "object_vsconfig _ = []"

definition stored_services :: "store \<Rightarrow> service list" where
  "stored_services w = concat (map object_service (st_objects w))"

definition stored_vsconfigs :: "store \<Rightarrow> vsconfig list" where
  "stored_vsconfigs w = concat (map object_vsconfig (st_objects w))"

definition stored_forks :: "store \<Rightarrow> fork list" where
  "stored_forks w = map (\<lambda>f. f\<lparr>fork_type := fork_group_kind ''Fork''\<rparr>) (st_forks w)"

definition store_fork_delete :: "fork \<Rightarrow> (store, unit) eff" where
  "store_fork_delete f w =
     (Ok (), w\<lparr>st_forks := list_del (\<lambda>f. meta_key (fork_meta f)) (meta_key (fork_meta f)) (st_forks w)\<rparr>)"

definition fork_api :: "(store, fork) resource_api" where
  "fork_api = (read_api fork_meta stored_forks)\<lparr>api_delete := store_fork_delete\<rparr>"

section \<open>Writes\<close>

definition bump :: "object_meta \<Rightarrow> object_meta" where
  "bump m = m\<lparr>meta_resource_version := CHR ''v'' # meta_resource_version m\<rparr>"

text \<open>The server allocates a cluster IP and otherwise stores what it was sent.\<close>

fun stored_as :: "client_object \<Rightarrow> client_object" where
  "stored_as (OService s) = OService (s\<lparr>svc_meta := bump (svc_meta s),
     svc_spec := (svc_spec s)\<lparr>ss_cluster_ip :=
       (if ss_cluster_ip (svc_spec s) = '''' then ''10.0.0.1'' else ss_cluster_ip (svc_spec s))\<rparr>\<rparr>)"
| "stored_as x = map_obj_meta bump x"

definition store_create_or_update ::
  "client_object \<Rightarrow> (client_object \<Rightarrow> client_object result) \<Rightarrow> (store, unit) eff" where
  "store_create_or_update x f w =
     (let e = (case list_get object_key (object_key x) (st_objects w) of Some e \<Rightarrow> e | None \<Rightarrow> x)
      in case f e of
           Ok y \<Rightarrow>
             if object_key y = object_key x
             then (Ok (), w\<lparr>st_objects := list_put object_key (stored_as y) (st_objects w)\<rparr>)
             else (Err (ApiError ''MutateFn cannot mutate object name and/or object namespace''), w)
         | Err er \<Rightarrow> (Err er, w)
         | Panic p \<Rightarrow> (Panic p, w))"

definition store_mapping_write :: "mapping \<Rightarrow> (mapping \<Rightarrow> mapping result) \<Rightarrow> (store, unit) eff" where
  "store_mapping_write m f w =
     (let key = (\<lambda>m. meta_key (mp_meta m));
          e = (case list_get key (key m) (st_mappings w) of Some e \<Rightarrow> e | None \<Rightarrow> m)
      in case f e of
           Ok y \<Rightarrow>
             if key y = key m
             then (Ok (), w\<lparr>st_mappings := list_put key (y\<lparr>mp_meta := bump (mp_meta y)\<rparr>) (st_mappings w)\<rparr>)
             else (Err (ApiError ''MutateFn cannot mutate object name and/or object namespace''), w)
         | Err er \<Rightarrow> (Err er, w)
         | Panic p \<Rightarrow> (Panic p, w))"

definition store_mapping_delete :: "mapping \<Rightarrow> (store, unit) eff" where
  "store_mapping_delete m w =
     (Ok (), w\<lparr>st_mappings := list_del (\<lambda>m. meta_key (mp_meta m)) (meta_key (mp_meta m)) (st_mappings w)\<rparr>)"

definition mapping_api :: "(store, mapping) resource_api" where
  "mapping_api = (read_api mp_meta st_mappings)
     \<lparr>api_create_or_update := store_mapping_write, api_delete := store_mapping_delete\<rparr>"

section \<open>Unstructured objects\<close>

definition resource_of_list :: "gvk \<Rightarrow> resource option" where
  "resource_of_list g =
     find (\<lambda>r. resource_list_gvk r = g) [RDeploymentCopy, RService, RVSConfig, RVirtualService]"

definition resource_of_item :: "gvk \<Rightarrow> resource option" where
  "resource_of_item g =
     find (\<lambda>r. item_gvk (resource_list_gvk r) = g) [RDeploymentCopy, RService, RVSConfig, RVirtualService]"

definition as_unstructured :: "client_object \<Rightarrow> client_object unstructured" where
  "as_unstructured x =
     \<lparr>us_gvk = item_gvk (resource_list_gvk (resource_of x)), us_meta = obj_meta x, us_content = x\<rparr>"

definition store_list_unstructured :: "gvk \<Rightarrow> list_options \<Rightarrow> (store, client_object unstructured list) eff" where
  "store_list_unstructured g opts w =
     (case resource_of_list g of
        None \<Rightarrow> (Err (ApiError ''no matches for kind''), w)
      | Some r \<Rightarrow>
          (Ok (map as_unstructured (filter (\<lambda>x. resource_of x = r \<and> admits opts (obj_meta x))
             (list_keyed object_key (st_objects w)))), w))"

definition store_delete_unstructured :: "client_object unstructured \<Rightarrow> (store, unit) eff" where
  "store_delete_unstructured u w =
     (case resource_of_item (us_gvk u) of
        None \<Rightarrow> (Err (ApiError ''no matches for kind''), w)
      | Some r \<Rightarrow> (Ok (), w\<lparr>st_objects := list_del object_key (r, meta_key (us_meta u)) (st_objects w)\<rparr>))"

section \<open>Label selectors\<close>

definition expression_holds :: "label_selector_requirement \<Rightarrow> labels \<Rightarrow> bool" where
  "expression_holds e ls \<longleftrightarrow>
     (if lsr_operator e = ''In'' then (\<exists>v \<in> set (lsr_values e). fmlookup ls (lsr_key e) = Some v)
      else if lsr_operator e = ''NotIn'' then (\<forall>v \<in> set (lsr_values e). fmlookup ls (lsr_key e) \<noteq> Some v)
      else if lsr_operator e = ''Exists'' then fmlookup ls (lsr_key e) \<noteq> None
      else fmlookup ls (lsr_key e) = None)"

definition label_selector_holds :: "label_selector \<Rightarrow> selector" where
  "label_selector_holds sel ls \<longleftrightarrow>
     (case match_labels sel of None \<Rightarrow> True | Some m \<Rightarrow> selects m ls) \<and>
     (\<forall>e \<in> set (match_expressions sel). expression_holds e ls)"

definition store_selector :: "label_selector option \<Rightarrow> selector result" where
  "store_selector sel = Ok (case sel of None \<Rightarrow> (\<lambda>_. False) | Some s \<Rightarrow> label_selector_holds s)"

definition requirement_holds :: "requirement \<Rightarrow> labels \<Rightarrow> bool" where
  "requirement_holds r ls \<longleftrightarrow> fmlookup ls (req_key r) = Some (concat (req_values r))"

definition store_requirement :: "string \<Rightarrow> string \<Rightarrow> string list \<Rightarrow> requirement result" where
  "store_requirement k op vs =
     (if op = ''='' \<and> length vs = 1 then Ok \<lparr>req_key = k, req_operator = op, req_values = vs\<rparr>
      else Err (ApiError ''invalid requirement''))"

section \<open>The environment\<close>

definition group_version_string :: "gvk \<Rightarrow> string" where
  "group_version_string g = (if gvk_group g = '''' then gvk_version g else gvk_group g @ ''/'' @ gvk_version g)"

definition store_owner_ref :: "owner \<Rightarrow> owner_reference" where
  "store_owner_ref p =
     \<lparr>or_api_version = group_version_string (store_scheme (ow_go_type p)),
      or_kind = gvk_kind (store_scheme (ow_go_type p)), or_name = meta_name (ow_meta p), or_controller = True\<rparr>"

definition store_set_controller_reference :: "owner \<Rightarrow> object_meta \<Rightarrow> object_meta result" where
  "store_set_controller_reference p m =
     (if \<exists>r \<in> set (meta_owner_refs m). or_controller r \<and> r \<noteq> store_owner_ref p
      then Err (ApiError ''already owned by another controller'')
      else Ok (m\<lparr>meta_owner_refs :=
        (if store_owner_ref p \<in> set (meta_owner_refs m) then meta_owner_refs m
         else meta_owner_refs m @ [store_owner_ref p])\<rparr>))"

fun content_vsconfig :: "client_object \<Rightarrow> vsconfig result" where
  "content_vsconfig (OVSConfig v) = Ok v"
| "content_vsconfig _ = Err UnsupportedType"

fun content_virtual_service :: "client_object \<Rightarrow> virtual_service result" where
  "content_virtual_service (OVirtualService v) = Ok v"
| "content_virtual_service _ = Err UnsupportedType"

definition store_env :: "(store, client_object) env" where
  "store_env =
     \<lparr>env_forks = fork_api,
      env_fork_managers = read_api fm_meta st_managers,
      env_services = read_api svc_meta stored_services,
      env_deployments = read_api dep_meta st_deployments,
      env_vsconfigs = read_api vsc_meta stored_vsconfigs,
      env_mappings = mapping_api,
      env_create_or_update = store_create_or_update,
      env_list_unstructured = store_list_unstructured,
      env_delete_unstructured = store_delete_unstructured,
      env_convert = (\<lambda>x e. if resource_of e = resource_of x then Ok x else Err UnsupportedType),
      env_set_controller_reference = store_set_controller_reference,
      env_vsconfig_from_unstructured = (\<lambda>u. content_vsconfig (us_content u)),
      env_virtual_service_from_unstructured = (\<lambda>u. content_virtual_service (us_content u)),
      env_group_version_string = group_version_string,
      env_label_selector_as_selector = store_selector,
      env_set_as_selector = selects,
      env_labels_everything = (\<lambda>_. True),
      env_new_requirement = store_requirement,
      env_selector_add = (\<lambda>sel r ls. sel ls \<and> requirement_holds r ls),
      env_string_set_list = sorted_list_of_fset,
      env_time_before = (<),
      env_fused_multiply_subtract = False\<rparr>"

section \<open>The store satisfies the laws\<close>

lemma store_env_simps [simp]:
  "env_forks store_env = fork_api"
  "env_fork_managers store_env = read_api fm_meta st_managers"
  "env_services store_env = read_api svc_meta stored_services"
  "env_deployments store_env = read_api dep_meta st_deployments"
  "env_vsconfigs store_env = read_api vsc_meta stored_vsconfigs"
  "env_mappings store_env = mapping_api"
  "env_create_or_update store_env = store_create_or_update"
  "env_list_unstructured store_env = store_list_unstructured"
  "env_delete_unstructured store_env = store_delete_unstructured"
  "env_convert store_env x e = (if resource_of e = resource_of x then Ok x else Err UnsupportedType)"
  "env_set_controller_reference store_env = store_set_controller_reference"
  "env_vsconfig_from_unstructured store_env u = content_vsconfig (us_content u)"
  "env_virtual_service_from_unstructured store_env u = content_virtual_service (us_content u)"
  "env_group_version_string store_env = group_version_string"
  "env_label_selector_as_selector store_env = store_selector"
  "env_set_as_selector store_env = selects"
  "env_labels_everything store_env = (\<lambda>_. True)"
  "env_new_requirement store_env = store_requirement"
  "env_selector_add store_env sel r ls \<longleftrightarrow> sel ls \<and> requirement_holds r ls"
  "env_string_set_list store_env = sorted_list_of_fset"
  "env_time_before store_env a b \<longleftrightarrow> a < b"
  "env_fused_multiply_subtract store_env = False"
  by (simp_all add: store_env_def)

lemma read_api_simps [simp]:
  "api_get (read_api meta items) = store_read_get meta items"
  "api_list (read_api meta items) = store_read_list meta items"
  "api_get fork_api = store_read_get fork_meta stored_forks"
  "api_list fork_api = store_read_list fork_meta stored_forks"
  "api_delete fork_api = store_fork_delete"
  "api_get mapping_api = store_read_get mp_meta st_mappings"
  "api_list mapping_api = store_read_list mp_meta st_mappings"
  "api_create_or_update mapping_api = store_mapping_write"
  "api_delete mapping_api = store_mapping_delete"
  by (simp_all add: read_api_def fork_api_def mapping_api_def)

lemma store_reads_keep:
  "keeps view (store_read_get meta items k)" "keeps view (store_read_list meta items opts)"
  by (auto simp: keeps_def store_read_get_def store_read_list_def split: option.split)

lemma store_owner_ref_controller: "controller_ref store_env store_scheme p = store_owner_ref p"
  by (simp add: controller_ref_def store_owner_ref_def)

interpretation store: owner_references store_env store_scheme
  by unfold_locales
    (auto simp: store_set_controller_reference_def store_owner_ref_controller split: if_splits)

lemma resource_gvks:
  "resource_of_list (resource_list_gvk r) = Some r"
  "resource_of_item (item_gvk (resource_list_gvk r)) = Some r"
  by (cases r; simp add: resource_of_list_def resource_of_item_def item_gvk_def deployment_copy_list_gvk_def
      service_list_gvk_def vsconfig_list_gvk_def fork_group_kind_def virtual_service_gvk_def)+

lemma stored_as_key [simp]: "object_key (stored_as x) = object_key x"
  by (cases x) (auto simp: object_key_def bump_def meta_key_def)

lemma stored_as_persisted: "persisted x (stored_as x)"
  by (cases x) (auto simp: persisted_def bump_def service_spec_persisted_def list_all2_refl)

lemma store_objs_put: "store_objs (w\<lparr>st_objects := list_put object_key x (st_objects w)\<rparr>) =
    set_object (store_objs w) (resource_of x) (meta_key (obj_meta x)) (Some x)"
  by (intro ext) (auto simp: store_objs_def set_object_def object_key_def)

lemma store_objs_del: "store_objs (w\<lparr>st_objects := list_del object_key (r, k) (st_objects w)\<rparr>) =
    set_object (store_objs w) r k None"
  by (intro ext) (auto simp: store_objs_def set_object_def)

lemma store_list_unstructured_Ok:
  assumes "store_list_unstructured (resource_list_gvk r) (in_namespace n) w = (Ok us, w')"
  shows "us = map as_unstructured (filter (\<lambda>x. resource_of x = r \<and> (n = '''' \<or> meta_namespace (obj_meta x) = n))
    (list_keyed object_key (st_objects w)))"
  using assms by (auto simp: store_list_unstructured_def resource_gvks admits_def in_namespace_def)

lemma as_unstructured_represents: "represents store_env (as_unstructured x) x"
  by (cases x) (auto simp: as_unstructured_def)

lemma store_create_or_update_effect:
  assumes "store_create_or_update x f w = (res, w')"
  shows "(\<exists>y s. f (case store_objs w (resource_of x) (meta_key (obj_meta x)) of Some e \<Rightarrow> e | None \<Rightarrow> x) = Ok y \<and>
      meta_key (obj_meta y) = meta_key (obj_meta x) \<and> persisted y s \<and>
      store_objs w' = set_object (store_objs w) (resource_of x) (meta_key (obj_meta x)) (Some s)) \<or>
    (\<not> is_ok res \<and> store_objs w' = store_objs w)"
proof -
  let ?e = "case store_objs w (resource_of x) (meta_key (obj_meta x)) of Some e \<Rightarrow> e | None \<Rightarrow> x"
  have e: "(case list_get object_key (object_key x) (st_objects w) of Some e \<Rightarrow> e | None \<Rightarrow> x) = ?e"
    by (simp add: store_objs_def object_key_def)
  show ?thesis
  proof (cases "f ?e")
    case (Ok y)
    show ?thesis
    proof (cases "object_key y = object_key x")
      case True
      then have "w' = w\<lparr>st_objects := list_put object_key (stored_as y) (st_objects w)\<rparr>"
        using assms Ok by (simp add: store_create_or_update_def e)
      moreover have "resource_of (stored_as y) = resource_of x" "meta_key (obj_meta (stored_as y)) =
          meta_key (obj_meta x)"
        using True stored_as_key [of y] by (simp_all add: object_key_def)
      ultimately have "store_objs w' = set_object (store_objs w) (resource_of x) (meta_key (obj_meta x))
          (Some (stored_as y))"
        by (simp add: store_objs_put)
      with Ok True stored_as_persisted [of y] show ?thesis by (auto simp: object_key_def)
    next
      case False
      with assms Ok show ?thesis by (auto simp: store_create_or_update_def e)
    qed
  qed (use assms e in \<open>auto simp: store_create_or_update_def\<close>)
qed

interpretation store: object_cluster store_env store_scheme store_objs
proof (unfold_locales, goal_cases)
  case (1 w r k x)
  then show ?case by (auto simp: store_objs_def object_key_def dest: list_get_key)
next
  case (2 w r k x)
  then show ?case by (auto simp: store_objs_def object_key_def dest: list_get_key)
next
  case (3 g opts w us_res w')
  then show ?case by (auto simp: store_list_unstructured_def split: option.splits)
next
  case (4 r n w us w' u)
  then obtain x where "u = as_unstructured x" "x \<in> set (list_keyed object_key (st_objects w))"
      "resource_of x = r"
    "n = '''' \<or> meta_namespace (obj_meta x) = n"
    by (auto dest!: store_list_unstructured_Ok)
  then show ?case
    using as_unstructured_represents [of x]
    by (auto simp: as_unstructured_def store_objs_def object_key_def list_keyed_set)
next
  case (5 r n w us w' k x)
  then have "list_get object_key (r, k) (st_objects w) = Some x" by (simp add: store_objs_def)
  moreover from list_get_key [OF this] have "object_key x = (r, k)" .
  ultimately have "x \<in> set (list_keyed object_key (st_objects w))" "resource_of x = r"
      "meta_key (obj_meta x) = k"
    by (auto simp: list_keyed_set object_key_def)
  with 5 show ?case
    by (intro bexI [of _ "as_unstructured x"])
      (auto simp: as_unstructured_def meta_key_def dest!: store_list_unstructured_Ok)
next
  case (6 r n w us w')
  let ?xs = "filter (\<lambda>x. resource_of x = r \<and> (n = '''' \<or> meta_namespace (obj_meta x) = n))
    (list_keyed object_key (st_objects w))"
  have "us = map as_unstructured ?xs" using 6 by (auto dest: store_list_unstructured_Ok)
  then have "map (\<lambda>u. meta_key (us_meta u)) us = map (\<lambda>x. meta_key (obj_meta x)) ?xs"
    by (simp add: as_unstructured_def)
  moreover have "distinct (map object_key ?xs)"
    using list_keyed_distinct [of object_key "st_objects w"] by (simp add: distinct_map_filter)
  then have "distinct (map (\<lambda>x. meta_key (obj_meta x)) ?xs)"
    by (auto simp: distinct_map inj_on_def object_key_def)
  ultimately show ?case by simp
next
  case (7 u w res w' r)
  then show ?case by (auto simp: store_delete_unstructured_def resource_gvks store_objs_del)
next
  case 8
  then show ?case by (intro store_create_or_update_effect) simp
next
  case (9 x e c)
  then show ?case by simp
qed

lemma store_mapping_write_effect:
  assumes "store_mapping_write m f w = (res, w')"
  shows "(\<exists>y s. f (case store_maps w (meta_key (mp_meta m)) of Some e \<Rightarrow> e | None \<Rightarrow> m) = Ok y \<and>
      mp_spec s = mp_spec y \<and>
      mp_meta s = (mp_meta y)\<lparr>meta_resource_version := meta_resource_version (mp_meta s)\<rparr> \<and>
      store_maps w' = (store_maps w)(meta_key (mp_meta m) \<mapsto> s)) \<or>
    (\<not> is_ok res \<and> store_maps w' = store_maps w)"
proof -
  let ?k = "meta_key (mp_meta m)"
  let ?e = "case store_maps w ?k of Some e \<Rightarrow> e | None \<Rightarrow> m"
  note run = assms [unfolded store_mapping_write_def Let_def store_maps_def [symmetric]]
  show ?thesis
  proof (cases "f ?e")
    case (Ok y)
    let ?s = "y\<lparr>mp_meta := bump (mp_meta y)\<rparr>"
    show ?thesis
    proof (cases "meta_key (mp_meta y) = ?k")
      case True
      with run Ok have "w' = w\<lparr>st_mappings := list_put (\<lambda>m. meta_key (mp_meta m)) ?s (st_mappings w)\<rparr>" by simp
      moreover have "meta_key (mp_meta ?s) = ?k" using True by (simp add: bump_def meta_key_def)
      ultimately have "store_maps w' = (store_maps w)(?k \<mapsto> ?s)"
        by (auto simp: store_maps_def fun_eq_iff)
      with Ok show ?thesis by (auto simp: bump_def intro!: exI [of _ ?s])
    qed (use run Ok in auto)
  qed (use run in auto)
qed

lemma store_fork_lookup: "store_frks w k = list_get (\<lambda>f. meta_key (fork_meta f)) k (stored_forks w)"
proof -
  have "map_option g (list_get key k fs) = list_get key k (map g fs)" if "\<And>f. key (g f) = key f"
      for g key and fs :: "fork list"
    by (induction fs) (auto simp: that)
  then show ?thesis by (simp add: store_frks_def stored_forks_def)
qed

interpretation store: mapping_cluster store_env store_scheme store_maps
proof (unfold_locales, goal_cases)
  case 1
  then show ?case by (auto simp: store_maps_def dest: list_get_key)
next
  case 2
  then show ?case by (auto dest: keepsD [OF store_reads_keep(1)])
next
  case 3
  then show ?case by (auto simp: store_read_get_def dest: list_get_key split: option.splits)
next
  case 4
  then show ?case by (auto dest: keepsD [OF store_reads_keep(2)])
next
  case 5
  then show ?case by (auto dest: keepsD [OF store_reads_keep(2)])
next
  case 6
  then show ?case
    by (auto simp: store_read_list_def store_items_def admits_def list_keyed_set store_maps_def
        list_get_self [where key = "\<lambda>m. meta_key (mp_meta m)", symmetric])
next
  case 7
  then show ?case by (auto simp: store_requirement_def requirement_holds_def split: if_splits)
next
  case 8
  then show ?case by (intro store_mapping_write_effect) simp
next
  case 9
  then show ?case by (auto simp: store_mapping_delete_def store_maps_def fun_eq_iff)
qed

lemma stored_service_typed:
  "x \<in> set (stored_services w) \<Longrightarrow> svc_type x = store_scheme GoService"
proof -
  have "x \<in> set (object_service y) \<Longrightarrow> svc_type x = store_scheme GoService" for y by (cases y) auto
  then show "x \<in> set (stored_services w) \<Longrightarrow> svc_type x = store_scheme GoService"
    by (auto simp: stored_services_def)
qed

lemma list_get_mem: "list_get key k xs = Some x \<Longrightarrow> x \<in> set xs"
  by (induction xs) (auto split: if_splits)

lemma store_object_calls_keep:
  "keeps (\<lambda>w. (store_maps w, store_frks w)) (store_list_unstructured g opts)"
  "keeps (\<lambda>w. (store_maps w, store_frks w)) (store_delete_unstructured u)"
  "keeps (\<lambda>w. (store_maps w, store_frks w)) (store_create_or_update x f)"
  by (auto simp: keeps_def store_list_unstructured_def store_delete_unstructured_def
      store_create_or_update_def Let_def store_maps_def store_frks_def split: option.split result.split)

lemma store_mapping_calls_keep:
  "keeps (\<lambda>w. (store_objs w, store_frks w)) (store_mapping_write m mf)"
  "keeps (\<lambda>w. (store_objs w, store_frks w)) (store_mapping_delete m)"
  by (auto simp: keeps_def store_mapping_write_def store_mapping_delete_def Let_def store_objs_def
      store_frks_def
      fun_eq_iff split: result.split option.split)

interpretation store: fork_cluster store_env store_scheme store_objs store_maps store_frks
proof (unfold_locales, unfold store_env_simps read_api_simps, goal_cases)
  case 16
  then show ?case by (auto simp: store_read_get_def store_fork_lookup split: option.splits)
next
  case 17
  then show ?case by (auto simp: store_read_get_def store_fork_lookup split: option.splits)
next
  case 18
  then show ?case by (auto simp: store_frks_def dest: list_get_key)
next
  case 19
  then show ?case
    by (auto simp: store_read_get_def stored_service_typed dest: list_get_key list_get_mem split: option.splits)
next
  case 20
  then show ?case by (auto simp: keeps_def store_fork_delete_def store_objs_def store_maps_def fun_eq_iff)
next
  case 21
  then show ?case by (auto simp: store_fork_delete_def store_frks_def fun_eq_iff)
qed (rule store_reads_keep store_object_calls_keep store_mapping_calls_keep)+

lemma store_items_names_distinct:
  assumes "lo_namespace opts \<noteq> ''''"
  shows "distinct (map (\<lambda>x. meta_name (meta x)) (store_items meta items opts w))"
proof -
  let ?xs = "store_items meta items opts w"
  have "distinct (map (\<lambda>x. meta_key (meta x)) ?xs)"
    using list_keyed_distinct by (auto simp: store_items_def intro!: distinct_map_filter)
  then show ?thesis
    using assms by (auto simp: distinct_map inj_on_def store_items_def admits_def meta_key_def)
qed

interpretation reads: steady_reads store_env "\<lambda>w opts. store_items dep_meta st_deployments opts w"
proof (unfold_locales, unfold store_env_simps read_api_simps, goal_cases)
  case 1
  then show ?case by (auto simp: store_read_list_def)
next
  case 2
  then show ?case by (rule store_items_names_distinct)
next
  case 3
  then show ?case using keepsD [OF store_reads_keep(1)] by blast
next
  case 4
  then show ?case using keepsD [OF store_reads_keep(2)] by blast
next
  case 5
  then show ?case using store_items_names_distinct by (auto simp: store_read_list_def)
qed

section \<open>Typed reads of the store\<close>

lemma list_get_services:
  "list_get (\<lambda>s. meta_key (svc_meta s)) k (concat (map object_service xs)) =
   Option.bind (list_get object_key (RService, k) xs)
     (\<lambda>x. case x of OService t \<Rightarrow> Some (t\<lparr>svc_type := store_scheme GoService\<rparr>) | _ \<Rightarrow> None)"
proof (induction xs)
  case (Cons x xs)
  then show ?case by (cases x) (auto simp: object_key_def)
qed simp

lemma list_get_vsconfigs:
  "list_get (\<lambda>v. meta_key (vsc_meta v)) k (concat (map object_vsconfig xs)) =
   Option.bind (list_get object_key (RVSConfig, k) xs)
     (\<lambda>x. case x of OVSConfig t \<Rightarrow> Some (t\<lparr>vsc_type := fork_group_kind ''VSConfig''\<rparr>) | _ \<Rightarrow> None)"
proof (induction xs)
  case (Cons x xs)
  then show ?case by (cases x) (auto simp: object_key_def)
qed simp

lemma list_get_object_key: "list_get object_key (r, k) xs = Some x \<Longrightarrow> object_key x = (r, k)"
  by (rule list_get_key)

lemma stored_service_get:
  "list_get (\<lambda>s. meta_key (svc_meta s)) k (stored_services w) = Some s \<longleftrightarrow>
   (\<exists>t. store_objs w RService k = Some (OService t) \<and> s = t\<lparr>svc_type := store_scheme GoService\<rparr>)"
  unfolding stored_services_def list_get_services store_objs_def bind_eq_Some_conv
  by (fastforce dest: list_get_object_key simp: object_key_def split: client_object.splits)

lemma stored_vsconfig_get:
  "list_get (\<lambda>v. meta_key (vsc_meta v)) k (stored_vsconfigs w) = Some v \<longleftrightarrow>
   (\<exists>t. store_objs w RVSConfig k = Some (OVSConfig t) \<and> v = t\<lparr>vsc_type := fork_group_kind ''VSConfig''\<rparr>)"
  unfolding stored_vsconfigs_def list_get_vsconfigs store_objs_def bind_eq_Some_conv
  by (fastforce dest: list_get_object_key simp: object_key_def split: client_object.splits)

lemma store_items_set:
  "x \<in> set (store_items meta items opts w) \<longleftrightarrow>
   admits opts (meta x) \<and> list_get (\<lambda>x. meta_key (meta x)) (meta_key (meta x)) (items w) = Some x"
  by (auto simp: store_items_def list_keyed_set)

lemma store_service_key: "store_objs w RService k = Some (OService t) \<Longrightarrow> meta_key (svc_meta t) = k"
  using store.view_key [of w RService k "OService t"] by simp

lemma store_vsconfig_key: "store_objs w RVSConfig k = Some (OVSConfig t) \<Longrightarrow> meta_key (vsc_meta t) = k"
  using store.view_key [of w RVSConfig k "OVSConfig t"] by simp

abbreviation store_deps :: "store \<Rightarrow> list_options \<Rightarrow> deployment list" where
  "store_deps w opts \<equiv> store_items dep_meta st_deployments opts w"

definition store_managers :: "store \<Rightarrow> namespaced_name \<Rightarrow> fork_manager option" where
  "store_managers w k = list_get (\<lambda>m. meta_key (fm_meta m)) k (st_managers w)"

lemma store_writes_steady:
  "keeps (\<lambda>w. (store_deps w, store_managers w)) (store_list_unstructured g opts)"
  "keeps (\<lambda>w. (store_deps w, store_managers w)) (store_delete_unstructured u)"
  "keeps (\<lambda>w. (store_deps w, store_managers w)) (store_create_or_update x f)"
  "keeps (\<lambda>w. (store_deps w, store_managers w)) (store_mapping_write m mf)"
  "keeps (\<lambda>w. (store_deps w, store_managers w)) (store_mapping_delete m)"
  "keeps (\<lambda>w. (store_deps w, store_managers w)) (store_fork_delete frk)"
  by (auto simp: keeps_def fun_eq_iff store_items_def store_managers_def store_fork_delete_def
      store_list_unstructured_def
      store_delete_unstructured_def store_create_or_update_def store_mapping_write_def
          store_mapping_delete_def Let_def
      split: option.split result.split)

lemma store_services_listed:
  "(\<lambda>s. (svc_meta s, svc_spec s)) ` set (store_items svc_meta stored_services opts w) =
   {(svc_meta t, svc_spec t) |t. \<exists>k. store_objs w RService k = Some (OService t) \<and> admits opts (svc_meta t)}"
proof (intro set_eqI iffI)
  fix p
  assume "p \<in> (\<lambda>s. (svc_meta s, svc_spec s)) ` set (store_items svc_meta stored_services opts w)"
  then obtain x where x: "x \<in> set (store_items svc_meta stored_services opts w)"
      "p = (svc_meta x, svc_spec x)" by auto
  from x(1) have a: "admits opts (svc_meta x)"
    and g: "list_get (\<lambda>x. meta_key (svc_meta x)) (meta_key (svc_meta x)) (stored_services w) = Some x"
    by (simp_all add: store_items_set)
  from g obtain t where t: "store_objs w RService (meta_key (svc_meta x)) = Some (OService t)"
    and xt: "svc_meta x = svc_meta t" "svc_spec x = svc_spec t"
    by (auto simp: stored_service_get)
  show "p \<in> {(svc_meta t, svc_spec t) |t. \<exists>k. store_objs w RService k = Some (OService t) \<and>
      admits opts (svc_meta t)}"
    using a t xt x(2) by auto
next
  fix p
  assume "p \<in> {(svc_meta t, svc_spec t) |t. \<exists>k. store_objs w RService k = Some (OService t) \<and>
      admits opts (svc_meta t)}"
  then obtain t k where t: "p = (svc_meta t, svc_spec t)" "store_objs w RService k = Some (OService t)"
      "admits opts (svc_meta t)"
    by auto
  let ?s = "t\<lparr>svc_type := store_scheme GoService\<rparr>"
  have "?s \<in> set (store_items svc_meta stored_services opts w)"
    using t(2,3) store_service_key [OF t(2)] by (simp add: store_items_set stored_service_get)
  then show "p \<in> (\<lambda>s. (svc_meta s, svc_spec s)) ` set (store_items svc_meta stored_services opts w)"
    using t(1) by (intro image_eqI [of _ _ ?s]) simp_all
qed

lemma store_vsconfigs_listed:
  "(\<lambda>v. (vsc_meta v, vsc_spec v)) ` set (store_items vsc_meta stored_vsconfigs opts w) =
   {(vsc_meta t, vsc_spec t) |t. \<exists>k. store_objs w RVSConfig k = Some (OVSConfig t) \<and> admits opts (vsc_meta t)}"
proof (intro set_eqI iffI)
  fix p
  assume "p \<in> (\<lambda>v. (vsc_meta v, vsc_spec v)) ` set (store_items vsc_meta stored_vsconfigs opts w)"
  then obtain x where x: "x \<in> set (store_items vsc_meta stored_vsconfigs opts w)"
      "p = (vsc_meta x, vsc_spec x)" by auto
  from x(1) have a: "admits opts (vsc_meta x)"
    and g: "list_get (\<lambda>x. meta_key (vsc_meta x)) (meta_key (vsc_meta x)) (stored_vsconfigs w) = Some x"
    by (simp_all add: store_items_set)
  from g obtain t where t: "store_objs w RVSConfig (meta_key (vsc_meta x)) = Some (OVSConfig t)"
    and xt: "vsc_meta x = vsc_meta t" "vsc_spec x = vsc_spec t"
    by (auto simp: stored_vsconfig_get)
  show "p \<in> {(vsc_meta t, vsc_spec t) |t. \<exists>k. store_objs w RVSConfig k = Some (OVSConfig t) \<and>
      admits opts (vsc_meta t)}"
    using a t xt x(2) by auto
next
  fix p
  assume "p \<in> {(vsc_meta t, vsc_spec t) |t. \<exists>k. store_objs w RVSConfig k = Some (OVSConfig t) \<and>
      admits opts (vsc_meta t)}"
  then obtain t k where t: "p = (vsc_meta t, vsc_spec t)" "store_objs w RVSConfig k =
      Some (OVSConfig t)" "admits opts (vsc_meta t)"
    by auto
  let ?v = "t\<lparr>vsc_type := fork_group_kind ''VSConfig''\<rparr>"
  have "?v \<in> set (store_items vsc_meta stored_vsconfigs opts w)"
    using t(2,3) store_vsconfig_key [OF t(2)] by (simp add: store_items_set stored_vsconfig_get)
  then show "p \<in> (\<lambda>v. (vsc_meta v, vsc_spec v)) ` set (store_items vsc_meta stored_vsconfigs opts w)"
    using t(1) by (intro image_eqI [of _ _ ?v]) simp_all
qed

lemma store_read_Ok:
  "store_read_get meta items k w = (Ok x, w') \<Longrightarrow> list_get (\<lambda>x. meta_key (meta x)) k (items w) = Some x"
  "store_read_get meta items k w = (Err NotFound, w') \<Longrightarrow> list_get (\<lambda>x. meta_key (meta x)) k (items w) = None"
  by (auto simp: store_read_get_def split: option.splits)

interpretation store: routed_cluster store_env store_scheme store_objs store_maps store_frks store_deps
    store_managers
proof (unfold_locales, unfold store_env_simps read_api_simps, goal_cases)
  case (14 k w fm w')
  then show ?case by (auto dest: store_read_Ok simp: store_managers_def)
next
  case (15 k w s w')
  from store_read_Ok(1) [OF 15] show ?case by (auto simp: stored_service_get)
next
  case (16 opts w ss w')
  then have "store_items svc_meta stored_services opts w = ss" by (auto simp: store_read_list_def)
  then show ?case using store_services_listed [of opts w] by simp
next
  case (17 k w v w')
  from store_read_Ok(1) [OF 17] show ?case by (auto simp: stored_vsconfig_get)
next
  case (18 k w w')
  show ?case
  proof (rule ccontr)
    assume "store_objs w RVSConfig k \<noteq> None"
    then obtain x where x: "store_objs w RVSConfig k = Some x" by blast
    with store.view_resource [OF x] obtain t where "x = OVSConfig t" by (cases x) auto
    with x store_read_Ok(2) [OF 18] stored_vsconfig_get [of k w "t\<lparr>vsc_type := fork_group_kind ''VSConfig''\<rparr>"]
    show False by simp
  qed
next
  case (19 opts w vs w')
  then have "store_items vsc_meta stored_vsconfigs opts w = vs" by (auto simp: store_read_list_def)
  then show ?case using store_vsconfigs_listed [of opts w] by simp
qed (rule store_reads_keep store_writes_steady)+

text \<open>
  The lists of the program are refreshed on the store: the laws of the refresher hold there for
  the services and the VSConfigs of every fork and for the VirtualService of every service.
\<close>

interpretation copied_services: stable_refresher store_env store_scheme store_objs
  "generate_services ord a" RService "fork_owner (f\<lparr>fork_type := store_scheme GoFork\<rparr>)"
  for ord a f
  by (rule services_stable [OF store.object_cluster_axioms]) (simp add: fork_owner_def)

interpretation copied_vsconfigs: stable_refresher store_env store_scheme store_objs
  "generate_vsconfigs store_env a" RVSConfig "fork_owner (f\<lparr>fork_type := store_scheme GoFork\<rparr>)"
  for a f
  by (rule vsconfigs_stable [OF store.object_cluster_axioms]) (simp add: fork_owner_def)

interpretation service_routes: stable_refresher store_env store_scheme store_objs
  "build_virtual_service store_env a" RVirtualService "service_owner (s\<lparr>svc_type := store_scheme GoService\<rparr>)"
  for a s
  by (rule virtual_services_stable [OF store.object_cluster_axioms]) (simp add: service_owner_def)

end
