(* ===== verification/Kubeforkctl.thy ===== *)
theory Kubeforkctl
  imports ApiTypes
begin

text \<open>
  \<^verbatim>\<open>kubeforkctl\<close>: the command line tool that writes the manifest of a Fork. The API server
  behind client-go, the formatting of label selectors and the YAML encoder are parameters.
\<close>

section \<open>Label options (domain/fork.go)\<close>

text \<open>
  One option string. \<open>match_labels\<close> is the map the caller passed in: writing to it
  panics when it is nil.
\<close>

type_synonym selector_parts = "labels option \<times> label_selector_requirement list"

definition label_option_error :: "string \<Rightarrow> error" where
  "label_option_error l =
     InvalidLabel (l @ '' is invalid. '' @
       [CHR 0x27] @ ''<key>'' @ [CHR 0x27] @ '', '' @ [CHR 0x27] @ ''!<key>'' @ [CHR 0x27] @ '' '' @
       [CHR 0x27] @ ''<key>=<value>'' @ [CHR 0x27] @ '' or '' @ [CHR 0x27] @ ''<key>!=<value>'' @ [CHR 0x27] @
       '' label formats are supported'')"

definition requirement_of :: "string \<Rightarrow> string \<Rightarrow> string list \<Rightarrow> label_selector_requirement" where
  "requirement_of k op vs = \<lparr>lsr_key = k, lsr_operator = op, lsr_values = vs\<rparr>"

fun add_label_option :: "string \<Rightarrow> selector_parts \<Rightarrow> selector_parts result" where
  "add_label_option l (match, exprs) =
     (let not_eq = go_split l ''!=''; eq = go_split l ''=''; exc = go_split l ''!''
      in if length not_eq = 2 then
           Ok (match, exprs @ [requirement_of (not_eq ! 0) ''NotIn'' [not_eq ! 1]])
         else if length eq = 1 \<and> length exc = 1 then
           Ok (match, exprs @ [requirement_of l ''Exists'' []])
         else if length eq = 1 \<and> length exc = 2 then
           Ok (match, exprs @ [requirement_of (exc ! 1) ''DoesNotExist'' []])
         else if length eq = 2 \<and> length exc = 1 then
           (case match of
              None \<Rightarrow> Panic NilMapWrite
            | Some ls \<Rightarrow> Ok (Some (fmupd (eq ! 0) (eq ! 1) ls), exprs))
         else Err (label_option_error l))"

fun add_label_options :: "string list \<Rightarrow> selector_parts \<Rightarrow> selector_parts result" where
  "add_label_options [] parts = Ok parts"
| "add_label_options (l # ls) parts = bind_result (add_label_option l parts) (add_label_options ls)"

definition new_selector :: "string list \<Rightarrow> labels option \<Rightarrow> label_selector result" where
  "new_selector label_from_option label_from_name =
     bind_result (add_label_options label_from_option (label_from_name, [])) (\<lambda>(match, exprs).
     Ok \<lparr>match_labels = match, match_expressions = exprs\<rparr>)"

section \<open>Parts of a Fork (domain/fork.go)\<close>

definition new_containers :: "string \<Rightarrow> string list \<Rightarrow> env_var list \<Rightarrow> container list" where
  "new_containers img container_names envs =
     map (\<lambda>name. \<lparr>ctr_name = name, ctr_image = img, ctr_env = envs\<rparr>) container_names"

definition new_env :: "string order \<Rightarrow> string \<Rightarrow> labels \<Rightarrow> env_var list" where
  "new_env ord identifier env_map =
     range_fold ord (\<lambda>k v envs. envs @ [\<lparr>ev_name = k, ev_value = v\<rparr>]) env_map
       [\<lparr>ev_name = ''FORK_IDENTIFIER'', ev_value = identifier\<rparr>]"

text \<open>
  \<open>time.Hour * validTime\<close> is a product of 64-bit signed integers and wraps around;
  adding it to the current time (nanoseconds) is \<open>Time.Add\<close>.
\<close>

definition valid_duration :: "64 word \<Rightarrow> int" where
  "valid_duration valid_time = sint (3600000000000 * valid_time)"

definition new_fork ::
  "time \<Rightarrow> string \<Rightarrow> string \<Rightarrow> string \<Rightarrow> 32 word \<Rightarrow> 64 word \<Rightarrow> label_selector \<Rightarrow> label_selector \<Rightarrow>
   container list \<Rightarrow> labels \<Rightarrow> fork" where
  "new_fork now identifier namespace fork_manager_name replica_num valid_time service_selector
     deployment_selector containers deployment_annotation =
     \<lparr>fork_type = fork_group_kind ''Fork'',
      fork_meta = (object_meta_of (''kubefork-'' @ identifier) namespace)
        \<lparr>meta_labels := fmupd ''fork.k8s.wantedly.com/identifier'' identifier fmempty\<rparr>,
      fork_spec =
        \<lparr>spec_manager = fork_manager_name,
         spec_identifier = identifier,
         spec_deadline = Some (now + valid_duration valid_time),
         spec_gateway_options = None,
         spec_services = Some \<lparr>fs_selector = Some service_selector\<rparr>,
         spec_deployments = Some
           \<lparr>fd_selector = Some deployment_selector,
            fd_template = Some
              \<lparr>pts_metadata = Some ((object_meta_of '''' '''')
                 \<lparr>meta_labels := fmupd ''role'' ''fork'' (fmupd ''app'' identifier fmempty),
                  meta_annotations := deployment_annotation\<rparr>),
               pts_spec = \<lparr>ps_containers = containers, ps_hostname = ''''\<rparr>\<rparr>,
            fd_replicas = Some replica_num\<rparr>\<rparr>\<rparr>"

section \<open>Merging maps (lib/map.go)\<close>

definition lib_merge :: "string order \<Rightarrow> labels \<Rightarrow> labels \<Rightarrow> labels" where
  "lib_merge ord m1 m2 = range_fold ord fmupd m2 (range_fold ord fmupd m1 fmempty)"

section \<open>The client (k8sClientGo/k8sClientGo.go)\<close>

record ('w) clientset =
  cs_get_service :: "string \<Rightarrow> string \<Rightarrow> ('w, service) eff"
  cs_get_deployment :: "string \<Rightarrow> string \<Rightarrow> ('w, deployment) eff"
  cs_list_services :: "string \<Rightarrow> string \<Rightarrow> ('w, service list) eff"
  cs_list_deployments :: "string \<Rightarrow> string \<Rightarrow> ('w, deployment list) eff"
  cs_format_label_selector :: "label_selector \<Rightarrow> string"
  cs_nil_labels :: "object_meta \<Rightarrow> bool"

text \<open>An object whose labels map is nil is returned as such.\<close>

definition returned_labels :: "'w clientset \<Rightarrow> object_meta \<Rightarrow> labels option" where
  "returned_labels cs m = (if cs_nil_labels cs m then None else Some (meta_labels m))"

definition get_all_service_labels :: "'w clientset \<Rightarrow> string \<Rightarrow> string \<Rightarrow> ('w, labels option) eff" where
  "get_all_service_labels cs namespace service_name =
     bind_eff (cs_get_service cs namespace service_name) (\<lambda>s. return (returned_labels cs (svc_meta s)))"

definition get_all_deployment_labels :: "'w clientset \<Rightarrow> string \<Rightarrow> string \<Rightarrow> ('w, labels option) eff" where
  "get_all_deployment_labels cs namespace deployment_name =
     bind_eff (cs_get_deployment cs namespace deployment_name) (\<lambda>d. return (returned_labels cs (dep_meta d)))"

definition image_name :: "string \<Rightarrow> string" where
  "image_name img = hd (go_split img '':'')"

definition collect_containers :: "string \<Rightarrow> deployment list \<Rightarrow> (string, container) fmap \<Rightarrow>
    (string, container) fmap" where
  "collect_containers img ds containers =
     fold (\<lambda>d containers.
       fold (\<lambda>c containers.
         if image_name (ctr_image c) = image_name img then fmupd (ctr_name c) c containers else containers)
         (dep_template_containers d) containers) ds containers"

definition get_all_containers ::
  "'w clientset \<Rightarrow> string order \<Rightarrow> string \<Rightarrow> string \<Rightarrow> label_selector \<Rightarrow> label_selector \<Rightarrow>
      ('w, string list) eff" where
  "get_all_containers cs ord namespace img service_selector deployment_selector =
     bind_eff (cs_list_services cs namespace (cs_format_label_selector cs service_selector)) (\<lambda>ss.
     bind_eff (fold_eff (\<lambda>s containers.
         bind_eff (cs_list_deployments cs namespace (cs_format_label_selector cs
             \<lparr>match_labels = Some (lib_merge ord (ss_selector (svc_spec s))
                (case match_labels deployment_selector of Some ls \<Rightarrow> ls | None \<Rightarrow> fmempty)),
              match_expressions = match_expressions deployment_selector\<rparr>)) (\<lambda>ds.
         return (collect_containers img ds containers))) ss fmempty) (\<lambda>containers.
     return (ord (fmdom containers))))"

text \<open>
  \<open>NewClientSet\<close>: the path of the configuration falls back to the home directory when the
  flag was not given and its default, the environment variable, is empty. Reading the home
  directory and the two steps of client-go are parameters.
\<close>

definition new_client_set ::
  "string result \<Rightarrow> (string \<Rightarrow> 'c result) \<Rightarrow> ('c \<Rightarrow> 'w clientset result) \<Rightarrow> string \<Rightarrow> bool \<Rightarrow>
      'w clientset result" where
  "new_client_set user_home_dir build_config new_for_config kube_config_path is_config_option_changed =
     bind_result
       (if \<not> is_config_option_changed \<and> kube_config_path = ''''
        then bind_result user_home_dir (\<lambda>home. Ok (home @ ''/.kube/config'')) else Ok kube_config_path) (\<lambda>path.
     bind_result (build_config path) new_for_config)"

section \<open>The manifest command (cmd/manifest.go)\<close>

record manifest_option =
  opt_identifier :: string
  opt_namespace :: string
  opt_output_path :: string
  opt_replica_num :: "32 word"
  opt_service_label :: "string list"
  opt_service_name :: "string option"
  opt_deployment_label :: "string list"
  opt_deployment_name :: "string option"
  opt_deployment_annotation :: labels
  opt_image :: string
  opt_env :: labels
  opt_fork_manager_name :: string
  opt_valid_time :: "64 word"
  opt_kube_config_path :: string

text \<open>The defaults of the flags; \<open>kubeconfig\<close> is the value of the variable \<open>KUBECONFIG\<close>.\<close>

definition default_manifest_option :: "string \<Rightarrow> manifest_option" where
  "default_manifest_option kubeconfig =
     \<lparr>opt_identifier = '''', opt_namespace = '''', opt_output_path = '''', opt_replica_num = 1,
      opt_service_label = [], opt_service_name = None, opt_deployment_label = [], opt_deployment_name = None,
      opt_deployment_annotation = fmempty, opt_image = '''', opt_env = fmempty, opt_fork_manager_name = '''',
      opt_valid_time = 8, opt_kube_config_path = kubeconfig\<rparr>"

text \<open>
  \<open>opt_service_name\<close> and \<open>opt_deployment_name\<close> are \<open>None\<close> when the flag was
  not given; then the selector starts from an empty map.
\<close>

definition manifest_fork ::
  "'w clientset \<Rightarrow> string order \<Rightarrow> time \<Rightarrow> manifest_option \<Rightarrow> ('w, fork) eff" where
  "manifest_fork cs ord now opt =
     bind_eff (case opt_service_name opt of None \<Rightarrow> return (Some fmempty)
       | Some n \<Rightarrow> get_all_service_labels cs (opt_namespace opt) n) (\<lambda>service_labels.
     bind_eff (lift_result (new_selector (opt_service_label opt) service_labels)) (\<lambda>service_selector.
     bind_eff (case opt_deployment_name opt of None \<Rightarrow> return (Some fmempty)
       | Some n \<Rightarrow> get_all_deployment_labels cs (opt_namespace opt) n) (\<lambda>deployment_labels.
     bind_eff (lift_result (new_selector (opt_deployment_label opt) deployment_labels)) (\<lambda>deployment_selector.
     let envs = new_env ord (opt_identifier opt) (opt_env opt) in
     bind_eff (get_all_containers cs ord (opt_namespace opt) (opt_image opt) service_selector
       deployment_selector) (\<lambda>container_names.
     let containers = new_containers (opt_image opt) container_names envs in
     return (new_fork now (opt_identifier opt) (opt_namespace opt) (opt_fork_manager_name opt)
       (opt_replica_num opt) (opt_valid_time opt) service_selector deployment_selector containers
       (opt_deployment_annotation opt)))))))"

text \<open>
  \<open>OutputManifest\<close>: \<open>marshal\<close> encodes the fork, \<open>print_out\<close> and \<open>write_file\<close> are
  the operating system.
\<close>

definition output_manifest ::
  "(fork \<Rightarrow> string result) \<Rightarrow> (string \<Rightarrow> ('w, unit) eff) \<Rightarrow> (string \<Rightarrow> string \<Rightarrow> ('w, unit) eff) \<Rightarrow>
   fork \<Rightarrow> string \<Rightarrow> ('w, unit) eff" where
  "output_manifest marshal print_out write_file f path =
     bind_eff (lift_result (marshal f)) (\<lambda>y.
     if path = '''' then print_out (y @ [CHR 0x0A]) else write_file path y)"

text \<open>\<open>new_client\<close> is \<open>NewClientSet\<close> with what it calls; \<open>kubeconfig_changed\<close> says whether the flag was given.\<close>

definition manifest_run ::
  "(string \<Rightarrow> bool \<Rightarrow> 'w clientset result) \<Rightarrow> (fork \<Rightarrow> string result) \<Rightarrow> (string \<Rightarrow> ('w, unit) eff) \<Rightarrow>
   (string \<Rightarrow> string \<Rightarrow> ('w, unit) eff) \<Rightarrow> string order \<Rightarrow> time \<Rightarrow> manifest_option \<Rightarrow> bool \<Rightarrow> ('w, unit) eff" where
  "manifest_run new_client marshal print_out write_file ord now opt kubeconfig_changed =
     bind_eff (lift_result (new_client (opt_kube_config_path opt) kubeconfig_changed)) (\<lambda>cs.
     bind_eff (manifest_fork cs ord now opt) (\<lambda>f.
     output_manifest marshal print_out write_file f (opt_output_path opt)))"

end
