(* ===== verification/KubeforkctlFacts.thy ===== *)
theory KubeforkctlFacts
  imports Kubeforkctl ListerFacts
begin

text \<open>
  Facts about the command line tool: the label options it understands and how, the arithmetic
  of the deadline, and that the Forks it writes are ones the controller handles.
\<close>

section \<open>Forms of label options\<close>

text \<open>The four documented forms, and how they are written.\<close>

datatype label_form =
    HasKey string
  | LacksKey string
  | KeyIs string string
  | KeyIsNot string string

fun render_form :: "label_form \<Rightarrow> string" where
  "render_form (HasKey k) = k"
| "render_form (LacksKey k) = ''!'' @ k"
| "render_form (KeyIs k v) = k @ ''='' @ v"
| "render_form (KeyIsNot k v) = k @ ''!='' @ v"

definition plain :: "string \<Rightarrow> bool" where
  "plain s \<longleftrightarrow> CHR ''='' \<notin> set s \<and> CHR ''!'' \<notin> set s"

fun plain_form :: "label_form \<Rightarrow> bool" where
  "plain_form (HasKey k) = plain k"
| "plain_form (LacksKey k) = plain k"
| "plain_form (KeyIs k v) = (plain k \<and> plain v)"
| "plain_form (KeyIsNot k v) = (plain k \<and> plain v)"

text \<open>What a form adds to a selector.\<close>

fun add_form :: "label_form \<Rightarrow> labels \<times> label_selector_requirement list \<Rightarrow>
    labels \<times> label_selector_requirement list" where
  "add_form (HasKey k) (m, es) = (m, es @ [requirement_of k ''Exists'' []])"
| "add_form (LacksKey k) (m, es) = (m, es @ [requirement_of k ''DoesNotExist'' []])"
| "add_form (KeyIs k v) (m, es) = (fmupd k v m, es)"
| "add_form (KeyIsNot k v) (m, es) = (m, es @ [requirement_of k ''NotIn'' [v]])"

lemma count_list_append: "count_list (xs @ ys) c = count_list xs c + count_list ys c"
  by (induction xs) auto

lemma plain_count [simp]: "plain s \<Longrightarrow> count_list s CHR ''='' = 0" "plain s \<Longrightarrow> count_list s CHR ''!'' = 0"
  by (auto simp: plain_def count_list_0_iff)

lemma split_not_equals_absent: "CHR ''='' \<notin> set s \<or> CHR ''!'' \<notin> set s \<Longrightarrow> go_split s ''!='' = [s]"
proof -
  have first: "take (Suc 0) t = [c] \<Longrightarrow> c \<in> set t" for t :: string and c
    by (cases t) auto
  have "split_from ''!='' cur s = [rev cur @ s]" if "CHR ''='' \<notin> set s" for cur
    using that by (induction s arbitrary: cur) (auto simp: take_Cons' dest: first)
  then show "CHR ''='' \<notin> set s \<or> CHR ''!'' \<notin> set s \<Longrightarrow> go_split s ''!='' = [s]"
    using go_split_absent [of "CHR ''!''" s "''=''"] by (auto simp: go_split_def)
qed

lemma add_label_option_render:
  assumes "plain_form f"
  shows "add_label_option (render_form f) (Some m, es) =
    (case add_form f (m, es) of (m', es') \<Rightarrow> Ok (Some m', es'))"
proof (cases f)
  case (HasKey k)
  with assms show ?thesis
    by (simp add: split_not_equals_absent go_split_char_count Let_def plain_def)
next
  case (LacksKey k)
  have "go_split (CHR ''!'' # k) ''!'' = ['''', k]"
    using assms LacksKey by (subst go_split_char_pair) (simp add: plain_def)
  with LacksKey assms show ?thesis
    by (simp add: split_not_equals_absent go_split_char_count Let_def plain_def)
next
  case (KeyIs k v)
  have "go_split (k @ ''='' @ v) ''='' = [k, v]"
    using assms KeyIs by (subst go_split_char_pair) (simp add: plain_def)
  with KeyIs assms show ?thesis
    by (simp add: split_not_equals_absent go_split_char_count count_list_append Let_def plain_def)
next
  case (KeyIsNot k v)
  have "go_split (k @ ''!='' @ v) ''!='' = [k, v]"
    using go_split_first [of "CHR ''!''" k "''=''" v] split_not_equals_absent [of v] assms KeyIsNot
    by (simp add: plain_def)
  with KeyIsNot show ?thesis by (simp add: Let_def)
qed

text \<open>A list of documented forms is accepted and means the conjunction of its parts.\<close>

lemma new_selector_render:
  assumes "\<forall>f \<in> set fs. plain_form f"
  shows "new_selector (map render_form fs) (Some m) =
    (case fold add_form fs (m, []) of (m', es) \<Rightarrow> Ok \<lparr>match_labels = Some m', match_expressions = es\<rparr>)"
proof -
  have "add_label_options (map render_form fs) (Some m, es) =
      (case fold add_form fs (m, es) of (m', es') \<Rightarrow> Ok (Some m', es'))" for m es
    using assms
  proof (induction fs arbitrary: m es)
    case (Cons f fs)
    then show ?case
      by (cases "add_form f (m, es)") (simp add: add_label_option_render del: add_label_option.simps)
  qed simp
  from this [of m "[]"] show ?thesis by (simp add: new_selector_def split: prod.split)
qed

text \<open>Which options are refused, and which panic.\<close>

lemma add_label_option_Err:
  "(\<exists>e. add_label_option l parts = Err e) \<longleftrightarrow>
   length (go_split l ''!='') \<noteq> 2 \<and>
   (count_list l CHR ''='' > 1 \<or> count_list l CHR ''!'' > 1 \<or>
    count_list l CHR ''='' = 1 \<and> count_list l CHR ''!'' = 1)"
  by (cases parts) (auto simp: go_split_char_count Let_def split: option.splits)

lemma add_label_option_Panic:
  "add_label_option l parts = Panic p \<longleftrightarrow>
   p = NilMapWrite \<and> fst parts = None \<and> length (go_split l ''!='') \<noteq> 2 \<and>
   count_list l CHR ''='' = 1 \<and> count_list l CHR ''!'' = 0"
  by (cases parts) (auto simp: go_split_char_count Let_def split: option.splits)

text \<open>An exclamation mark anywhere is read like one in front: the text before it is dropped.\<close>

lemma text_before_mark_dropped:
  assumes "plain a" "plain b"
  shows "add_label_option (a @ ''!'' @ b) parts = add_label_option (''!'' @ b) parts"
proof -
  have "go_split (a @ ''!'' @ b) ''!'' = [a, b]" "go_split (''!'' @ b) ''!'' = ['''', b]"
    using assms by (subst go_split_char_pair, simp add: plain_def)+
  moreover have "go_split (a @ ''!'' @ b) ''!='' = [a @ ''!'' @ b]" "go_split (''!'' @ b) ''!='' = [''!'' @ b]"
    using assms by (intro split_not_equals_absent; simp add: plain_def)+
  ultimately show ?thesis
    using assms by (cases parts) (simp add: go_split_char_count count_list_append Let_def)
qed

section \<open>Deadlines\<close>

text \<open>The product of hours and nanoseconds is exact for up to 292 years, and wraps beyond.\<close>

lemma valid_duration_exact:
  assumes "-2562047 \<le> sint t" "sint t \<le> 2562047"
  shows "valid_duration t = 3600000000000 * sint t"
proof -
  have "valid_duration t = signed_take_bit 63 (3600000000000 * sint t)"
    by (simp add: valid_duration_def sint_word_ariths(3))
  also have "\<dots> = 3600000000000 * sint t"
    using assms by (intro signed_take_bit_int_eq_self) simp_all
  finally show ?thesis .
qed

lemma valid_duration_wraps: "valid_duration 2562048 < 0"
  by (simp add: valid_duration_def)

section \<open>Maps, environments and containers\<close>

lemma lib_merge_add: "range_order ord \<Longrightarrow> lib_merge ord a b = a ++\<^sub>f b"
  by (simp add: lib_merge_def range_fold_fmupd)

lemma new_env_entries:
  assumes "range_order ord"
  shows "new_env ord i m = \<lparr>ev_name = ''FORK_IDENTIFIER'', ev_value = i\<rparr> #
      map (\<lambda>k. \<lparr>ev_name = k, ev_value = the (fmlookup m k)\<rparr>) (ord (fmdom m))"
proof -
  have "\<forall>k \<in> set ks. k |\<in>| fmdom m \<Longrightarrow>
    fold (\<lambda>k es. case fmlookup m k of Some v \<Rightarrow> es @ [\<lparr>ev_name = k, ev_value = v\<rparr>] | None \<Rightarrow> es) ks es =
    es @ map (\<lambda>k. \<lparr>ev_name = k, ev_value = the (fmlookup m k)\<rparr>) ks" for ks es
    by (induction ks arbitrary: es) (auto simp: fmlookup_dom_iff)
  with assms show ?thesis by (simp add: new_env_def range_fold_def)
qed

text \<open>Containers are chosen by the name of their image, without its tag.\<close>

lemma collect_containers_dom:
  "fset (fmdom (collect_containers img ds m)) = fset (fmdom m) \<union>
     {ctr_name c |c d. d \<in> set ds \<and> c \<in> set (dep_template_containers d) \<and>
         image_name (ctr_image c) = image_name img}"
proof -
  have inner: "fset (fmdom (fold (\<lambda>c containers. if image_name (ctr_image c) = image_name img
        then fmupd (ctr_name c) c containers else containers) cs m)) =
      fset (fmdom m) \<union> {ctr_name c |c. c \<in> set cs \<and> image_name (ctr_image c) = image_name img}" for cs m
    by (induction cs arbitrary: m) auto
  show ?thesis
    unfolding collect_containers_def by (induction ds arbitrary: m) (auto simp: inner)
qed

lemma image_name_tag: "CHR '':'' \<notin> set n \<Longrightarrow> image_name (n @ '':'' @ t) = n"
  using go_split_first [of "CHR '':''" n "[]" t] by (simp add: image_name_def)

text \<open>The selector of the deployments that are looked up for a service: its own, then that of the option.\<close>

definition deployments_of_service :: "service \<Rightarrow> label_selector \<Rightarrow> label_selector" where
  "deployments_of_service s dsel =
     \<lparr>match_labels = Some (ss_selector (svc_spec s) ++\<^sub>f
        (case match_labels dsel of Some ls \<Rightarrow> ls | None \<Rightarrow> fmempty)),
      match_expressions = match_expressions dsel\<rparr>"

lemma collect_of_all_services:
  fixes lst :: "service \<Rightarrow> ('w, deployment list) eff"
  defines "step img \<equiv> \<lambda>s containers. bind_eff (lst s) (\<lambda>ds. return (collect_containers img ds containers))"
  assumes "\<forall>s \<in> set ss. \<forall>u. \<exists>u'. lst s u = (Ok (found s), u')"
  shows "\<exists>m v'. fold_eff (step img) ss m0 v = (Ok m, v') \<and>
    fset (fmdom m) = fset (fmdom m0) \<union> (\<Union>s \<in> set ss. {ctr_name c |c d. d \<in> set (found s) \<and>
      c \<in> set (dep_template_containers d) \<and> image_name (ctr_image c) = image_name img})"
  using assms(2)
proof (induction ss arbitrary: m0 v)
  case (Cons s ss)
  let ?m = "collect_containers img (found s) m0"
  from Cons.prems obtain v1 where "lst s v = (Ok (found s), v1)" by (meson list.set_intros(1))
  then have "step img s m0 v = (Ok ?m, v1)" by (simp add: step_def bind_eff_def)
  then have "fold_eff (step img) (s # ss) m0 v = fold_eff (step img) ss ?m v1" by (simp add: bind_eff_def)
  moreover have "\<forall>s \<in> set ss. \<forall>u. \<exists>u'. lst s u = (Ok (found s), u')" using Cons.prems by simp
  ultimately show ?case using Cons.IH [of ?m v1] by (simp add: collect_containers_dom Un_assoc)
qed simp

section \<open>What the tool writes, the controller handles\<close>

lemma new_fork_handled:
  "spec_deployments (fork_spec (new_fork now i ns mgr n t ss ds cs anns)) \<noteq> None"
  "\<not> template_without_metadata (new_fork now i ns mgr n t ss ds cs anns)"
  by (simp_all add: new_fork_def template_without_metadata_def)

lemma new_fork_keeps_routing: "template_keeps_routing (new_fork now i ns mgr n t ss ds cs anns) s"
  by (auto simp: new_fork_def template_keeps_routing_def get_label_key_for_routing_label_def
      sprintf_dash_def fork_identifier_label_key_def)

lemma manifest_fork_shape:
  assumes "manifest_fork cs ord now opt w = (Ok f, w')"
  shows "\<exists>ss ds ctrs. f = new_fork now (opt_identifier opt) (opt_namespace opt) (opt_fork_manager_name opt)
    (opt_replica_num opt) (opt_valid_time opt) ss ds ctrs (opt_deployment_annotation opt)"
  using assms by (auto simp: manifest_fork_def eff_simps Let_def split: option.splits)

end
