(* ===== verification/ForkWatcher.thy ===== *)
theory ForkWatcher
  imports ApiTypes
begin

text \<open>
  \<^verbatim>\<open>controllers/fork_watcher.go\<close>: on every tick the watcher lists the forks and sends an event
  for each that is past its deadline. The module is at Go 1.18, where the loop variable is one
  cell for the whole \<open>range\<close> loop, and the event holds a pointer to that cell: the work
  queue reads the name of the fork when it handles the event, not when it was sent.
\<close>

section \<open>State and steps\<close>

text \<open>
  \<open>fw_cells\<close> are the loop variables, one per tick so far, the last one being the current loop's;
  \<open>fw_pending\<close> is the rest of the list of the current loop. The channel is unbuffered: \<open>fw_sending\<close>
  is the pointer the loop is waiting to hand over, \<open>fw_inflight\<close> the pointers received and not yet
  handled, \<open>fw_queue\<close> the requests enqueued. \<open>fw_cancelled\<close> is \<open>ctx.Done()\<close>, \<open>fw_receiving\<close> whether
  the other end of the channel is still read. \<open>Start\<close> has returned when \<open>fw_returned\<close> is set.
\<close>

record watcher =
  fw_now :: time
  fw_pending :: "fork list"
  fw_sending :: "nat option"
  fw_cells :: "fork option list"
  fw_inflight :: "nat list"
  fw_queue :: "namespaced_name list"
  fw_cancelled :: bool
  fw_receiving :: bool
  fw_returned :: "unit result option"

text \<open>
  \<open>Tick\<close>, \<open>ListFailed\<close> and \<open>Quit\<close> are the cases of \<open>select\<close>, \<open>Advance\<close> an iteration of the loop up to
  the send. \<open>Receive\<close>, \<open>Handle\<close> and \<open>StopReceiving\<close> are done by the work queue, \<open>CtxDone\<close> by the manager.
\<close>

datatype watch_event =
    Tick time "fork list"
  | ListFailed error
  | Advance
  | Receive
  | Handle
  | CtxDone
  | StopReceiving
  | Quit

definition start_watcher :: watcher where
  "start_watcher = \<lparr>fw_now = 0, fw_pending = [], fw_sending = None, fw_cells = [], fw_inflight = [],
      fw_queue = [],
     fw_cancelled = False, fw_receiving = True, fw_returned = None\<rparr>"

text \<open>\<open>Start\<close> stands at its \<open>select\<close>.\<close>

definition waiting :: "watcher \<Rightarrow> bool" where
  "waiting s \<longleftrightarrow> fw_returned s = None \<and> fw_pending s = [] \<and> fw_sending s = None"

text \<open>Lines 37 to 44: no deadline and \<open>Deadline.After(now)\<close> are skipped.\<close>

definition outdated :: "time \<Rightarrow> fork \<Rightarrow> bool" where
  "outdated now f = (case spec_deadline (fork_spec f) of None \<Rightarrow> False | Some d \<Rightarrow> \<not> now < d)"

definition fork_key :: "fork \<Rightarrow> namespaced_name" where
  "fork_key f = meta_key (fork_meta f)"

text \<open>
  The next fork is copied into the loop variable; the loop goes on to send an event with its
  address when the fork is outdated.
\<close>

definition advance :: "fork \<Rightarrow> fork list \<Rightarrow> watcher \<Rightarrow> watcher" where
  "advance f fs s =
     (let cell = length (fw_cells s) - 1
      in s\<lparr>fw_pending := fs, fw_cells := (fw_cells s)[cell := Some f],
            fw_sending := (if outdated (fw_now s) f then Some cell else None)\<rparr>)"

fun watch_exec :: "watch_event \<Rightarrow> watcher \<Rightarrow> watcher option" where
  "watch_exec (Tick now forks) s =
     (if waiting s then Some (s\<lparr>fw_now := now, fw_pending := forks, fw_cells := fw_cells s @ [None]\<rparr>)
         else None)"
| "watch_exec (ListFailed e) s =
     (if waiting s then Some (s\<lparr>fw_returned := Some (wrap_error ''failed to get forkList'' (Err e))\<rparr>)
         else None)"
| "watch_exec Advance s =
     (case fw_pending s of
        f # fs \<Rightarrow> if fw_returned s = None \<and> fw_sending s = None then Some (advance f fs s) else None
      | [] \<Rightarrow> None)"
| "watch_exec Receive s =
     (case fw_sending s of
        Some cell \<Rightarrow>
          if fw_returned s = None \<and> fw_receiving s
          then Some (s\<lparr>fw_sending := None, fw_inflight := fw_inflight s @ [cell]\<rparr>) else None
      | None \<Rightarrow> None)"
| "watch_exec Handle s =
     (case fw_inflight s of
        cell # rest \<Rightarrow>
          (case fw_cells s ! cell of
             Some f \<Rightarrow> Some (s\<lparr>fw_inflight := rest, fw_queue := fw_queue s @ [fork_key f]\<rparr>)
           | None \<Rightarrow> None)
      | [] \<Rightarrow> None)"
| "watch_exec CtxDone s = Some (s\<lparr>fw_cancelled := True\<rparr>)"
| "watch_exec StopReceiving s = Some (s\<lparr>fw_receiving := False\<rparr>)"
| "watch_exec Quit s =
     (if waiting s \<and> fw_cancelled s then Some (s\<lparr>fw_returned := Some (Ok ())\<rparr>) else None)"

fun watch_run :: "watch_event list \<Rightarrow> watcher \<Rightarrow> watcher option" where
  "watch_run [] s = Some s"
| "watch_run (e # es) s = Option.bind (watch_exec e s) (watch_run es)"

text \<open>The same as a step relation, for reasoning about every interleaving.\<close>

inductive watch_step :: "watcher \<Rightarrow> watch_event \<Rightarrow> watcher \<Rightarrow> bool" where
  tick: "waiting s \<Longrightarrow>
    watch_step s (Tick now forks) (s\<lparr>fw_now := now, fw_pending := forks, fw_cells := fw_cells s @ [None]\<rparr>)"
| list_failed: "waiting s \<Longrightarrow>
    watch_step s (ListFailed e) (s\<lparr>fw_returned := Some (Err (Wrapped ''failed to get forkList'' e))\<rparr>)"
| advance: "fw_returned s = None \<Longrightarrow> fw_sending s = None \<Longrightarrow> fw_pending s = f # fs \<Longrightarrow>
    watch_step s Advance (advance f fs s)"
| receive: "fw_returned s = None \<Longrightarrow> fw_sending s = Some cell \<Longrightarrow> fw_receiving s \<Longrightarrow>
    watch_step s Receive (s\<lparr>fw_sending := None, fw_inflight := fw_inflight s @ [cell]\<rparr>)"
| handle: "fw_inflight s = cell # rest \<Longrightarrow> fw_cells s ! cell = Some f \<Longrightarrow>
    watch_step s Handle (s\<lparr>fw_inflight := rest, fw_queue := fw_queue s @ [fork_key f]\<rparr>)"
| ctx_done: "watch_step s CtxDone (s\<lparr>fw_cancelled := True\<rparr>)"
| stop_receiving: "watch_step s StopReceiving (s\<lparr>fw_receiving := False\<rparr>)"
| quit: "waiting s \<Longrightarrow> fw_cancelled s \<Longrightarrow> watch_step s Quit (s\<lparr>fw_returned := Some (Ok ())\<rparr>)"

inductive_cases watch_advanceE: "watch_step s Advance s'"
inductive_cases watch_receiveE: "watch_step s Receive s'"
inductive_cases watch_quitE: "watch_step s Quit s'"
inductive_simps watch_tick_iff: "watch_step s (Tick now forks) s'"
inductive_simps watch_handle_iff: "watch_step s Handle s'"

lemma watch_step_exec: "watch_step s e s' \<longleftrightarrow> watch_exec e s = Some s'"
proof
  show "watch_step s e s' \<Longrightarrow> watch_exec e s = Some s'"
    by (induction rule: watch_step.induct) auto
  show "watch_exec e s = Some s' \<Longrightarrow> watch_step s e s'"
    by (cases e) (auto split: if_splits list.splits option.splits intro: watch_step.intros)
qed

text \<open>What the watcher has been given so far: the forks of all its listings.\<close>

inductive watch_reachable :: "fork set \<Rightarrow> watcher \<Rightarrow> bool" where
  start: "watch_reachable {} start_watcher"
| step: "watch_reachable seen s \<Longrightarrow> watch_step s e s' \<Longrightarrow>
    watch_reachable (case e of Tick now forks \<Rightarrow> seen \<union> set forks | _ \<Rightarrow> seen) s'"

section \<open>Invariants of every interleaving\<close>

text \<open>
  Pointers of events point to loop variables that have been assigned, every assigned or pending
  fork was listed, and so was every fork whose name is enqueued.
\<close>

definition watch_inv :: "fork set \<Rightarrow> watcher \<Rightarrow> bool" where
  "watch_inv seen s \<longleftrightarrow>
     (\<forall>c \<in> set (fw_inflight s) \<union> set_option (fw_sending s). c < length (fw_cells s) \<and> fw_cells s ! c \<noteq> None) \<and>
     (\<forall>f. Some f \<in> set (fw_cells s) \<longrightarrow> f \<in> seen) \<and>
     set (fw_pending s) \<subseteq> seen \<and> set (fw_queue s) \<subseteq> fork_key ` seen \<and>
     (fw_pending s \<noteq> [] \<longrightarrow> fw_cells s \<noteq> [])"

lemma watch_inv_step:
  assumes "watch_step s e s'" and "watch_inv seen s"
  shows "watch_inv (case e of Tick now forks \<Rightarrow> seen \<union> set forks | _ \<Rightarrow> seen) s'"
  using assms
proof cases
  case (tick now forks)
  with assms(2) show ?thesis
    by (auto simp: watch_inv_def nth_append waiting_def)
next
  case (advance f fs)
  let ?c = "length (fw_cells s) - 1"
  have cells: "fw_cells s \<noteq> []" and seen: "f \<in> seen" "set fs \<subseteq> seen"
    using assms(2) advance by (auto simp: watch_inv_def)
  have "g \<in> seen" if "Some g \<in> set ((fw_cells s)[?c := Some f])" for g
    using that seen(1) assms(2) set_update_subset_insert [of "fw_cells s" ?c "Some f"]
    by (auto simp: watch_inv_def)
  moreover have "c < length (fw_cells s) \<and> (fw_cells s)[?c := Some f] ! c \<noteq> None"
    if "c \<in> set (fw_inflight s) \<union> set_option (fw_sending s) \<or> c = ?c" for c
    using that assms(2) cells by (cases "c = ?c") (auto simp: watch_inv_def)
  ultimately show ?thesis
    using advance assms(2) seen cells by (auto simp: watch_inv_def advance_def Let_def)
next
  case (handle cell rest f)
  have "cell < length (fw_cells s)" using assms(2) handle by (simp add: watch_inv_def)
  from nth_mem [OF this] have "Some f \<in> set (fw_cells s)" using handle by simp
  then have "f \<in> seen" using assms(2) by (simp add: watch_inv_def)
  with handle assms(2) show ?thesis by (auto simp: watch_inv_def)
qed (auto simp: watch_inv_def)

lemma watch_reachable_inv: "watch_reachable seen s \<Longrightarrow> watch_inv seen s"
proof (induction rule: watch_reachable.induct)
  case start
  then show ?case by (simp add: watch_inv_def start_watcher_def)
next
  case (step seen s e s')
  then show ?case by (intro watch_inv_step)
qed

text \<open>An event in flight can always be handled: the queue never dereferences a nil pointer.\<close>

lemma watch_handle_enabled:
  assumes "watch_reachable seen s" and "fw_inflight s \<noteq> []"
  shows "\<exists>s'. watch_step s Handle s'"
proof -
  from assms(2) obtain c rest where c: "fw_inflight s = c # rest" by (cases "fw_inflight s") auto
  with watch_reachable_inv [OF assms(1)] obtain f where "fw_cells s ! c = Some f"
    by (auto simp: watch_inv_def)
  with c show ?thesis by (auto intro: watch_step.handle)
qed

section \<open>Schedules\<close>

text \<open>Handling every event before the loop goes on, and handling them all after the loop.\<close>

definition prompt_schedule :: "time \<Rightarrow> fork list \<Rightarrow> watch_event list" where
  "prompt_schedule now forks =
     concat (map (\<lambda>f. if outdated now f then [Advance, Receive, Handle] else [Advance]) forks)"

definition loop_schedule :: "time \<Rightarrow> fork list \<Rightarrow> watch_event list" where
  "loop_schedule now forks = concat (map (\<lambda>f. if outdated now f then [Advance, Receive] else [Advance]) forks)"

definition late_schedule :: "time \<Rightarrow> fork list \<Rightarrow> watch_event list" where
  "late_schedule now forks = loop_schedule now forks @ map (\<lambda>_. Handle) (filter (outdated now) forks)"

lemma watch_run_append: "watch_run (es @ es') s = Option.bind (watch_run es s) (watch_run es')"
  by (induction es arbitrary: s) (auto split: Option.bind_split)

lemma prompt_loop:
  assumes "fw_pending s = forks" "fw_returned s = None" "fw_sending s = None" "fw_inflight s = []"
    and "fw_cells s \<noteq> []" "fw_receiving s"
  shows "\<exists>s'. watch_run (prompt_schedule (fw_now s) forks) s = Some s' \<and> fw_inflight s' = [] \<and> waiting s' \<and>
    fw_queue s' = fw_queue s @ map fork_key (filter (outdated (fw_now s)) forks)"
  using assms
proof (induction forks arbitrary: s)
  case (Cons f fs)
  let ?c = "length (fw_cells s) - 1"
  define s1 where "s1 = (advance f fs s)\<lparr>fw_sending := None, fw_inflight := [],
    fw_queue := fw_queue s @ (if outdated (fw_now s) f then [fork_key f] else [])\<rparr>"
  have run: "watch_run (if outdated (fw_now s) f then [Advance, Receive, Handle] else [Advance]) s = Some s1"
    using Cons.prems by (auto simp: advance_def Let_def s1_def)
  have "fw_pending s1 = fs" "fw_returned s1 = None" "fw_sending s1 = None" "fw_inflight s1 = []"
      "fw_cells s1 \<noteq> []"
    "fw_receiving s1" "fw_now s1 = fw_now s"
    using Cons.prems by (auto simp: s1_def advance_def Let_def)
  from Cons.IH [OF this(1-6)] this(7) obtain s' where
    "watch_run (prompt_schedule (fw_now s) fs) s1 = Some s'" "fw_inflight s' = []" "waiting s'"
    "fw_queue s' = fw_queue s1 @ map fork_key (filter (outdated (fw_now s)) fs)" by auto
  with run show ?case by (auto simp: prompt_schedule_def watch_run_append s1_def)
qed (auto simp: prompt_schedule_def waiting_def)

lemma prompt_tick:
  assumes "waiting s" "fw_inflight s = []" "fw_receiving s"
  shows "\<exists>s'. watch_run (Tick now forks # prompt_schedule now forks) s = Some s' \<and> fw_inflight s' = [] \<and>
      waiting s' \<and>
    fw_queue s' = fw_queue s @ map fork_key (filter (outdated now) forks)"
proof -
  let ?s = "s\<lparr>fw_now := now, fw_pending := forks, fw_cells := fw_cells s @ [None]\<rparr>"
  have "watch_exec (Tick now forks) s = Some ?s" using assms by simp
  moreover from prompt_loop [of ?s forks] assms obtain s' where
    "watch_run (prompt_schedule now forks) ?s = Some s'" "fw_inflight s' = []" "waiting s'"
    "fw_queue s' = fw_queue s @ map fork_key (filter (outdated now) forks)" by (auto simp: waiting_def)
  ultimately show ?thesis by (auto simp del: watch_exec.simps)
qed

lemma late_loop:
  assumes "fw_pending s = forks" "fw_returned s = None" "fw_sending s = None" "fw_cells s = cs @ [c]"
      "fw_receiving s"
  shows "watch_run (loop_schedule (fw_now s) forks) s = Some (s\<lparr>fw_pending := [],
    fw_cells := cs @ [if forks = [] then c else Some (last forks)],
    fw_inflight := fw_inflight s @ replicate (length (filter (outdated (fw_now s)) forks)) (length cs)\<rparr>)"
  using assms
proof (induction forks arbitrary: s c)
  case (Cons f fs)
  define s1 where "s1 = s\<lparr>fw_pending := fs, fw_cells := cs @ [Some f],
    fw_inflight := fw_inflight s @ (if outdated (fw_now s) f then [length cs] else [])\<rparr>"
  have run: "watch_run (if outdated (fw_now s) f then [Advance, Receive] else [Advance]) s = Some s1"
    using Cons.prems by (auto simp: advance_def Let_def s1_def)
  have "fw_pending s1 = fs" "fw_returned s1 = None" "fw_sending s1 = None" "fw_cells s1 = cs @ [Some f]"
      "fw_receiving s1"
    using Cons.prems by (auto simp: s1_def)
  from Cons.IH [OF this] run show ?case
    by (auto simp: loop_schedule_def watch_run_append s1_def replicate_append_same)
qed (auto simp: loop_schedule_def)

lemma late_handle:
  assumes "fw_inflight s = replicate n k" "k < length (fw_cells s)" "fw_cells s ! k = Some f"
  shows "watch_run (replicate n Handle) s =
    Some (s\<lparr>fw_inflight := [], fw_queue := fw_queue s @ replicate n (fork_key f)\<rparr>)"
  using assms
proof (induction n arbitrary: s)
  case (Suc n)
  let ?s = "s\<lparr>fw_inflight := replicate n k, fw_queue := fw_queue s @ [fork_key f]\<rparr>"
  from Suc.IH [of ?s] Suc.prems show ?case by simp
qed simp

section \<open>Whether the loop ends\<close>

text \<open>
  What the current loop has left to do: two steps per pending fork at most, and one for the event
  it is sending. The steps of the loop use it up, and when it is used up the watcher waits.
\<close>

definition loop_left :: "watcher \<Rightarrow> nat" where
  "loop_left s = 2 * length (fw_pending s) + (if fw_sending s = None then 0 else 1)"

lemma loop_step_left:
  assumes "watch_exec e s = Some s'" and "e = Advance \<or> e = Receive"
  shows "loop_left s' < loop_left s"
  using assms by (auto simp: loop_left_def advance_def Let_def split: list.splits option.splits if_splits)

lemma loop_run_left:
  "watch_run es s = Some s' \<Longrightarrow> set es \<subseteq> {Advance, Receive} \<Longrightarrow> loop_left s' + length es \<le> loop_left s"
proof (induction es arbitrary: s)
  case (Cons e es)
  then obtain s1 where step: "watch_exec e s = Some s1" and run: "watch_run es s1 = Some s'"
    by (auto simp: bind_eq_Some_conv)
  from Cons.IH [OF run] loop_step_left [OF step] Cons.prems(2) show ?case by fastforce
qed simp

lemma loop_progress:
  assumes "fw_returned s = None" "fw_receiving s" "\<not> waiting s"
  shows "watch_exec Advance s \<noteq> None \<or> watch_exec Receive s \<noteq> None"
  using assms by (auto simp: waiting_def split: list.splits option.splits)

lemma loop_run_returned:
  assumes "watch_run es s = Some s'" "set es \<subseteq> {Advance, Receive}"
  shows "fw_returned s' = fw_returned s \<and> fw_receiving s' = fw_receiving s"
  using assms
proof (induction es arbitrary: s)
  case (Cons e es)
  then obtain s1 where step: "watch_exec e s = Some s1" and run: "watch_run es s1 = Some s'"
    by (auto simp: bind_eq_Some_conv)
  have "fw_returned s1 = fw_returned s \<and> fw_receiving s1 = fw_receiving s"
    using step Cons.prems(2) by (auto simp: advance_def Let_def split: list.splits option.splits if_splits)
  with Cons.IH [OF run] Cons.prems(2) show ?case by simp
qed simp

text \<open>A loop that runs on until it can do no more ends at the \<open>select\<close>.\<close>

lemma loop_ends:
  assumes "fw_returned s = None" "fw_receiving s"
  shows "\<exists>es s'. set es \<subseteq> {Advance, Receive} \<and> watch_run es s = Some s' \<and> waiting s'"
  using assms
proof (induction "loop_left s" arbitrary: s rule: less_induct)
  case less
  show ?case
  proof (cases "waiting s")
    case True
    then show ?thesis by (intro exI [of _ "[]"] exI [of _ s]) simp
  next
    case False
    with loop_progress less.prems obtain e s1
        where e: "e \<in> {Advance, Receive}" "watch_exec e s = Some s1" by blast
    from loop_run_returned [of "[e]" s s1] e have "fw_returned s1 = None" "fw_receiving s1"
      using less.prems by auto
    with less.hyps [of s1] loop_step_left [OF e(2)] e(1) obtain es s' where
      "set es \<subseteq> {Advance, Receive}" "watch_run es s1 = Some s'" "waiting s'" by blast
    with e show ?thesis by (intro exI [of _ "e # es"] exI [of _ s']) simp
  qed
qed

text \<open>A send that nobody receives keeps the loop where it is, cancelled or not.\<close>

lemma blocked_send_stays:
  assumes "fw_sending s = Some c" "\<not> fw_receiving s" "watch_exec e s = Some s'"
  shows "fw_sending s' = Some c \<and> \<not> fw_receiving s' \<and> fw_returned s' = fw_returned s"
  using assms by (cases e) (auto simp: waiting_def split: list.splits option.splits if_splits)

lemma blocked_send_run:
  "watch_run es s = Some s' \<Longrightarrow> fw_sending s = Some c \<Longrightarrow> \<not> fw_receiving s \<Longrightarrow>
   fw_sending s' = Some c \<and> fw_returned s' = fw_returned s"
proof (induction es arbitrary: s)
  case (Cons e es)
  then obtain s1 where step: "watch_exec e s = Some s1" and run: "watch_run es s1 = Some s'"
    by (auto simp: bind_eq_Some_conv)
  from blocked_send_stays [OF Cons.prems(2,3) step] Cons.IH [OF run] show ?case by simp
qed simp

end
