(* ===== verification/Fixtures.thy ===== *)
theory Fixtures
  imports Store KubeforkctlFacts ForkWatcher
begin

text \<open>
  The objects of \<^verbatim>\<open>pkg/testing/helper.go\<close> and small worlds made of them, on which the
  program is run by evaluation. They are the concrete inputs of the witnesses.
\<close>

section \<open>Objects (pkg/testing/helper.go)\<close>

text \<open>Options of a Service. A map that is nil is made before it is written to.\<close>

definition add_svc_annotation :: "string \<Rightarrow> string \<Rightarrow> service \<Rightarrow> service" where
  "add_svc_annotation key value svc =
     svc\<lparr>svc_meta := (svc_meta svc)\<lparr>meta_annotations := fmupd key value (meta_annotations (svc_meta svc))\<rparr>\<rparr>"

definition add_svc_label :: "string \<Rightarrow> string \<Rightarrow> service \<Rightarrow> service" where
  "add_svc_label key value svc =
     svc\<lparr>svc_meta := (svc_meta svc)\<lparr>meta_labels := fmupd key value (meta_labels (svc_meta svc))\<rparr>\<rparr>"

definition gen_service :: "string \<Rightarrow> service" where
  "gen_service name =
     \<lparr>svc_type = \<lparr>gvk_group = '''', gvk_version = ''v1'', gvk_kind = ''Service''\<rparr>,
      svc_meta = object_meta_of name ''some-namespace'',
      svc_spec =
        \<lparr>ss_type = ''ClusterIP'', ss_cluster_ip = '''',
         ss_ports = [\<lparr>sp_name = ''http'', sp_protocol = ''TCP'', sp_app_protocol = None, sp_port = 80,
           sp_target_port = IntVal 8081, sp_node_port = 0\<rparr>],
         ss_selector = fmap_of_list [(''app'', ''some-app''), (''role'', ''web'')]\<rparr>\<rparr>"

definition gen_service_with :: "string \<Rightarrow> (service \<Rightarrow> service) list \<Rightarrow> service" where
  "gen_service_with name opts = fold (\<lambda>opt svc. opt svc) opts (gen_service name)"

definition gen_vsconfig :: "string \<Rightarrow> string \<Rightarrow> vsconfig" where
  "gen_vsconfig target_service_name identifier =
     \<lparr>vsc_type = \<lparr>gvk_group = ''vsconfig.k8s.wantedly.com'', gvk_version = ''v1beta1'',
         gvk_kind = ''VSConfig''\<rparr>,
      vsc_meta = object_meta_of (sprintf_dash target_service_name identifier) ''some-namespace'',
      vsc_spec = \<lparr>vsc_host = target_service_name, vsc_service = ''custom-routing-service-name'',
        vsc_header_name = ''some-header-name'', vsc_header_value = identifier\<rparr>\<rparr>"

definition gen_vs :: "string \<Rightarrow> string \<Rightarrow> virtual_service" where
  "gen_vs name host =
     \<lparr>vs_type = \<lparr>gvk_group = ''networking.istio.io'', gvk_version = ''v1beta1'', gvk_kind = ''VirtualService''\<rparr>,
      vs_meta = object_meta_of name ''some-namespace'', vs_spec = \<lparr>vs_hosts = [host], vs_http = []\<rparr>\<rparr>"

definition gen_fork :: "string \<Rightarrow> labels \<Rightarrow> fork" where
  "gen_fork name additional_headers =
     \<lparr>fork_type = \<lparr>gvk_group = ''vsconfig.k8s.wantedly.com'', gvk_version = ''v1beta1'', gvk_kind = ''Fork''\<rparr>,
      fork_meta = object_meta_of name ''some-namespace'',
      fork_spec =
        \<lparr>spec_manager = ''ambassador/default'', spec_identifier = name, spec_deadline = None,
         spec_gateway_options =
           (if additional_headers \<noteq> fmempty
            then Some \<lparr>go_add_request_headers = additional_headers, go_allow_upgrade = []\<rparr> else None),
         spec_services = None, spec_deployments = None\<rparr>\<rparr>"

text \<open>Options of a Fork.\<close>

definition add_fork_deadline :: "time \<Rightarrow> fork \<Rightarrow> fork" where
  "add_fork_deadline t f = f\<lparr>fork_spec := (fork_spec f)\<lparr>spec_deadline := Some t\<rparr>\<rparr>"

definition set_fork_name :: "string \<Rightarrow> fork \<Rightarrow> fork" where
  "set_fork_name name f = f\<lparr>fork_meta := (fork_meta f)\<lparr>meta_name := name\<rparr>\<rparr>"

definition set_for_upgrades :: "string \<Rightarrow> fork \<Rightarrow> fork" where
  "set_for_upgrades protocol f =
     (let opts = (case spec_gateway_options (fork_spec f) of
          None \<Rightarrow> \<lparr>go_add_request_headers = fmempty, go_allow_upgrade = []\<rparr> | Some o' \<Rightarrow> o')
      in f\<lparr>fork_spec := (fork_spec f)\<lparr>spec_gateway_options :=
           Some (opts\<lparr>go_allow_upgrade := go_allow_upgrade opts @ [protocol]\<rparr>)\<rparr>\<rparr>)"

definition gen_fork_manager :: fork_manager where
  "gen_fork_manager =
     \<lparr>fm_type = zero_gvk, fm_meta = object_meta_of ''default'' ''ambassador'',
      fm_spec = \<lparr>fm_ambassador_id = ''ambassador'', fm_header_key = ''fork-identifier'',
        fm_upstreams =
          [\<lparr>us_host = ''sandbox.example.com'', us_original = '''', us_host_rewrite = ''''\<rparr>,
           \<lparr>us_host = ''some-with-original.example.com'',
            us_original = ''some-with-original.some-namespace:443'', us_host_rewrite = ''''\<rparr>]\<rparr>\<rparr>"

definition gen_fork_with :: "string \<Rightarrow> labels \<Rightarrow> (fork \<Rightarrow> fork) list \<Rightarrow> fork" where
  "gen_fork_with name additional_headers opts = fold (\<lambda>opt f. opt f) opts (gen_fork name additional_headers)"

definition gen_fork_manager_with_host_rewrite :: fork_manager where
  "gen_fork_manager_with_host_rewrite =
     \<lparr>fm_type = zero_gvk, fm_meta = object_meta_of ''default'' ''ambassador'',
      fm_spec = \<lparr>fm_ambassador_id = ''ambassador'', fm_header_key = ''fork-identifier'',
        fm_upstreams =
          [\<lparr>us_host = ''sandbox.example.com'', us_original = '''', us_host_rewrite = ''''\<rparr>,
           \<lparr>us_host = ''some-with-original.example.com'',
            us_original = ''some-with-original.some-namespace:443'',
            us_host_rewrite = ''some-with-original.example.com''\<rparr>]\<rparr>\<rparr>"

definition gen_mapping :: "string \<Rightarrow> string \<Rightarrow> mapping" where
  "gen_mapping name host =
     \<lparr>mp_meta = (object_meta_of name ''ambassador'')
        \<lparr>meta_labels := fmupd ''fork.k8s.wantedly.com/manager'' ''default'' fmempty\<rparr>,
      mp_spec =
        \<lparr>mp_add_request_headers = fmupd ''fork-identifier'' (Some name) fmempty, mp_allow_upgrade = [],
         mp_ambassador_id = [''ambassador''], mp_host = host, mp_prefix = ''/'', mp_rewrite = Some '''',
         mp_service = ''https://'' @ name, mp_timeout_ms = 90000, mp_host_rewrite = ''''\<rparr>\<rparr>"

definition gen_deployment :: "string \<Rightarrow> labels \<Rightarrow> deployment" where
  "gen_deployment name ls =
     \<lparr>dep_meta = (object_meta_of name ''some-namespace'')\<lparr>meta_labels := ls\<rparr>,
      dep_template_labels = ls,
      dep_template_containers =
        [\<lparr>ctr_name = ''some-deployment'', ctr_image = ''some-deployment:some-commit-sha'', ctr_env = []\<rparr>]\<rparr>"

section \<open>Worlds\<close>

definition app_labels :: labels where
  "app_labels = fmap_of_list [(''app'', ''some-app''), (''role'', ''web'')]"

definition everything_selector :: "label_selector option" where
  "everything_selector = Some \<lparr>match_labels = None, match_expressions = []\<rparr>"

text \<open>A fork of every service and deployment of its namespace, with or without a template.\<close>

definition full_fork :: "string \<Rightarrow> pod_template_spec option \<Rightarrow> fork" where
  "full_fork name tmpl =
     (let f = gen_fork name fmempty
      in f\<lparr>fork_type := fork_group_kind ''Fork'', fork_spec := (fork_spec f)
        \<lparr>spec_services := Some \<lparr>fs_selector = everything_selector\<rparr>,
         spec_deployments := Some \<lparr>fd_selector = everything_selector, fd_template = tmpl,
             fd_replicas = None\<rparr>\<rparr>\<rparr>)"

definition world :: "fork list \<Rightarrow> client_object list \<Rightarrow> mapping list \<Rightarrow> store" where
  "world forks objects ms =
     \<lparr>st_forks = forks, st_managers = [gen_fork_manager],
      st_deployments = [gen_deployment ''web'' app_labels, gen_deployment ''batch'' fmempty],
      st_objects = objects, st_mappings = ms\<rparr>"

abbreviation name_order :: "string order" where
  "name_order \<equiv> sorted_list_of_fset"

abbreviation slug_order :: "namespaced_name order" where
  "slug_order \<equiv> sorted_list_of_fset"

definition start_world :: store where
  "start_world = world [full_fork ''some-fork'' None] [OService (gen_service ''some-service'')] []"

abbreviation some_fork_key :: namespaced_name where
  "some_fork_key \<equiv> NN ''some-namespace'' ''some-fork''"

lemma range_orders [simp]: "range_order name_order" "range_order slug_order"
  by (rule range_order_sorted)+

lemma world_views [simp]:
  "store_objs (world fs xs ms) r k = list_get object_key (r, k) xs"
  "store_maps (world fs xs ms) k = list_get (\<lambda>m. meta_key (mp_meta m)) k ms"
  by (simp_all add: world_def store_objs_def store_maps_def)

text \<open>A call that returned gives its next world.\<close>

lemma returned: "is_ok (fst p) \<Longrightarrow> \<exists>x w'. p = (Ok x, w')"
  by (cases p) (auto simp: is_ok_def split: result.splits)

section \<open>A service with VirtualServices\<close>

definition some_service :: service where
  "some_service = gen_service ''some-service''"

definition some_lister :: vs_lister where
  "some_lister = \<lparr>vl_sorted_configs = [gen_vsconfig ''some-service'' ''some-id'',
      gen_vsconfig ''other'' ''some-id''],
     vl_service = some_service\<rparr>"

text \<open>A VirtualService of the service that its VSConfigs no longer ask for, and one of somebody else.\<close>

definition old_virtual_service :: virtual_service where
  "old_virtual_service =
     \<lparr>vs_type = zero_gvk,
      vs_meta = (object_meta_of ''old'' ''some-namespace'')
        \<lparr>meta_owner_refs := [store_owner_ref (service_owner some_service)]\<rparr>,
      vs_spec = \<lparr>vs_hosts = [''old''], vs_http = []\<rparr>\<rparr>"

definition foreign_virtual_service :: virtual_service where
  "foreign_virtual_service = gen_vs ''foreign'' ''foreign''"

definition vs_world :: store where
  "vs_world = world [] [OService some_service, OVSConfig (gen_vsconfig ''some-service'' ''some-id''),
     OVirtualService old_virtual_service, OVirtualService foreign_virtual_service] []"

abbreviation some_service_key :: namespaced_name where
  "some_service_key \<equiv> NN ''some-namespace'' ''some-service''"

lemma some_service_kind [simp]:
  "ow_gvk (service_owner some_service) = store_scheme (ow_go_type (service_owner some_service))"
  by (simp add: service_owner_def some_service_def gen_service_def)

lemma some_lister_items:
  "ol_items (build_virtual_service env some_lister) =
     [OVirtualService (virtual_service_of some_lister (build_http_routes some_lister))]"
  by (simp add: build_virtual_service_items some_lister_def config_applies_def gen_vsconfig_def
      some_service_def gen_service_def)

lemma vs_world_well_named:
  "well_named store_env (service_owner some_service) (build_virtual_service store_env some_lister)
     (store_objs vs_world RVirtualService)"
  unfolding well_named_def some_lister_items
  by (auto simp: vs_world_def object_key_def meta_key_def old_virtual_service_def
      foreign_virtual_service_def gen_vs_def
      virtual_service_of_def some_lister_def some_service_def gen_service_def build_virtual_service_def Let_def
      last_host_def owned_by_parent_def split: if_splits)

section \<open>A fork with services and deployments\<close>

abbreviation some_fork :: fork where
  "some_fork \<equiv> full_fork ''some-fork'' None"

text \<open>A fork whose template is given without metadata.\<close>

definition bare_fork :: fork where
  "bare_fork = full_fork ''some-fork'' (Some \<lparr>pts_metadata = None, pts_spec = \<lparr>ps_containers = [],
      ps_hostname = ''''\<rparr>\<rparr>)"

lemma some_fork_typed [simp]: "fork_type some_fork = store_scheme GoFork"
  by (simp add: full_fork_def Let_def)

lemma some_fork_keeps_routing [simp]: "template_keeps_routing some_fork s"
  by (simp add: template_keeps_routing_def full_fork_def Let_def)

lemma some_fork_namespace [simp]: "meta_namespace (fork_meta some_fork) \<noteq> ''''"
  by (simp add: full_fork_def Let_def gen_fork_def)

text \<open>What the builder makes of the start world.\<close>

lemma store_build_app_same: "build_app store_env ord fork w = (r, w') \<Longrightarrow> w' = w"
proof -
  have "keeps (\<lambda>w. w) (build_app store_env ord fork)"
    by (rule build_app_keeps_view) (simp_all add: store_reads_keep)
  then show "build_app store_env ord fork w = (r, w') \<Longrightarrow> w' = w" by (rule keepsD)
qed

lemma some_app:
  obtains a where "build_app store_env name_order some_fork start_world = (Ok a, start_world)"
    and "app_services a \<noteq> []" and "app_deployments a \<noteq> []"
    and "short_names a" and "distinct_originals a" and "app_fork a = some_fork"
proof -
  let ?run = "build_app store_env name_order some_fork start_world"
  have "(case fst ?run of
      Ok a \<Rightarrow> app_services a \<noteq> [] \<and> app_deployments a \<noteq> [] \<and> short_names a \<and> distinct_originals a | _ \<Rightarrow> False)"
    by code_simp
  then obtain a w' where run: "?run = (Ok a, w')" and
    a: "app_services a \<noteq> []" "app_deployments a \<noteq> []" "short_names a" "distinct_originals a"
    by (cases ?run) (auto split: result.splits)
  have "app_fork a = some_fork" by (rule steady_reads.build_app_Ok [OF reads.steady_reads_axioms run])
  with that a run store_build_app_same [OF run] show thesis by simp
qed

lemma some_copies:
  assumes "app_fork a = some_fork"
  obtains lst :: "client_object object_list" where "generate_deployment_copies name_order a = Ok lst"
proof -
  have no_panic: "generate_app_lists store_env name_order a \<noteq> Panic p" for p
    by (simp add: generate_app_lists_Panic assms template_without_metadata_def) (simp add: full_fork_def
        Let_def)
  show thesis
    using no_panic that generate_app_lists_not_Err [of store_env name_order a]
    by (cases "generate_app_lists store_env name_order a") (auto simp: generate_app_lists_def result_simps)
qed

section \<open>A manager with Mappings\<close>

definition plain_fork :: fork where
  "plain_fork = gen_fork ''some-id'' fmempty"

definition mapping_world :: store where
  "mapping_world = world [plain_fork] []
     [gen_mapping ''old'' ''old.sandbox.example.com'',
      (gen_mapping ''other'' ''other.example.com'')\<lparr>mp_meta := (object_meta_of ''other'' ''elsewhere'')
        \<lparr>meta_labels := fmupd ''fork.k8s.wantedly.com/manager'' ''default'' fmempty\<rparr>\<rparr>]"

abbreviation default_slug :: namespaced_name where
  "default_slug \<equiv> NN ''ambassador'' ''default''"

definition typed_plain_fork :: fork where
  "typed_plain_fork = plain_fork\<lparr>fork_type := fork_group_kind ''Fork''\<rparr>"

lemma mapping_world_inputs: "manager_inputs store_env default_slug mapping_world gen_fork_manager
    [typed_plain_fork]"
  by (auto simp: manager_inputs_def store_read_get_def store_read_list_def store_items_def
      mapping_world_def world_def
      stored_forks_def typed_plain_fork_def gen_fork_manager_def meta_key_def admits_def no_options_def
          list_del_def)

lemma mapping_world_run:
  obtains w' where "mapping_update store_env name_order slug_order default_slug mapping_world = (Ok (), w')"
proof -
  have "is_ok (fst (mapping_update store_env name_order slug_order default_slug mapping_world))" by code_simp
  from returned [OF this] that show thesis by auto
qed

lemma typed_plain_fork_identifier [simp]: "spec_identifier (fork_spec typed_plain_fork) = ''some-id''"
  by (simp add: typed_plain_fork_def plain_fork_def gen_fork_def)

text \<open>What a fork of everything consists of.\<close>

lemma full_fork_simps [simp]:
  "fork_meta (full_fork n tmpl) = object_meta_of n ''some-namespace''"
  "spec_manager (fork_spec (full_fork n tmpl)) = ''ambassador/default''"
  "spec_identifier (fork_spec (full_fork n tmpl)) = n"
  "spec_deadline (fork_spec (full_fork n tmpl)) = None"
  "spec_services (fork_spec (full_fork n tmpl)) = Some \<lparr>fs_selector = everything_selector\<rparr>"
  "spec_deployments (fork_spec (full_fork n tmpl)) =
     Some \<lparr>fd_selector = everything_selector, fd_template = tmpl, fd_replicas = None\<rparr>"
  by (simp_all add: full_fork_def Let_def gen_fork_def)

end
