(* ===== verification/Schedules.thy ===== *)
theory Schedules
  imports ForkRouting
begin

text \<open>
  The controller as a whole: its reconcilers handle requests one after the other, in an order and
  at times that controller-runtime chooses, and a request may fail and come back. What can be said of
  a fork when others are reconciled in between, and when its own reconciles fail half way.
\<close>

section \<open>Requests\<close>

text \<open>
  A request of one of the three controllers; that of a fork is handled at a time. An outcome that is
  not a success ends the request with what has been written so far: controller-runtime puts it back
  into the queue, where it is one more request, and so it does after a panic ended the process.
\<close>

datatype request =
    ForkRequest time namespaced_name
  | VSConfigRequest namespaced_name
  | ServiceRequest namespaced_name

fun handle :: "('w, 'u) env \<Rightarrow> string order \<Rightarrow> namespaced_name order \<Rightarrow> request \<Rightarrow> ('w, unit) eff" where
  "handle env ord nn_ord (ForkRequest now q) = reconcile_fork env ord nn_ord now q"
| "handle env ord nn_ord (VSConfigRequest q) = reconcile_vsconfig env q"
| "handle env ord nn_ord (ServiceRequest q) = reconcile_service env q"

fun handle_all :: "('w, 'u) env \<Rightarrow> string order \<Rightarrow> namespaced_name order \<Rightarrow> request list \<Rightarrow> 'w \<Rightarrow> 'w" where
  "handle_all env ord nn_ord [] w = w"
| "handle_all env ord nn_ord (r # rs) w = handle_all env ord nn_ord rs (snd (handle env ord nn_ord r w))"

lemma handle_all_append [simp]:
  "handle_all env ord nn_ord (rs @ rs') w = handle_all env ord nn_ord rs' (handle_all env ord nn_ord rs w)"
  by (induction rs arbitrary: w) auto

text \<open>
  The requests that may come between the reconciles of a fork: any of VSConfigs, services and other
  forks, and its own before its deadline. Forks have a namespace.
\<close>

fun considerate :: "('w, 'u) env \<Rightarrow> fork \<Rightarrow> namespaced_name \<Rightarrow> request \<Rightarrow> bool" where
  "considerate env fork q (ForkRequest now q') \<longleftrightarrow>
     nn_namespace q' \<noteq> '''' \<and>
     (q' = q \<longrightarrow> (case spec_deadline (fork_spec fork) of None \<Rightarrow> True | Some d \<Rightarrow> \<not> env_time_before env d now))"
| "considerate env fork q _ \<longleftrightarrow> True"

section \<open>What concerns the forks of a namespace\<close>

text \<open>The objects of the namespace except routes, the deployments, the managers and the forks themselves.\<close>

definition fork_scope ::
  "'w object_view \<Rightarrow> ('w \<Rightarrow> list_options \<Rightarrow> deployment list) \<Rightarrow> ('w \<Rightarrow> namespaced_name \<Rightarrow> fork_manager option) \<Rightarrow>
   ('w \<Rightarrow> namespaced_name \<Rightarrow> fork option) \<Rightarrow> string \<Rightarrow> 'w \<Rightarrow>
   (resource \<Rightarrow> namespaced_name \<Rightarrow> client_object option) \<times> (list_options \<Rightarrow> deployment list) \<times>
   (namespaced_name \<Rightarrow> fork_manager option) \<times> (namespaced_name \<Rightarrow> fork option)" where
  "fork_scope objs deps mgrs frks ns w =
     (\<lambda>r k. if r = RVirtualService \<or> nn_namespace k \<noteq> ns then None else objs w r k,
      deps w, mgrs w, \<lambda>k. if nn_namespace k = ns then frks w k else None)"

lemma fork_scope_eq:
  "fork_scope objs deps mgrs frks ns w1 = fork_scope objs deps mgrs frks ns w \<longleftrightarrow>
     (\<forall>r k. r \<noteq> RVirtualService \<and> nn_namespace k = ns \<longrightarrow> objs w1 r k = objs w r k) \<and>
     deps w1 = deps w \<and> mgrs w1 = mgrs w \<and> (\<forall>k. nn_namespace k = ns \<longrightarrow> frks w1 k = frks w k)"
  by (auto simp: fork_scope_def fun_eq_iff)

text \<open>
  Two forks of a namespace: the copies that \<open>f'\<close> has are not services to fork for \<open>f\<close>, and (when the forks
  are not the same) they share no place and own no object together.
\<close>

definition copies_apart ::
  "('w, 'u) env \<Rightarrow> 'w object_view \<Rightarrow> fork \<Rightarrow> fork \<Rightarrow> 'w \<Rightarrow> bool" where
  "copies_apart env objs f f' w \<longleftrightarrow>
     (\<forall>s \<in> target_services env objs f' w.
        \<not> selects_service env f (copy_labels f' (meta_name (svc_meta s)))) \<and>
     (\<forall>t \<in> target_services env objs f w.
        \<not> owned_by_parent env (svc_meta t) (fork_owner f') \<and>
        (\<forall>s \<in> target_services env objs f' w. service_name s f' \<noteq> meta_name (svc_meta t)))"

definition owners_apart :: "('w, 'u) env \<Rightarrow> 'w object_view \<Rightarrow> fork \<Rightarrow> fork \<Rightarrow> 'w \<Rightarrow> bool" where
  "owners_apart env objs f f' w \<longleftrightarrow>
     (\<forall>r \<in> set fork_resources. \<forall>k.
        \<not> (owned_at env (fork_owner f) (objs w r) k \<and> owned_at env (fork_owner f') (objs w r) k))"

definition keys_apart ::
  "('w, 'u) env \<Rightarrow> 'w object_view \<Rightarrow> ('w \<Rightarrow> list_options \<Rightarrow> deployment list) \<Rightarrow> fork \<Rightarrow> fork \<Rightarrow> 'w \<Rightarrow> bool" where
  "keys_apart env objs deps f f' w \<longleftrightarrow>
     (\<forall>r \<in> set fork_resources. fork_keys env objs deps f w r \<inter> fork_keys env objs deps f' w r = {})"

definition forks_apart ::
  "('w, 'u) env \<Rightarrow> 'w object_view \<Rightarrow> ('w \<Rightarrow> list_options \<Rightarrow> deployment list) \<Rightarrow>
   ('w \<Rightarrow> namespaced_name \<Rightarrow> fork option) \<Rightarrow> string \<Rightarrow> 'w \<Rightarrow> bool" where
  "forks_apart env objs deps frks ns w \<longleftrightarrow>
     (\<forall>q f. nn_namespace q = ns \<and> frks w q = Some f \<longrightarrow>
        names_fit env objs deps f w \<and> program_named env objs f w \<and>
        (\<forall>q' f'. nn_namespace q' = ns \<and> frks w q' = Some f' \<longrightarrow>
           copies_apart env objs f f' w \<and>
           (q' \<noteq> q \<longrightarrow> keys_apart env objs deps f f' w \<and> owners_apart env objs f f' w)))"

context routed_cluster
begin

abbreviation scope where
  "scope \<equiv> fork_scope objs deps mgrs frks"

lemma scope_keeps:
  assumes "keeps (\<lambda>w. (objs w, frks w)) m" "keeps (\<lambda>w. (deps w, mgrs w)) m"
  shows "keeps (scope ns) m"
  using assms by (simp add: keeps_def fork_scope_eq)

lemma scope_keeps_objects:
  assumes "\<And>w res w' r k. m w = (res, w') \<Longrightarrow> r \<noteq> RVirtualService \<Longrightarrow> objs w' r k = objs w r k"
    and "keeps (\<lambda>w. (deps w, mgrs w)) m" "keeps (\<lambda>w. (maps w, frks w)) m"
  shows "keeps (scope ns) m"
proof (rule keepsI)
  fix w res w'
  assume run: "m w = (res, w')"
  from assms(1) [OF run] keepsD [OF assms(2) run] keepsD [OF assms(3) run]
  show "scope ns w' = scope ns w" by (simp add: fork_scope_eq)
qed

text \<open>What is the same for a fork in two worlds whose services for it are the same.\<close>

lemma targets_cong:
  assumes "target_services env objs fork w1 = target_services env objs fork w"
    and "deps w1 = deps w" "mgrs w1 = mgrs w"
  shows "names_fit env objs deps fork w1 = names_fit env objs deps fork w"
    and "fork_keys env objs deps fork w1 r = fork_keys env objs deps fork w r"
    and "fork_realised env objs deps mgrs fork w1 v = fork_realised env objs deps mgrs fork w v"
proof -
  have candidates: "candidate_deployments env deps fork w1 = candidate_deployments env deps fork w"
    by (simp only: candidate_deployments_def assms(2))
  show "names_fit env objs deps fork w1 = names_fit env objs deps fork w"
    by (simp only: names_fit_def assms(1) candidates)
  have copied: "copied_deployments env objs deps fork w1 = copied_deployments env objs deps fork w"
    by (simp only: copied_deployments_def assms(1) candidates)
  have keys: "fork_keys env objs deps fork w1 r = fork_keys env objs deps fork w r" for r
    by (cases r) (simp_all only: fork_keys.simps copied assms(1))
  then show "fork_keys env objs deps fork w1 r = fork_keys env objs deps fork w r" .
  show "fork_realised env objs deps mgrs fork w1 v = fork_realised env objs deps mgrs fork w v"
    by (simp only: fork_realised_def copied assms(1,3) keys)
qed

text \<open>What a fork has made of its environment depends on its own objects only.\<close>

lemma fork_realised_cong:
  assumes "fork_realised env objs deps mgrs fork w v"
    and "\<And>r k. r \<in> set fork_resources \<Longrightarrow> owned_at env (fork_owner fork) (objs v1 r) k \<longleftrightarrow>
      owned_at env (fork_owner fork) (objs v r) k"
    and "\<And>r k. r \<in> set fork_resources \<Longrightarrow> k \<in> fork_keys env objs deps fork w r \<Longrightarrow> objs v1 r k = objs v r k"
  shows "fork_realised env objs deps mgrs fork w v1"
proof -
  let ?ns = "meta_namespace (fork_meta fork)"
  have same: "objs v1 RService (NN ?ns (service_name t fork)) = objs v RService (NN ?ns (service_name t fork))"
    "objs v1 RVSConfig (NN ?ns (service_name t fork)) = objs v RVSConfig (NN ?ns (service_name t fork))"
    if "t \<in> target_services env objs fork w" for t
    by (rule assms(3); use that in \<open>simp add: fork_resources_def\<close>)+
  have copies: "objs v1 RDeploymentCopy (NN ?ns (copy_name d fork)) = objs v RDeploymentCopy
      (NN ?ns (copy_name d fork))"
    if "d \<in> copied_deployments env objs deps fork w" for d
    by (rule assms(3); use that in \<open>simp add: fork_resources_def\<close>)
  from assms(1) show ?thesis by (simp add: fork_realised_def Let_def assms(2) same copies)
qed

lemma scope_cong:
  assumes "scope ns w1 = scope ns w" and "meta_namespace (fork_meta fork) = ns" "ns \<noteq> ''''"
  shows "target_services env objs fork w1 = target_services env objs fork w"
    and "program_named env objs fork w1 = program_named env objs fork w"
    and "r \<in> set fork_resources \<Longrightarrow>
      owned_at env (fork_owner fork) (objs w1 r) k = owned_at env (fork_owner fork) (objs w r) k"
    and "fork_realised env objs deps mgrs fork v w1 = fork_realised env objs deps mgrs fork v w"
proof -
  from assms(1) have same: "\<And>r k. r \<noteq> RVirtualService \<Longrightarrow> nn_namespace k = ns \<Longrightarrow> objs w1 r k = objs w r k"
    by (simp_all add: fork_scope_eq)
  have ns: "in_parent_namespace (fork_owner fork) k \<longleftrightarrow> nn_namespace k = ns" for k
    using assms(2,3) by (simp add: in_parent_namespace_def fork_owner_def)
  have stored: "(\<exists>k. objs w1 RService k = Some (OService t)) \<longleftrightarrow> (\<exists>k. objs w RService k = Some (OService t))"
    if "meta_namespace (svc_meta t) = ns" for t
  proof -
    have here: "nn_namespace k = ns" if "objs v RService k = Some (OService t)" for v k
      using view_service [OF that] \<open>meta_namespace (svc_meta t) = ns\<close> by (auto simp: meta_key_def)
    have "objs w1 RService k = Some (OService t) \<longleftrightarrow> objs w RService k = Some (OService t)" for k
      using here [of w1 k] here [of w k] same [of RService k] by auto
    then show ?thesis by simp
  qed
  show "target_services env objs fork w1 = target_services env objs fork w"
    unfolding set_eq_iff target_services_iff using stored assms(2,3) by metis
  have "program_named env objs fork v'"
    if "program_named env objs fork v" "scope ns v' = scope ns v" for v v'
    using that by (auto simp: program_named_def ns fork_scope_eq)
  then show "program_named env objs fork w1 = program_named env objs fork w" using assms(1) by metis
  have owned: "owned_at env (fork_owner fork) (objs w1 r) k = owned_at env (fork_owner fork) (objs w r) k"
    if "r \<in> set fork_resources" for r k
  proof -
    have "r \<noteq> RVirtualService" using that by (auto simp: fork_resources_def)
    then show ?thesis by (cases "nn_namespace k = ns") (simp_all add: owned_at_def ns same)
  qed
  then show "r \<in> set fork_resources \<Longrightarrow>
      owned_at env (fork_owner fork) (objs w1 r) k = owned_at env (fork_owner fork) (objs w r) k" .
  show "fork_realised env objs deps mgrs fork v w1 = fork_realised env objs deps mgrs fork v w"
    unfolding fork_realised_def assms(2) using owned same by (simp add: Let_def)
qed

section \<open>Requests of others\<close>

lemma vs_update_scope: "keeps (scope ns) (virtual_service_update env k)"
proof (rule scope_keeps_objects)
  show "objs w' r k' = objs w r k'" if "virtual_service_update env k w = (res, w')"
      "r \<noteq> RVirtualService" for w res w' r k'
    using virtual_service_update_frame [OF that(1), of r k'] that(2) by blast
  show "keeps (\<lambda>w. (deps w, mgrs w)) (virtual_service_update env k)"
    unfolding virtual_service_update_def build_vs_lister_def Let_def
    by (intro keeps_intros steady_reads refresh_steady)
qed (rule virtual_service_update_keeps)

lemma reads_scope:
  "keeps (scope ns) (api_get (env_vsconfigs env) k)" "keeps (scope ns) (api_get (env_services env) k)"
  "keeps (scope ns) (api_list (env_services env) opts)"
  by (rule scope_keeps; rule steady_fork_calls steady_reads
      reads [THEN keeps_part [where f = "\<lambda>(a, b, c). (a, c)"], simplified])+

lemma vsconfig_request_scope: "keeps (scope ns) (reconcile_vsconfig env k)"
proof -
  have "keeps (scope ns) (virtual_service_update_all env opts)" for opts
    unfolding virtual_service_update_all_def
    by (rule updater.update_all_keeps, rule updater.intro) (rule reads_scope vs_update_scope)+
  then show ?thesis
    unfolding reconcile_vsconfig_def [abs_def]
    by (intro keeps_get_cases reads_scope vs_update_scope)
qed

lemma service_request_scope: "keeps (scope ns) (reconcile_service env k)"
  unfolding reconcile_service_def [abs_def]
  by (rule keeps_get_cases [where missing = "\<lambda>w. (Ok (), w)"])
    (intro reads_scope vs_update_scope keeps_intros)+

lemma mapping_update_all_rests:
  "keeps (\<lambda>w. (objs w, frks w)) (mapping_update_all env ord nn_ord no_options)"
  "keeps (\<lambda>w. (deps w, mgrs w)) (mapping_update_all env ord nn_ord no_options)"
proof -
  show "keeps (\<lambda>w. (objs w, frks w)) (mapping_update_all env ord nn_ord no_options)"
    unfolding mapping_update_all_def by (rule mapping.update_all_keeps)
  show "keeps (\<lambda>w. (deps w, mgrs w)) (mapping_update_all env ord nn_ord no_options)"
    unfolding mapping_update_all_def
    by (rule updater.update_all_keeps, rule updater.intro) (rule steady_fork_calls mapping_update_steady)+
qed

text \<open>A fork that has not reached its deadline: the mappings are updated, then the objects.\<close>

lemma reconcile_fork_found_ends:
  assumes "reconcile_fork_found env ord nn_ord now q fork w = (res, w')"
    and "\<not> (case spec_deadline (fork_spec fork) of None \<Rightarrow> False | Some d \<Rightarrow> env_time_before env d now)"
  obtains (idle) "\<not> is_ok res" "(objs w', frks w') = (objs w, frks w)" "(deps w', mgrs w') = (deps w, mgrs w)"
    | (updated) v where "(objs v, frks v) = (objs w, frks w)" "(deps v, mgrs v) = (deps w, mgrs w)"
        "microservice_update env ord q v = (res, w')"
proof -
  from assms have "bind_eff (lift_result (parse_manager_slug (spec_manager (fork_spec fork)))) (\<lambda>nn.
      bind_eff (mapping_update env ord nn_ord nn) (\<lambda>_. microservice_update env ord q)) w = (res, w')"
    by (simp add: reconcile_fork_found_def)
  then show thesis
  proof (cases rule: bind_eff_cases)
    case (first r1)
    then have "\<not> is_ok res" "w' = w" by (auto simp: is_ok_def split: result.splits)
    then show thesis by (intro idle) simp_all
  next
    case (second nn w1)
    then have w1: "w1 = w" by auto
    from second(2) show thesis
    proof (cases rule: bind_eff_cases)
      case (first r1)
      then have "\<not> is_ok res" by (auto simp: is_ok_def split: result.splits)
      then show thesis
        by (intro idle) (use w1 keepsD [OF mapping_update_keeps first(1)]
          keepsD [OF mapping_update_steady first(1)] in simp_all)
    next
      case (second u w2)
      with updated w1 keepsD [OF mapping_update_keeps second(1)] keepsD [OF mapping_update_steady second(1)]
      show thesis by auto
    qed
  qed
qed

text \<open>
  A reconcile of a fork, whatever its outcome: it leaves objects and forks alone, or deletes a fork past
  its deadline, or ends with the update of the objects of the fork in a world that reads like the first.
\<close>

lemma reconcile_fork_ends:
  assumes "reconcile_fork env ord nn_ord now q w = (res, w')"
  obtains (idle) "\<not> (is_ok res \<and> frks w q \<noteq> None)" "(objs w', frks w') = (objs w, frks w)"
      "(deps w', mgrs w') = (deps w, mgrs w)"
    | (deleted) fork d where "frks w q = Some fork" "spec_deadline (fork_spec fork) = Some d"
        "env_time_before env d now"
        "objs w' = objs w" "(deps w', mgrs w') = (deps w, mgrs w)" "\<And>k. k \<noteq> q \<Longrightarrow> frks w' k = frks w k"
    | (updated) v where "(objs v, frks v) = (objs w, frks w)" "(deps v, mgrs v) = (deps w, mgrs w)"
        "microservice_update env ord q v = (res, w')"
proof -
  obtain r0 w0 where get: "api_get (env_forks env) q w = (r0, w0)" by fastforce
  have w0: "(objs w0, frks w0) = (objs w, frks w)" "(deps w0, mgrs w0) = (deps w, mgrs w)"
    using keepsD [OF forks_read(1) get] keepsD [OF steady_reads(1) get] by simp_all
  show thesis
  proof (cases r0)
    case (Ok fork)
    with get fork_get have fork: "frks w q = Some fork" by simp
    have found: "reconcile_fork_found env ord nn_ord now q fork w0 = (res, w')"
      using assms get Ok by (simp add: reconcile_fork_def)
    show thesis
    proof (cases "case spec_deadline (fork_spec fork) of None \<Rightarrow> False | Some d \<Rightarrow> env_time_before env d now")
      case True
      then obtain d where d: "spec_deadline (fork_spec fork) = Some d" "env_time_before env d now"
        by (auto split: option.splits)
      with found have "api_delete (env_forks env) fork w0 = (res, w')" by (simp add: reconcile_fork_found_def)
      from keepsD [OF steady_fork_calls(3) this] w0 have "(deps w', mgrs w') = (deps w, mgrs w)" by simp
      from deleted [OF fork d expired_fork_deleted(1) [OF assms fork d] this] expired_fork_deleted(3)
          [OF assms fork d]
      show thesis by auto
    next
      case False
      from found False show thesis
        by (cases rule: reconcile_fork_found_ends) (use w0 in \<open>auto intro: idle updated\<close>)
    qed
  next
    case (Err e)
    show thesis
    proof (cases "e = NotFound")
      case True
      with assms get Err have "mapping_update_all env ord nn_ord no_options w0 = (res, w')"
        by (simp add: reconcile_fork_def)
      from idle keepsD [OF mapping_update_all_rests(1) this] keepsD [OF mapping_update_all_rests(2)
          this] w0 fork_missing [of q w w0] get Err True
      show thesis by simp
    next
      case False
      with assms get Err have "res = Err e" "w' = w0" by (auto simp: reconcile_fork_def split: error.splits)
      with idle w0 show thesis by simp
    qed
  next
    case (Panic p)
    with assms get have "res = Panic p" "w' = w0" by (auto simp: reconcile_fork_def)
    with idle w0 show thesis by simp
  qed
qed

text \<open>
  A request: it leaves the scope of a namespace alone, or deletes a fork past its deadline there, or ends
  with the update of the objects of a fork there.
\<close>

lemma request_ends:
  assumes "handle env ord nn_ord r w = (res, w')" and "range_order ord" and "ns \<noteq> ''''"
    and "\<forall>now q'. r = ForkRequest now q' \<longrightarrow> nn_namespace q' \<noteq> ''''"
  obtains (aside) "scope ns w' = scope ns w"
    | (deleted) now q' f d where "r = ForkRequest now q'" "frks w q' = Some f"
        "spec_deadline (fork_spec f) = Some d" "env_time_before env d now"
        "objs w' = objs w" "deps w' = deps w" "mgrs w' = mgrs w"
        "\<And>k. k \<noteq> q' \<Longrightarrow> frks w' k = frks w k" "frks w' q' = None \<or> frks w' q' = frks w q'"
    | (updated) now q' v where "r = ForkRequest now q'" "nn_namespace q' = ns" "scope ns v = scope ns w"
        "microservice_update env ord q' v = (res, w')"
proof (cases r)
  case (ForkRequest now q')
  with assms(1) have run: "reconcile_fork env ord nn_ord now q' w = (res, w')" by simp
  then show thesis
  proof (cases rule: reconcile_fork_ends)
    case idle
    then show thesis by (intro aside) (simp add: fork_scope_eq)
  next
    case (deleted f d)
    from that(2) [OF ForkRequest deleted(1-4)] deleted(5,6) expired_fork_deleted(3) [OF run deleted(1-3)]
    show thesis by auto
  next
    case (updated v)
    then have v: "scope ns v = scope ns w" by (simp add: fork_scope_eq)
    show thesis
    proof (cases "nn_namespace q' = ns")
      case True
      from that(3) [OF ForkRequest this v updated(3)] show thesis .
    next
      case False
      have "objs w' r k = objs v r k" if "nn_namespace k = ns" for r k
      proof (rule ccontr)
        assume "objs w' r k \<noteq> objs v r k"
        from microservice_update_frame [OF updated(3) assms(2) this] obtain f where
          f: "frks v q' = Some f" "in_parent_namespace (fork_owner f) k" by (auto simp: owned_change_def)
        with fork_typed [OF f(1)] assms(4) ForkRequest False that show False
          by (auto simp: in_parent_namespace_def fork_owner_def meta_key_def)
      qed
      with fork_update_steady(1-3) [OF updated(3)] have "scope ns w' = scope ns v" by (simp add: fork_scope_eq)
      with v show thesis by (intro aside) simp
    qed
  qed
next
  case (VSConfigRequest k)
  with assms(1) keepsD [OF vsconfig_request_scope] show thesis by (intro aside) auto
next
  case (ServiceRequest k)
  with assms(1) keepsD [OF service_request_scope] show thesis by (intro aside) auto
qed

section \<open>Schedules\<close>

text \<open>
  A world in which the forks of a namespace ask for the environments that they asked for in the first one,
  whatever has been done of them, and whoever of them is left.
\<close>

definition under_way :: "string \<Rightarrow> 'w \<Rightarrow> 'w \<Rightarrow> bool" where
  "under_way ns w v \<longleftrightarrow>
     deps v = deps w \<and> mgrs v = mgrs w \<and>
     (\<forall>q f. nn_namespace q = ns \<and> frks v q = Some f \<longrightarrow> frks w q = Some f) \<and>
     (\<forall>q f. nn_namespace q = ns \<and> frks w q = Some f \<longrightarrow>
        target_services env objs f v = target_services env objs f w \<and> program_named env objs f v \<and>
        (\<forall>q' f'. nn_namespace q' = ns \<and> frks w q' = Some f' \<and> q' \<noteq> q \<longrightarrow> owners_apart env objs f f' v))"

lemma under_wayD:
  assumes "under_way ns w v" "nn_namespace q = ns" "frks w q = Some f"
  shows "target_services env objs f v = target_services env objs f w" "program_named env objs f v"
    and "deps v = deps w" "mgrs v = mgrs w"
  using assms by (auto simp: under_way_def)

lemma under_way_scope:
  assumes "under_way ns w v" and "scope ns v1 = scope ns v" and "ns \<noteq> ''''"
  shows "under_way ns w v1"
  unfolding under_way_def
proof (intro conjI allI impI; (elim conjE)?)
  have ns: "meta_namespace (fork_meta f) = ns" if "nn_namespace q = ns" "frks w q = Some f" for q f
    using fork_namespace [OF that(2)] that(1) by simp
  show "deps v1 = deps w" "mgrs v1 = mgrs w" using assms(1,2) by (simp_all add: under_way_def fork_scope_eq)
  show "frks w q = Some f" if "nn_namespace q = ns" "frks v1 q = Some f" for q f
    using assms(1,2) that by (simp add: under_way_def fork_scope_eq)
  fix q f
  assume f: "nn_namespace q = ns" "frks w q = Some f"
  note same = scope_cong [OF assms(2) ns [OF f] assms(3)]
  show "target_services env objs f v1 = target_services env objs f w" "program_named env objs f v1"
    using assms(1) f by (simp_all add: same(1,2) under_way_def)
  fix q' f'
  assume f': "nn_namespace q' = ns" "frks w q' = Some f'" "q' \<noteq> q"
  then have "owners_apart env objs f f' v" using assms(1) f by (simp add: under_way_def)
  then show "owners_apart env objs f f' v1"
    by (simp add: owners_apart_def same(3) scope_cong(3) [OF assms(2) ns [OF f'(1,2)] assms(3)])
qed

text \<open>What an update changes: objects of its fork that are gone, and objects of its fork alone at its places.\<close>

lemma update_changes:
  assumes "forks_apart env objs deps frks ns w" "under_way ns w v" "ns \<noteq> ''''" "range_order ord"
    and "microservice_update env ord q v = (res, v')" "nn_namespace q = ns"
    and "objs v' r k \<noteq> objs v r k"
  obtains f where "frks w q = Some f" "frks v q = Some f" "r \<in> set fork_resources"
    "names_fit env objs deps f v" "program_named env objs f v" "in_parent_namespace (fork_owner f) k"
    "objs v' r k = None \<Longrightarrow> owned_at env (fork_owner f) (objs v r) k"
    "\<And>x. objs v' r k = Some x \<Longrightarrow> k \<in> fork_keys env objs deps f w r"
    "\<And>x p. objs v' r k = Some x \<Longrightarrow> owned_by_parent env (obj_meta x) p \<Longrightarrow>
       meta_name (ow_meta p) = meta_name (fork_meta f)"
proof -
  from microservice_update_frame [OF assms(5,4,7)] obtain f where
    f: "frks v q = Some f" "r \<in> set fork_resources"
    and change: "owned_change env (fork_owner f) k (objs v r k) (objs v' r k)"
    by blast
  with assms(2,6) have fw: "frks w q = Some f" by (simp add: under_way_def)
  from assms(1,2,6) fw have same: "target_services env objs f v = target_services env objs f w"
    "deps v = deps w" "mgrs v = mgrs w" and named: "program_named env objs f v"
      and "names_fit env objs deps f w"
    by (simp_all add: under_way_def forks_apart_def)
  then have fit: "names_fit env objs deps f v" using targets_cong(1) [OF same] by simp
  have q: "nn_namespace q \<noteq> ''''" using assms(3,6) by simp
  note written = update_writes_at_keys [OF assms(5,4) f(1) q fit named assms(7), unfolded
      targets_cong(2) [OF same]]
  from change that [OF fw f fit named _ _ written] show thesis
    by (auto simp: owned_change_def owned_at_def split: option.splits)
qed

text \<open>So an update of one fork leaves all of them under way, and those that have their environments keep them.\<close>

lemma update_targets:
  assumes "forks_apart env objs deps frks ns w" "under_way ns w v" "ns \<noteq> ''''" "range_order ord"
    and "microservice_update env ord q' v = (res, v')" "nn_namespace q' = ns"
    and "nn_namespace q = ns" "frks w q = Some f"
  shows "target_services env objs f v' = target_services env objs f v"
proof -
  have stays: "objs v' RService k = objs v RService k"
    if t: "objs v RService k = Some (OService t)" "t \<in> target_services env objs f v" for k t
  proof (rule ccontr)
    assume change: "objs v' RService k \<noteq> objs v RService k"
    show False
    proof (rule update_changes [OF assms(1-6) change])
      fix f'
      assume f': "frks w q' = Some f'"
        and gone: "objs v' RService k = None \<Longrightarrow> owned_at env (fork_owner f') (objs v RService) k"
        and kept: "\<And>x. objs v' RService k = Some x \<Longrightarrow> k \<in> fork_keys env objs deps f' w RService"
      have "copies_apart env objs f f' w" using assms(1,6-8) f' by (simp add: forks_apart_def)
      moreover have "t \<in> target_services env objs f w" using assms(2,7,8) t(2) by (simp add: under_way_def)
      ultimately show False
        using gone kept t(1) view_service [OF t(1)]
        by (cases "objs v' RService k") (auto simp: copies_apart_def owned_at_def meta_key_def, metis)
    qed
  qed
  have new: "objs v RService k = objs v' RService k"
    if t: "objs v' RService k = Some (OService t)" "t \<in> target_services env objs f v'" for k t
  proof (rule ccontr)
    assume "objs v RService k \<noteq> objs v' RService k"
    then have change: "objs v' RService k \<noteq> objs v RService k" by simp
    show False
    proof (rule update_changes [OF assms(1-6) change])
      fix f'
      assume f': "frks w q' = Some f'" "frks v q' = Some f'" "names_fit env objs deps f' v"
          "program_named env objs f' v"
      have q': "nn_namespace q' \<noteq> ''''" using assms(3,6) by simp
      from update_writes_copies [OF assms(5,4) f'(2) q' f'(3,4) _ change t(1)] obtain s where
        s: "s \<in> target_services env objs f' v" "copy_of_service env f' s t" by blast
      have "copies_apart env objs f f' w" using assms(1,6-8) f' by (simp add: forks_apart_def)
      moreover have "s \<in> target_services env objs f' w" using s(1) under_wayD(1) [OF assms(2,6) f'(1)] by simp
      ultimately show False using s(2) t(2)
        by (auto simp: copies_apart_def copy_of_service_def target_services_iff)
    qed
  qed
  show ?thesis
  proof (intro set_eqI iffI)
    fix t
    show "t \<in> target_services env objs f v" if t: "t \<in> target_services env objs f v'"
      using that new [OF _ t] unfolding target_services_iff by (metis (no_types))
    show "t \<in> target_services env objs f v'" if t: "t \<in> target_services env objs f v"
      using that stays [OF _ t] unfolding target_services_iff by (metis (no_types))
  qed
qed

lemma update_owned:
  assumes "forks_apart env objs deps frks ns w" "under_way ns w v" "ns \<noteq> ''''" "range_order ord"
    and "microservice_update env ord q' v = (res, v')" "nn_namespace q' = ns"
    and "nn_namespace q = ns" "frks w q = Some f" "q' \<noteq> q" and "r \<in> set fork_resources"
  shows "owned_at env (fork_owner f) (objs v' r) k \<Longrightarrow> objs v' r k = objs v r k"
    and "owned_at env (fork_owner f) (objs v r) k \<Longrightarrow> k \<in> fork_keys env objs deps f w r \<Longrightarrow>
      objs v' r k = objs v r k"
proof -
  have name: "meta_name (fork_meta f) \<noteq> meta_name (fork_meta f')" if "frks w q' = Some f'" for f'
    using fork_typed [OF assms(8)] fork_typed [OF that] assms(6,7,9)
    by (cases q; cases q') (auto simp: meta_key_def)
  show "objs v' r k = objs v r k" if owned: "owned_at env (fork_owner f) (objs v' r) k"
  proof (rule ccontr)
    assume change: "objs v' r k \<noteq> objs v r k"
    show False
    proof (rule update_changes [OF assms(1-6) change])
      fix f'
      assume f': "frks w q' = Some f'"
        and sole: "\<And>x p. objs v' r k = Some x \<Longrightarrow> owned_by_parent env (obj_meta x) p \<Longrightarrow>
          meta_name (ow_meta p) = meta_name (fork_meta f')"
      from owned obtain x where "objs v' r k = Some x" "owned_by_parent env (obj_meta x) (fork_owner f)"
        by (auto simp: owned_at_def)
      from sole [OF this] name [OF f'] show False by (simp add: fork_owner_def)
    qed
  qed
  show "objs v' r k = objs v r k" if owned: "owned_at env (fork_owner f) (objs v r) k"
    "k \<in> fork_keys env objs deps f w r"
  proof (rule ccontr)
    assume change: "objs v' r k \<noteq> objs v r k"
    show False
    proof (rule update_changes [OF assms(1-6) change])
      fix f'
      assume f': "frks w q' = Some f'"
        and gone: "objs v' r k = None \<Longrightarrow> owned_at env (fork_owner f') (objs v r) k"
        and kept: "\<And>x. objs v' r k = Some x \<Longrightarrow> k \<in> fork_keys env objs deps f' w r"
      have "keys_apart env objs deps f f' w" using assms(1,6-9) f' by (simp add: forks_apart_def)
      moreover have "owners_apart env objs f f' v" using assms(2,6-9) f' by (simp add: under_way_def)
      ultimately show False
        using gone kept owned assms(10) by (cases "objs v' r k") (auto simp: keys_apart_def owners_apart_def)
    qed
  qed
qed

text \<open>The update of a fork of the namespace leaves the premises of every fork there alone, one by one.\<close>

lemma update_program_named:
  assumes "forks_apart env objs deps frks ns w" "under_way ns w v" "ns \<noteq> ''''" "range_order ord"
    and "microservice_update env ord q' v = (res, v')" "nn_namespace q' = ns"
    and f: "nn_namespace q = ns" "frks w q = Some f"
  shows "program_named env objs f v'"
proof -
  have named: "program_named env objs f v" using assms(2) f by (simp add: under_way_def)
  show ?thesis
  proof (cases "(q' = q \<and> frks v q = Some f) \<or> objs v' = objs v")
    case True
    have fit: "names_fit env objs deps f v"
      using assms(1,2) f targets_cong(1) [of f v w] by (simp add: under_way_def forks_apart_def)
    have ns: "meta_namespace (ow_meta (fork_owner f)) = ns" using fork_namespace [OF f(2)] f(1) by simp
    from True show ?thesis
    proof
      assume "q' = q \<and> frks v q = Some f"
      then show ?thesis
        by (intro fork_update_program_named [OF assms(5,4) _ _ fit named]) (use f assms(3) in simp_all)
    qed (use named in \<open>simp add: program_named_def\<close>)
  next
    case False
    then obtain r k where "objs v' r k \<noteq> objs v r k" by (auto simp: fun_eq_iff)
    from microservice_update_frame [OF assms(5,4) this] obtain f' where "frks v q' = Some f'" by blast
    with False assms(2,6) f have "q' \<noteq> q" by (auto simp: under_way_def)
    note owned = update_owned(1) [OF assms(1-6) f this]
    have "objs v' r k = objs v r k" if "r \<in> {RService, RVSConfig}" "objs v' r k = Some x"
      "in_parent_namespace (fork_owner f) k" "owned_by_parent env (obj_meta x) (fork_owner f)" for r k x
      using that by (intro owned) (auto simp: fork_resources_def owned_at_def)
    note same = this [of RService _ "OService _", simplified] this [of RVSConfig _ "OVSConfig _", simplified]
    from named show ?thesis unfolding program_named_def using same by metis
  qed
qed

lemma update_owners_apart:
  assumes "forks_apart env objs deps frks ns w" "under_way ns w v" "ns \<noteq> ''''" "range_order ord"
    and "microservice_update env ord q' v = (res, v')" "nn_namespace q' = ns"
    and f: "nn_namespace q = ns" "frks w q = Some f" and g: "nn_namespace p = ns" "frks w p = Some g" "p \<noteq> q"
  shows "owners_apart env objs f g v'"
  unfolding owners_apart_def
proof (intro ballI allI notI, elim conjE)
  fix r k
  assume r: "r \<in> set fork_resources" and both: "owned_at env (fork_owner f) (objs v' r) k"
    "owned_at env (fork_owner g) (objs v' r) k"
  have "objs v' r k = objs v r k"
  proof (cases "q' = q")
    case True
    with g(3) have "q' \<noteq> p" by simp
    from update_owned(1) [OF assms(1-6) g(1,2) this r both(2)] show ?thesis .
  next
    case False
    from update_owned(1) [OF assms(1-6) f False r both(1)] show ?thesis .
  qed
  moreover have "owners_apart env objs f g v" using assms(2) f g by (simp add: under_way_def)
  ultimately show False using both r by (auto simp: owners_apart_def owned_at_def)
qed

lemma update_under_way:
  assumes "forks_apart env objs deps frks ns w" "under_way ns w v" "ns \<noteq> ''''" "range_order ord"
    and "microservice_update env ord q' v = (res, v')" "nn_namespace q' = ns"
  shows "under_way ns w v'"
  unfolding under_way_def
proof (intro conjI allI impI; (elim conjE)?)
  note steady = fork_update_steady [OF assms(5)]
  show "deps v' = deps w" "mgrs v' = mgrs w" using assms(2) steady by (simp_all add: under_way_def)
  show "frks w q = Some f" if "nn_namespace q = ns" "frks v' q = Some f" for q f
    using assms(2) steady that by (simp add: under_way_def)
  fix q f
  assume f: "nn_namespace q = ns" "frks w q = Some f"
  show "target_services env objs f v' = target_services env objs f w"
    using update_targets [OF assms f] assms(2) f by (simp add: under_way_def)
  show "program_named env objs f v'" by (rule update_program_named [OF assms f])
  show "owners_apart env objs f g v'" if "nn_namespace p = ns" "frks w p = Some g" "p \<noteq> q" for p g
    by (rule update_owners_apart [OF assms f that])
qed

lemma update_keeps_realised:
  assumes "forks_apart env objs deps frks ns w" "under_way ns w v" "ns \<noteq> ''''" "range_order ord"
    and "microservice_update env ord q' v = (res, v')" "nn_namespace q' = ns"
    and "nn_namespace q = ns" "frks w q = Some f" "q' \<noteq> q" and "fork_realised env objs deps mgrs f w v"
  shows "fork_realised env objs deps mgrs f w v'"
proof (rule fork_realised_cong [OF assms(10)])
  fix r k
  assume r: "r \<in> set fork_resources"
  note owned = update_owned [OF assms(1-9) r, of k]
  have keys: "owned_at env (fork_owner f) (objs v r) k \<longleftrightarrow> k \<in> fork_keys env objs deps f w r"
    using assms(10) r by (simp add: fork_realised_def Let_def)
  with owned show "owned_at env (fork_owner f) (objs v' r) k \<longleftrightarrow> owned_at env (fork_owner f) (objs v r) k"
    by (auto simp: owned_at_def)
  show "objs v' r k = objs v r k" if "k \<in> fork_keys env objs deps f w r" using owned(2) keys that by simp
qed

text \<open>The same for requests of all kinds, and for lists of them.\<close>

lemma request_step:
  assumes "forks_apart env objs deps frks ns w" "under_way ns w v" "ns \<noteq> ''''" "range_order ord"
    and "nn_namespace q = ns" "frks v q = Some f" "considerate env f q r"
    and "handle env ord nn_ord r v = (res, v')"
  shows "under_way ns w v'" "frks v' q = Some f"
    and "\<forall>t. r \<noteq> ForkRequest t q \<Longrightarrow> fork_realised env objs deps mgrs f w v \<Longrightarrow>
      fork_realised env objs deps mgrs f w v'"
proof -
  have fw: "frks w q = Some f" using assms(2,5,6) by (simp add: under_way_def)
  have ns: "meta_namespace (fork_meta f) = ns" using fork_namespace [OF fw] assms(5) by simp
  have spaced: "\<forall>now q'. r = ForkRequest now q' \<longrightarrow> nn_namespace q' \<noteq> ''''" using assms(7) by auto
  have "under_way ns w v' \<and> frks v' q = Some f \<and>
    ((\<forall>t. r \<noteq> ForkRequest t q) \<and> fork_realised env objs deps mgrs f w v \<longrightarrow>
        fork_realised env objs deps mgrs f w v')"
  proof (cases rule: request_ends [OF assms(8,4,3) spaced, case_names aside deleted updated])
    case aside
    with under_way_scope [OF assms(2) aside assms(3)] scope_cong(4) [OF aside ns assms(3)] assms(5,6)
    show ?thesis by (simp add: fork_scope_eq)
  next
    case (deleted now q' f' d)
    have live: "q \<noteq> q'"
      using deleted(1-4) assms(6,7) by auto
    have fewer: "frks v k = Some g" if "frks v' k = Some g" for k g
      using deleted(8) [of k] deleted(9) that by (cases "k = q'") auto
    have same: "target_services env objs g v' = target_services env objs g v"
      "program_named env objs g v' = program_named env objs g v"
      "owners_apart env objs g g' v' = owners_apart env objs g g' v" for g g'
      by (simp_all only: target_services_def program_named_def owners_apart_def deleted(5))
    have "under_way ns w v'" using assms(2) fewer by (simp add: under_way_def same deleted(6,7))
    moreover have "fork_realised env objs deps mgrs f w v' = fork_realised env objs deps mgrs f w v"
      by (simp add: fork_realised_def deleted(5))
    ultimately show ?thesis using deleted(8) [OF live] assms(6) by simp
  next
    case (updated now q' u)
    note u = under_way_scope [OF assms(2) updated(3) assms(3)]
    have "frks v' q = frks u q" using fork_update_steady(3) [OF updated(4)] by simp
    moreover have "frks u q = frks v q" using updated(3) assms(5) by (simp add: fork_scope_eq)
    moreover have "fork_realised env objs deps mgrs f w v'"
      if "\<forall>t. r \<noteq> ForkRequest t q" "fork_realised env objs deps mgrs f w v"
    proof (rule update_keeps_realised [OF assms(1) u assms(3,4) updated(4,2) assms(5) fw])
      show "q' \<noteq> q" using updated(1) that(1) by blast
      show "fork_realised env objs deps mgrs f w u"
        using that(2) scope_cong(4) [OF updated(3) ns assms(3)] by simp
    qed
    ultimately show ?thesis using update_under_way [OF assms(1) u assms(3,4) updated(4,2)] assms(6) by simp
  qed
  then show "under_way ns w v'" "frks v' q = Some f" and "\<forall>t. r \<noteq> ForkRequest t q \<Longrightarrow>
      fork_realised env objs deps mgrs f w v \<Longrightarrow> fork_realised env objs deps mgrs f w v'" by blast+
qed

lemma requests_steps:
  assumes "forks_apart env objs deps frks ns w" "under_way ns w v" "ns \<noteq> ''''" "range_order ord"
    and "nn_namespace q = ns" "frks v q = Some f" "\<forall>r \<in> set rs. considerate env f q r"
  shows "under_way ns w (handle_all env ord nn_ord rs v) \<and> frks (handle_all env ord nn_ord rs v) q = Some f \<and>
    ((\<forall>t. ForkRequest t q \<notin> set rs) \<and> fork_realised env objs deps mgrs f w v \<longrightarrow>
      fork_realised env objs deps mgrs f w (handle_all env ord nn_ord rs v))"
  using assms(2,6,7)
proof (induction rs arbitrary: v)
  case (Cons r rs)
  obtain res v' where run: "handle env ord nn_ord r v = (res, v')" by fastforce
  have "considerate env f q r" using Cons.prems(3) by simp
  note step = request_step [OF assms(1) Cons.prems(1) assms(3-5) Cons.prems(2) this run]
  from Cons.IH [OF step(1,2)] step(3) Cons.prems(3) run show ?case by auto
qed simp

lemma schedule_realises:
  assumes "range_order ord" "range_order nn_ord" and "frks w q = Some fork" "nn_namespace q \<noteq> ''''"
    and "forks_apart env objs deps frks (nn_namespace q) w"
    and "\<forall>r \<in> set (before @ ForkRequest now q # after). considerate env fork q r"
    and "\<forall>t. ForkRequest t q \<notin> set after"
    and "is_ok (fst (reconcile_fork env ord nn_ord now q (handle_all env ord nn_ord before w)))"
  shows "fork_realised env objs deps mgrs fork w (handle_all env ord nn_ord (before @
      ForkRequest now q # after) w)"
proof -
  let ?v = "handle_all env ord nn_ord before w"
  have "under_way (nn_namespace q) w w" using assms(5) by (auto simp: under_way_def forks_apart_def)
  from requests_steps [OF assms(5) this assms(4,1) refl assms(3), of before nn_ord] assms(6)
  have v: "under_way (nn_namespace q) w ?v" "frks ?v q = Some fork" by simp_all
  note same = under_wayD [OF v(1) refl assms(3)]
  from assms(8) obtain v' where run: "reconcile_fork env ord nn_ord now q ?v = (Ok (), v')"
    by (cases "reconcile_fork env ord nn_ord now q ?v") (auto simp: is_ok_def split: result.splits)
  have live: "case spec_deadline (fork_spec fork) of None \<Rightarrow> True | Some d \<Rightarrow> \<not> env_time_before env d now"
    using assms(6) by simp
  have "names_fit env objs deps fork ?v"
    using targets_cong(1) [OF same(1,3,4)] assms(3,5) by (simp add: forks_apart_def)
  from fork_reconcile_refines(1) [OF assms(1,2) run v(2) live assms(4) this same(2)]
  have realised: "fork_realised env objs deps mgrs fork w v'" by (simp add: targets_cong(3) [OF same(1,3,4)])
  have step: "handle env ord nn_ord (ForkRequest now q) ?v = (Ok (), v')" using run by simp
  have "considerate env fork q (ForkRequest now q)" using assms(6) by simp
  note next_world = request_step(1,2) [OF assms(5) v(1) assms(4,1) refl v(2) this step]
  from requests_steps [OF assms(5) next_world(1) assms(4,1) refl next_world(2), of after nn_ord]
      assms(6,7) realised
  show ?thesis by (simp add: run)
qed

end

end
