(* ===== verification/Interleaving.thy ===== *)
theory Interleaving
  imports Schedules
begin

text \<open>
  The controllers of the process run at the same time: each handles one request after the other, and
  between any two calls that one of them makes to the API server the others may make theirs. This theory has
  the environment in which that happens, what the reconcilers of VSConfigs and Services do to the world step
  by step (the guarantee), and what the reconciler of forks makes of it (the rely).
\<close>

section \<open>Calls between calls\<close>

text \<open>
  A call in a world with a history \<open>h\<close>: what happens before it depends on the history, and the call is
  entered into it.
\<close>

definition hooked_call ::
  "('h \<Rightarrow> 'w \<Rightarrow> 'w) \<Rightarrow> ('w \<Rightarrow> 'w \<Rightarrow> 'h \<Rightarrow> 'h) \<Rightarrow> ('w, 'a) eff \<Rightarrow> ('w \<times> 'h, 'a) eff" where
  "hooked_call prior enter m x =
     (let v = prior (snd x) (fst x)
      in case m v of (r, w') \<Rightarrow> (r, (w', enter v w' (snd x))))"

definition hooked_api ::
  "('h \<Rightarrow> 'w \<Rightarrow> 'w) \<Rightarrow> ('w \<Rightarrow> 'w \<Rightarrow> 'h \<Rightarrow> 'h) \<Rightarrow> ('w, 'o) resource_api \<Rightarrow> ('w \<times> 'h, 'o) resource_api" where
  "hooked_api prior enter api =
     \<lparr>api_get = (\<lambda>k. hooked_call prior enter (api_get api k)),
      api_list = (\<lambda>opts. hooked_call prior enter (api_list api opts)),
      api_delete = (\<lambda>x. hooked_call prior enter (api_delete api x)),
      api_create_or_update = (\<lambda>x f. hooked_call prior enter (api_create_or_update api x f))\<rparr>"

definition hooked ::
  "('h \<Rightarrow> 'w \<Rightarrow> 'w) \<Rightarrow> ('w \<Rightarrow> 'w \<Rightarrow> 'h \<Rightarrow> 'h) \<Rightarrow> ('w, 'u) env \<Rightarrow> ('w \<times> 'h, 'u) env" where
  "hooked prior enter env =
     \<lparr>env_forks = hooked_api prior enter (env_forks env),
      env_fork_managers = hooked_api prior enter (env_fork_managers env),
      env_services = hooked_api prior enter (env_services env),
      env_deployments = hooked_api prior enter (env_deployments env),
      env_vsconfigs = hooked_api prior enter (env_vsconfigs env),
      env_mappings = hooked_api prior enter (env_mappings env),
      env_create_or_update = (\<lambda>x f. hooked_call prior enter (env_create_or_update env x f)),
      env_list_unstructured = (\<lambda>g opts. hooked_call prior enter (env_list_unstructured env g opts)),
      env_delete_unstructured = (\<lambda>u. hooked_call prior enter (env_delete_unstructured env u)),
      env_convert = env_convert env,
      env_set_controller_reference = env_set_controller_reference env,
      env_vsconfig_from_unstructured = env_vsconfig_from_unstructured env,
      env_virtual_service_from_unstructured = env_virtual_service_from_unstructured env,
      env_group_version_string = env_group_version_string env,
      env_label_selector_as_selector = env_label_selector_as_selector env,
      env_set_as_selector = env_set_as_selector env,
      env_labels_everything = env_labels_everything env,
      env_new_requirement = env_new_requirement env,
      env_selector_add = env_selector_add env,
      env_string_set_list = env_string_set_list env,
      env_time_before = env_time_before env,
      env_fused_multiply_subtract = env_fused_multiply_subtract env\<rparr>"

text \<open>The call that a hooked one makes.\<close>

lemma hooked_callD:
  "hooked_call prior enter m x = (r, y) \<Longrightarrow> m (prior (snd x) (fst x)) = (r, fst y)"
  by (auto simp: hooked_call_def Let_def split: prod.splits)

text \<open>
  Others act before the \<open>n\<close>-th call: \<open>act n\<close> says what they do, and the history is the number of calls. With
  the calls as the history, each of them with the worlds before and after it.
\<close>

definition interleaved :: "(nat \<Rightarrow> 'w \<Rightarrow> 'w) \<Rightarrow> ('w, 'u) env \<Rightarrow> ('w \<times> nat, 'u) env" where
  "interleaved act = hooked act (\<lambda>_ _. Suc)"

definition stepped :: "(nat \<Rightarrow> 'w \<Rightarrow> 'w) \<Rightarrow> ('w, 'u) env \<Rightarrow> ('w \<times> ('w \<times> 'w) list, 'u) env" where
  "stepped act = hooked (\<lambda>steps. act (length steps)) (\<lambda>v w' steps. steps @ [(v, w')])"

text \<open>
  A step of the other controllers: a call that the reconcile of some VSConfig or Service makes, whatever happens
  between its calls.
\<close>

inductive foreign_step :: "('w, 'u) env \<Rightarrow> 'w \<Rightarrow> 'w \<Rightarrow> bool" for env where
  vsconfig_step: "reconcile_vsconfig (stepped act env) q (w, []) = (res, (w', steps)) \<Longrightarrow> (v, v') \<in> set steps \<Longrightarrow>
    foreign_step env v v'"
| service_step: "reconcile_service (stepped act env) q (w, []) = (res, (w', steps)) \<Longrightarrow> (v, v') \<in> set steps \<Longrightarrow>
    foreign_step env v v'"

section \<open>What every call of a reconcile maintains\<close>

definition maintains :: "('w \<Rightarrow> bool) \<Rightarrow> ('w, 'a) eff \<Rightarrow> bool" where
  "maintains I m \<longleftrightarrow> (\<forall>w. I w \<longrightarrow> I (snd (m w)))"

lemma maintainsI: "(\<And>w r w'. I w \<Longrightarrow> m w = (r, w') \<Longrightarrow> I w') \<Longrightarrow> maintains I m"
  unfolding maintains_def by (metis prod.collapse)

lemma maintainsD: "maintains I m \<Longrightarrow> m w = (r, w') \<Longrightarrow> I w \<Longrightarrow> I w'"
  unfolding maintains_def by (metis snd_conv)

lemma maintains_lift: "maintains I (lift_result r)"
  by (simp add: maintains_def)

lemma maintains_bind_Ok:
  assumes "maintains I m" and "\<And>w x w'. m w = (Ok x, w') \<Longrightarrow> maintains I (f x)"
  shows "maintains I (bind_eff m f)"
proof (rule maintainsI)
  fix w r w'
  assume "I w" "bind_eff m f w = (r, w')"
  then show "I w'"
    by - (erule bind_eff_cases; meson assms maintainsD)
qed

lemma maintains_bind: "maintains I m \<Longrightarrow> (\<And>x. maintains I (f x)) \<Longrightarrow> maintains I (bind_eff m f)"
  by (rule maintains_bind_Ok)

lemma maintains_for_each: "(\<And>x. x \<in> set xs \<Longrightarrow> maintains I (f x)) \<Longrightarrow> maintains I (for_each xs f)"
  by (induction xs) (auto intro!: maintains_bind maintains_lift)

lemma maintains_fold_eff: "(\<And>x s. x \<in> set xs \<Longrightarrow> maintains I (f x s)) \<Longrightarrow> maintains I (fold_eff f xs s)"
  by (induction xs arbitrary: s) (auto intro!: maintains_bind maintains_lift)

text \<open>A refresh maintains what its calls maintain, on objects of its resource.\<close>

lemma refresh_maintains:
  assumes "\<And>opts. maintains I (env_list_unstructured env (ol_gvk lst) opts)"
    and "\<And>w us w' n. env_list_unstructured env (ol_gvk lst) (in_namespace n) w = (Ok us, w') \<Longrightarrow>
      \<forall>u \<in> set us. us_gvk u = g"
    and "\<And>u. us_gvk u = g \<Longrightarrow> maintains I (env_delete_unstructured env u)"
    and "\<And>x. x \<in> set (ol_items lst) \<Longrightarrow> resource_of x = r"
    and "\<And>x f. resource_of x = r \<Longrightarrow> maintains I (env_create_or_update env x f)"
  shows "maintains I (refresh env parent lst)"
proof -
  have step: "maintains I (handle_existing_step env parent lst ids u ex)" if "us_gvk u = g" for ids u ex
    unfolding handle_existing_step_def using assms(3) [OF that] by (auto intro!: maintains_bind maintains_lift)
  have "maintains I (handle_existing env parent lst)"
    unfolding handle_existing_def
    by (intro maintains_bind maintains_lift maintains_bind_Ok [OF assms(1)] maintains_fold_eff step)
      (use assms(2) in blast)
  moreover have "maintains I (refresh_item env parent lst ex x)" if "x \<in> set (ol_items lst)" for ex x
    unfolding refresh_item_def by (intro maintains_bind maintains_lift assms(5)) (simp add: assms(4) [OF that])
  ultimately show ?thesis unfolding refresh_def by (intro maintains_bind maintains_for_each)
qed

lemma maintains_get_cases:
  assumes "maintains I (api_get api k)" "maintains I missing" "\<And>x. maintains I (found x)"
  shows "maintains I (\<lambda>w. case api_get api k w of
      (Err NotFound, w1) \<Rightarrow> missing w1 | (Err e, w1) \<Rightarrow> (Err e, w1) | (Panic p, w1) \<Rightarrow> (Panic p, w1)
    | (Ok x, w1) \<Rightarrow> found x w1)"
proof (rule maintainsI)
  fix w r w'
  assume I: "I w" and run: "(case api_get api k w of
      (Err NotFound, w1) \<Rightarrow> missing w1 | (Err e, w1) \<Rightarrow> (Err e, w1) | (Panic p, w1) \<Rightarrow> (Panic p, w1)
    | (Ok x, w1) \<Rightarrow> found x w1) = (r, w')"
  obtain r0 w0 where get: "api_get api k w = (r0, w0)" by fastforce
  with assms(1) I have "I w0" by (rule_tac maintainsD)
  with run get assms(2,3) show "I w'"
    by (auto split: result.splits error.splits dest: maintainsD)
qed

section \<open>The guarantee of the reconcilers of VSConfigs and Services\<close>

text \<open>The calls that they make: reads of VSConfigs and Services, and a refresh of VirtualServices.\<close>

definition route_calls_maintain :: "('w \<Rightarrow> bool) \<Rightarrow> ('w, 'u) env \<Rightarrow> bool" where
  "route_calls_maintain I env \<longleftrightarrow>
     (\<forall>k. maintains I (api_get (env_vsconfigs env) k)) \<and> (\<forall>k. maintains I (api_get (env_services env) k)) \<and>
     (\<forall>opts. maintains I (api_list (env_vsconfigs env) opts)) \<and>
     (\<forall>opts. maintains I (api_list (env_services env) opts)) \<and>
     (\<forall>opts. maintains I (env_list_unstructured env (resource_list_gvk RVirtualService) opts)) \<and>
     (\<forall>w us w' n. env_list_unstructured env (resource_list_gvk RVirtualService) (in_namespace n) w =
         (Ok us, w') \<longrightarrow>
        (\<forall>u \<in> set us. us_gvk u = item_gvk (resource_list_gvk RVirtualService))) \<and>
     (\<forall>u. us_gvk u = item_gvk (resource_list_gvk RVirtualService) \<longrightarrow>
         maintains I (env_delete_unstructured env u)) \<and>
     (\<forall>x f. resource_of x = RVirtualService \<longrightarrow> maintains I (env_create_or_update env x f))"

lemma virtual_service_update_maintains:
  fixes env :: "('w, 'u) env"
  assumes "route_calls_maintain I env"
  shows "maintains I (virtual_service_update env k)"
proof -
  have "maintains I (refresh env parent (build_virtual_service env a :: 'u object_list))" for parent a
  proof (rule refresh_maintains)
    note calls = assms [unfolded route_calls_maintain_def]
    show "maintains I (env_list_unstructured env (ol_gvk (build_virtual_service env a)) opts)" for opts
      using calls by (simp add: virtual_services.list_gvk)
    show "env_list_unstructured env (ol_gvk (build_virtual_service env a)) (in_namespace n) w = (Ok us, w') \<Longrightarrow>
        \<forall>u \<in> set us. us_gvk u = item_gvk (resource_list_gvk RVirtualService)" for w us w' n
      using calls unfolding virtual_services.list_gvk by blast
    show "us_gvk u = item_gvk (resource_list_gvk RVirtualService) \<Longrightarrow>
        maintains I (env_delete_unstructured env u)" for u
      using calls by blast
    show "x \<in> set (ol_items (build_virtual_service env a)) \<Longrightarrow> resource_of x = RVirtualService" for x
      by (rule virtual_services.items_resource)
    show "resource_of x = RVirtualService \<Longrightarrow> maintains I (env_create_or_update env x f)" for x f
      using calls by blast
  qed
  then show ?thesis
    using assms unfolding virtual_service_update_def build_vs_lister_def generate_vs_lists_def Let_def
    by (auto simp: route_calls_maintain_def intro!: maintains_bind maintains_lift maintains_for_each)
qed

lemma route_reconciles_maintain:
  assumes "route_calls_maintain I env"
  shows "maintains I (reconcile_vsconfig env q)" "maintains I (reconcile_service env q)"
proof -
  note update = virtual_service_update_maintains [OF assms]
  have "maintains I (virtual_service_update_all env opts)" for opts
    using assms unfolding virtual_service_update_all_def update_all_def
    by (auto simp: route_calls_maintain_def intro!: maintains_bind maintains_for_each update)
  then show "maintains I (reconcile_vsconfig env q)"
    using assms unfolding reconcile_vsconfig_def [abs_def]
    by (intro maintains_get_cases update) (auto simp: route_calls_maintain_def)
  show "maintains I (reconcile_service env q)"
    using assms unfolding reconcile_service_def [abs_def]
    by (intro maintains_get_cases [where missing = "\<lambda>w. (Ok (), w)"] update)
      (auto simp: route_calls_maintain_def maintains_def)
qed

text \<open>The view of the objects without the VirtualServices.\<close>

definition routeless :: "'w object_view \<Rightarrow> 'w object_view" where
  "routeless objs w r k = (if r = RVirtualService then None else objs w r k)"

lemma routeless_object [simp]: "r \<noteq> RVirtualService \<Longrightarrow> routeless objs w r k = objs w r k"
  by (simp add: routeless_def)

lemma logged_call_maintains:
  assumes "\<And>v r v'. m v = (r, v') \<Longrightarrow> P v v'"
  shows "maintains (\<lambda>x. \<forall>(v, v') \<in> set (snd x). P v v') (hooked_call before (\<lambda>v w' steps. steps @ [(v, w')]) m)"
  using assms by (auto simp: maintains_def hooked_call_def Let_def split: prod.splits)

lemma stepped_calls [simp]:
  "api_get (env_vsconfigs (stepped act env)) k =
     hooked_call (\<lambda>steps. act (length steps)) (\<lambda>v w' steps. steps @ [(v, w')]) (api_get (env_vsconfigs env) k)"
  "api_get (env_services (stepped act env)) k =
     hooked_call (\<lambda>steps. act (length steps)) (\<lambda>v w' steps. steps @ [(v, w')]) (api_get (env_services env) k)"
  "api_list (env_vsconfigs (stepped act env)) opts =
     hooked_call (\<lambda>steps. act (length steps)) (\<lambda>v w' steps. steps @ [(v, w')])
         (api_list (env_vsconfigs env) opts)"
  "api_list (env_services (stepped act env)) opts =
     hooked_call (\<lambda>steps. act (length steps)) (\<lambda>v w' steps. steps @ [(v, w')])
         (api_list (env_services env) opts)"
  "env_list_unstructured (stepped act env) g opts =
     hooked_call (\<lambda>steps. act (length steps)) (\<lambda>v w' steps. steps @ [(v, w')]) (env_list_unstructured
         env g opts)"
  "env_delete_unstructured (stepped act env) u =
     hooked_call (\<lambda>steps. act (length steps)) (\<lambda>v w' steps. steps @ [(v, w')]) (env_delete_unstructured env u)"
  "env_create_or_update (stepped act env) x f =
     hooked_call (\<lambda>steps. act (length steps)) (\<lambda>v w' steps. steps @ [(v, w')]) (env_create_or_update env x f)"
  by (simp_all add: stepped_def hooked_def hooked_api_def)

context routed_cluster
begin

text \<open>All that the reconciler of forks sees of the world.\<close>

definition besides_routes ::
  "'w \<Rightarrow> (resource \<Rightarrow> namespaced_name \<Rightarrow> client_object option) \<times> (namespaced_name \<Rightarrow> mapping option) \<times>
    (namespaced_name \<Rightarrow> fork option) \<times> (list_options \<Rightarrow> deployment list) \<times>
    (namespaced_name \<Rightarrow> fork_manager option)" where
  "besides_routes w = (routeless objs w, maps w, frks w, deps w, mgrs w)"

lemma besides_routesI:
  assumes "keeps (\<lambda>w. (objs w, maps w, frks w)) m" "keeps (\<lambda>w. (deps w, mgrs w)) m" "m v = (r, v')"
  shows "besides_routes v' = besides_routes v"
  using keepsD [OF assms(1,3)] keepsD [OF assms(2,3)]
    by (auto simp: besides_routes_def routeless_def fun_eq_iff)

lemma route_write:
  assumes "keeps (\<lambda>w. (maps w, frks w)) m" "keeps (\<lambda>w. (deps w, mgrs w)) m" "m v = (r, v')"
    and "objs v' = objs v \<or> (\<exists>k s. objs v' = set_object (objs v) RVirtualService k s)"
  shows "besides_routes v' = besides_routes v"
  using keepsD [OF assms(1,3)] keepsD [OF assms(2,3)] assms(4)
  by (auto simp: besides_routes_def routeless_def fun_eq_iff)

lemma route_calls_logged:
  "route_calls_maintain (\<lambda>x. \<forall>(v, v') \<in> set (snd x). besides_routes v' = besides_routes v) (stepped act env)"
  unfolding route_calls_maintain_def stepped_calls
proof (intro conjI allI impI logged_call_maintains ballI)
  show "besides_routes v' = besides_routes v" if "api_get (env_vsconfigs env) k v = (r, v')" for k v r v'
    by (rule besides_routesI [OF vsconfigs_read(1) steady_fork_calls(1) that])
  show "besides_routes v' = besides_routes v" if "api_get (env_services env) k v = (r, v')" for k v r v'
    by (rule besides_routesI [OF services_read(1) steady_reads(4) that])
  show "besides_routes v' = besides_routes v" if "api_list (env_vsconfigs env) opts v = (r, v')" for opts v r v'
    by (rule besides_routesI [OF vsconfigs_read(2) steady_reads(6) that])
  show "besides_routes v' = besides_routes v" if "api_list (env_services env) opts v = (r, v')" for opts v r v'
    by (rule besides_routesI [OF services_read(2) steady_reads(5) that])
  show "besides_routes v' = besides_routes v" if "env_list_unstructured env g opts v = (r, v')"
      for g opts v r v'
    by (rule route_write [OF object_calls(1) steady_writes(1) that]) (simp add: list_keeps [OF that])
  show "us_gvk u = item_gvk (resource_list_gvk RVirtualService)"
    if "hooked_call prior enter (env_list_unstructured env (resource_list_gvk RVirtualService)
        (in_namespace n)) w =
      (Ok us, w')" "u \<in> set us" for prior enter n w us w' u
    using list_sound [OF hooked_callD [OF that(1)] that(2)] by simp
  show "besides_routes v' = besides_routes v" if "us_gvk u = item_gvk (resource_list_gvk RVirtualService)"
    "env_delete_unstructured env u v = (r, v')" for u v r v'
    by (rule route_write [OF object_calls(2) steady_writes(2) that(2)])
      (use delete_effect [OF that(2,1)] in auto)
  show "besides_routes v' = besides_routes v" if "resource_of x = RVirtualService"
    "env_create_or_update env x f v = (r, v')" for x f v r v'
    by (rule route_write [OF object_calls(3) steady_writes(3) that(2)])
      (use create_or_update_effect [OF that(2)] that(1) in auto)
qed

text \<open>
  Whatever happens between the calls of a reconcile of a VSConfig or a Service, each of them leaves everything
  but VirtualServices as it is.
\<close>

lemma foreign_step_besides_routes:
  assumes "foreign_step env v v'"
  shows "besides_routes v' = besides_routes v"
  using assms
proof cases
  case (vsconfig_step act q w res w' steps)
  from maintainsD [OF route_reconciles_maintain(1) [OF route_calls_logged] vsconfig_step(1)] vsconfig_step(2)
  show ?thesis by auto
next
  case (service_step act q w res w' steps)
  from maintainsD [OF route_reconciles_maintain(2) [OF route_calls_logged] service_step(1)] service_step(2)
  show ?thesis by auto
qed

lemma foreign_steps_besides_routes: "(foreign_step env)\<^sup>*\<^sup>* v v' \<Longrightarrow> besides_routes v' = besides_routes v"
  by (induction rule: rtranclp_induct) (simp_all add: foreign_step_besides_routes)

end

section \<open>A fork does not call for VirtualServices\<close>

text \<open>
  For the proof only: the environment that refuses calls on VirtualServices. The reconciler of forks makes none,
  so it does the same there, and there the laws hold of all objects it can call for.
\<close>

definition fenced :: "('w, 'u) env \<Rightarrow> ('w, 'u) env" where
  "fenced env = env
     \<lparr>env_create_or_update := (\<lambda>x f. if resource_of x = RVirtualService then lift_result (Err UnsupportedType)
        else env_create_or_update env x f),
      env_list_unstructured := (\<lambda>g opts. if g = resource_list_gvk RVirtualService then lift_result
          (Err UnsupportedType)
        else env_list_unstructured env g opts),
      env_delete_unstructured := (\<lambda>u. if us_gvk u = item_gvk (resource_list_gvk RVirtualService)
        then lift_result (Err UnsupportedType) else env_delete_unstructured env u)\<rparr>"

lemma fenced_calls [simp]:
  "env_forks (fenced env) = env_forks env" "env_fork_managers (fenced env) = env_fork_managers env"
  "env_services (fenced env) = env_services env" "env_deployments (fenced env) = env_deployments env"
  "env_vsconfigs (fenced env) = env_vsconfigs env" "env_mappings (fenced env) = env_mappings env"
  "env_convert (fenced env) = env_convert env"
  "env_set_controller_reference (fenced env) = env_set_controller_reference env"
  "env_vsconfig_from_unstructured (fenced env) = env_vsconfig_from_unstructured env"
  "env_group_version_string (fenced env) = env_group_version_string env"
  "env_label_selector_as_selector (fenced env) = env_label_selector_as_selector env"
  "env_set_as_selector (fenced env) = env_set_as_selector env"
  "env_labels_everything (fenced env) = env_labels_everything env"
  "env_new_requirement (fenced env) = env_new_requirement env"
  "env_selector_add (fenced env) = env_selector_add env"
  "env_string_set_list (fenced env) = env_string_set_list env"
  "env_time_before (fenced env) = env_time_before env"
  "env_fused_multiply_subtract (fenced env) = env_fused_multiply_subtract env"
  by (simp_all add: fenced_def)

lemma build_app_fenced: "build_app (fenced env) ord fork = build_app env ord fork"
proof -
  have "collect_deployments (fenced env) fork = collect_deployments env fork"
    by (simp add: fun_eq_iff collect_deployments_def list_deployments_routable_from_svc_def routable_from_def
        cong: option.case_cong)
  then show ?thesis
    by (simp add: build_app_def get_fork_header_key_def fork_target_services_def existing_forked_services_def
        cong: option.case_cong)
qed

lemma generate_app_lists_fenced: "generate_app_lists (fenced env) ord a = generate_app_lists env ord a"
proof -
  have "vsconfig_identity (fenced env) x = vsconfig_identity env x" for x
    by (cases "(env, x)" rule: vsconfig_identity.cases) simp_all
  then have "vsconfig_identity (fenced env) = vsconfig_identity env" by blast
  then show ?thesis by (simp add: generate_app_lists_def generate_vsconfigs_def)
qed

lemma mapping_update_fenced: "mapping_update (fenced env) ord nn_ord k = mapping_update env ord nn_ord k"
proof -
  have options: "apply_options_to_mapping (fenced env) ord = apply_options_to_mapping env ord"
    by (intro ext) (simp add: apply_options_to_mapping_def cong: option.case_cong)
  have mutate: "mapping_mutate (fenced env) ord = mapping_mutate env ord"
    by (intro ext) (simp add: mapping_mutate_def desired_mapping_spec_def options)
  have upstream: "update_upstream (fenced env) ord = update_upstream env ord"
    by (intro ext) (simp add: update_upstream_def mutate)
  have "update_identifier (fenced env) ord = update_identifier env ord"
    by (intro ext) (simp add: update_identifier_def upstream)
  then show ?thesis by (simp add: mapping_update_def)
qed

lemma fork_resources_fenced:
  assumes "r \<in> set fork_resources"
  shows "r \<noteq> RVirtualService" "resource_list_gvk r \<noteq> resource_list_gvk RVirtualService"
    "item_gvk (resource_list_gvk r) \<noteq> item_gvk (resource_list_gvk RVirtualService)"
  using assms
  by (auto simp: fork_resources_def item_gvk_def deployment_copy_list_gvk_def service_list_gvk_def
      vsconfig_list_gvk_def fork_group_kind_def virtual_service_gvk_def)

lemma fold_eff_cong_set: "(\<And>x. x \<in> set xs \<Longrightarrow> f x = g x) \<Longrightarrow> fold_eff f xs = fold_eff g xs"
proof (induction xs)
  case (Cons x xs)
  then have "f x = g x" "fold_eff f xs = fold_eff g xs" by simp_all
  then show ?case by (intro ext) simp
qed (simp add: fun_eq_iff)

lemma for_each_cong_set: "(\<And>x. x \<in> set xs \<Longrightarrow> f x = g x) \<Longrightarrow> for_each xs f = for_each xs g"
  by (induction xs) auto

lemma refresh_fenced:
  fixes env :: "('w, 'u) env" and lst :: "'u object_list"
  assumes lst: "identity_contract env lst r" and r: "r \<in> set fork_resources"
    and listed: "\<And>w us w' n. env_list_unstructured env (resource_list_gvk r) (in_namespace n) w = (Ok us, w') \<Longrightarrow>
      \<forall>u \<in> set us. us_gvk u = item_gvk (resource_list_gvk r)"
  shows "refresh (fenced env) parent lst = refresh env parent lst"
proof -
  note other = fork_resources_fenced [OF r]
  have gvk: "ol_gvk lst = resource_list_gvk r" by (rule identity_contract.list_gvk [OF lst])
  have "handle_existing_step (fenced env) parent lst ids u = handle_existing_step env parent lst ids u"
    if "us_gvk u = item_gvk (resource_list_gvk r)" for ids u
  proof (intro ext)
    fix ex w
    have "env_delete_unstructured (fenced env) u = env_delete_unstructured env u"
      using other(3) that by (simp add: fenced_def del: resource_list_gvk.simps)
    moreover have "owned_by_parent (fenced env) m p = owned_by_parent env m p" for m p
      by (simp add: owned_by_parent_def)
    ultimately show "handle_existing_step (fenced env) parent lst ids u ex w =
        handle_existing_step env parent lst ids u ex w"
      unfolding handle_existing_step_def by (simp only:)
  qed
  then have steps: "fold_eff (handle_existing_step (fenced env) parent lst ids) us =
      fold_eff (handle_existing_step env parent lst ids) us"
    if "\<forall>u \<in> set us. us_gvk u = item_gvk (resource_list_gvk r)" for ids us
    using that by (intro fold_eff_cong_set) simp
  have list: "env_list_unstructured (fenced env) (ol_gvk lst) = env_list_unstructured env (ol_gvk lst)"
    using other(2) by (simp add: gvk fenced_def)
  have existing: "handle_existing (fenced env) parent lst = handle_existing env parent lst"
    unfolding handle_existing_def list
    by (rule ext, intro bind_eff_cong_Ok) (use listed steps gvk in metis)
  have mutate: "refresh_mutate (fenced env) parent x = refresh_mutate env parent x" for x
    by (simp add: fun_eq_iff refresh_mutate_def)
  have "refresh_item (fenced env) parent lst ex x = refresh_item env parent lst ex x"
    if "x \<in> set (ol_items lst)" for ex x
  proof -
    define z where "z name = map_obj_meta (\<lambda>m. m\<lparr>meta_namespace := meta_namespace (ow_meta parent),
        meta_name := name\<rparr>)
      (zero_of_type x)" for name
    have "resource_of (z name) \<noteq> RVirtualService" for name
      using identity_contract.items_resource [OF lst that] other(1) by (simp add: z_def)
    then have "env_create_or_update (fenced env) (z name) = env_create_or_update env (z name)" for name
      by (simp add: fenced_def fun_eq_iff)
    then show ?thesis unfolding refresh_item_def z_def [symmetric] by (simp add: mutate)
  qed
  then have "for_each (ol_items lst) (refresh_item (fenced env) parent lst ex) =
      for_each (ol_items lst) (refresh_item env parent lst ex)" for ex
    by (rule for_each_cong_set)
  then show ?thesis unfolding refresh_def existing by presburger
qed

definition listings_typed :: "('w, 'u) env \<Rightarrow> bool" where
  "listings_typed env \<longleftrightarrow>
     (\<forall>r n w us w'. env_list_unstructured env (resource_list_gvk r) (in_namespace n) w = (Ok us, w') \<longrightarrow>
        (\<forall>u \<in> set us. us_gvk u = item_gvk (resource_list_gvk r)))"

lemma microservice_update_fenced:
  fixes env :: "('w, 'u) env"
  assumes "listings_typed env" and "range_order ord"
  shows "microservice_update (fenced env) ord q = microservice_update env ord q"
proof -
  have lists: "for_each ls (refresh (fenced env) parent) = for_each ls (refresh env parent)"
    if gen: "generate_app_lists env ord a = Ok ls" for a ls parent
  proof (rule for_each_cong_set)
    from gen obtain dcs where dcs: "generate_deployment_copies ord a = Ok dcs"
      and ls: "ls = [dcs, generate_services ord a, generate_vsconfigs env a]"
      by (auto simp: generate_app_lists_def result_simps)
    fix l
    assume "l \<in> set ls"
    then consider "l = dcs" | "l = generate_services ord a" | "l = generate_vsconfigs env a" by (auto simp: ls)
    then obtain r where r: "identity_contract env l r" "r \<in> set fork_resources"
    proof cases
      case 1
      show thesis
        by (rule that [of RDeploymentCopy], unfold 1, rule deployment_copies_contract [OF dcs assms(2)])
          (simp add: fork_resources_def)
    next
      case 2
      show thesis
        by (rule that [of RService], unfold 2, rule services.identity_contract_axioms)
            (simp add: fork_resources_def)
    next
      case 3
      show thesis
        by (rule that [of RVSConfig], unfold 3, rule vsconfigs.identity_contract_axioms)
            (simp add: fork_resources_def)
    qed
    show "refresh (fenced env) parent l = refresh env parent l"
      by (rule refresh_fenced [OF r]) (use assms(1) in \<open>unfold listings_typed_def, blast\<close>)
  qed
  have "bind_eff (lift_result (generate_app_lists env ord a)) (\<lambda>ls. for_each ls (refresh (fenced env) parent)) =
      bind_eff (lift_result (generate_app_lists env ord a)) (\<lambda>ls. for_each ls (refresh env parent))"
          for a parent
    by (cases "generate_app_lists env ord a") (simp_all add: lists)
  then have "bind_eff (build_app env ord fork) (\<lambda>a. bind_eff (lift_result (generate_app_lists env ord a))
        (\<lambda>ls. for_each ls (refresh (fenced env) parent))) =
      bind_eff (build_app env ord fork) (\<lambda>a. bind_eff (lift_result (generate_app_lists env ord a))
        (\<lambda>ls. for_each ls (refresh env parent)))" for fork parent
    by presburger
  then show ?thesis
    by (auto simp: fun_eq_iff microservice_update_def build_app_fenced generate_app_lists_fenced
        split: prod.split result.split error.split)
qed

lemma reconcile_fork_fenced:
  assumes "listings_typed env" and "range_order ord"
  shows "reconcile_fork (fenced env) ord nn_ord now q = reconcile_fork env ord nn_ord now q"
  by (auto simp: fun_eq_iff reconcile_fork_def reconcile_fork_found_def mapping_update_all_def
      mapping_update_fenced
      microservice_update_fenced [OF assms] update_all_def split: prod.split result.split error.split
          option.splits)

section \<open>The rely of the reconciler of forks\<close>

lemma hooked_api_calls [simp]:
  "api_get (hooked_api prior enter api) k = hooked_call prior enter (api_get api k)"
  "api_list (hooked_api prior enter api) opts = hooked_call prior enter (api_list api opts)"
  "api_delete (hooked_api prior enter api) x = hooked_call prior enter (api_delete api x)"
  "api_create_or_update (hooked_api prior enter api) x f = hooked_call prior enter
      (api_create_or_update api x f)"
  by (simp_all add: hooked_api_def)

lemma interleaved_calls [simp]:
  "env_forks (interleaved act env) = hooked_api act (\<lambda>_ _. Suc) (env_forks env)"
  "env_fork_managers (interleaved act env) = hooked_api act (\<lambda>_ _. Suc) (env_fork_managers env)"
  "env_services (interleaved act env) = hooked_api act (\<lambda>_ _. Suc) (env_services env)"
  "env_deployments (interleaved act env) = hooked_api act (\<lambda>_ _. Suc) (env_deployments env)"
  "env_vsconfigs (interleaved act env) = hooked_api act (\<lambda>_ _. Suc) (env_vsconfigs env)"
  "env_mappings (interleaved act env) = hooked_api act (\<lambda>_ _. Suc) (env_mappings env)"
  "env_create_or_update (interleaved act env) x f = hooked_call act (\<lambda>_ _. Suc) (env_create_or_update env x f)"
  "env_list_unstructured (interleaved act env) g opts = hooked_call act (\<lambda>_ _. Suc)
      (env_list_unstructured env g opts)"
  "env_delete_unstructured (interleaved act env) u = hooked_call act (\<lambda>_ _. Suc)
      (env_delete_unstructured env u)"
  "env_convert (interleaved act env) = env_convert env"
  "env_set_controller_reference (interleaved act env) = env_set_controller_reference env"
  "env_vsconfig_from_unstructured (interleaved act env) = env_vsconfig_from_unstructured env"
  "env_group_version_string (interleaved act env) = env_group_version_string env"
  "env_label_selector_as_selector (interleaved act env) = env_label_selector_as_selector env"
  "env_set_as_selector (interleaved act env) = env_set_as_selector env"
  "env_labels_everything (interleaved act env) = env_labels_everything env"
  "env_new_requirement (interleaved act env) = env_new_requirement env"
  "env_selector_add (interleaved act env) = env_selector_add env"
  "env_time_before (interleaved act env) = env_time_before env"
  by (simp_all add: interleaved_def hooked_def)

context routed_cluster
begin

lemma interleaved_typed: "listings_typed (interleaved act env)"
  unfolding listings_typed_def interleaved_calls
proof (intro allI impI ballI)
  fix r n w us w' u
  assume "hooked_call act (\<lambda>_ _. Suc) (env_list_unstructured env (resource_list_gvk r) (in_namespace n))
      w = (Ok us, w')"
    "u \<in> set us"
  from list_sound [OF hooked_callD [OF this(1)] this(2)] show
      "us_gvk u = item_gvk (resource_list_gvk r)" by simp
qed

lemma hooked_keeps:
  assumes "\<And>n w. view (act n w) = view w" and "\<And>v r v'. m v = (r, v') \<Longrightarrow> view v' = view v"
  shows "keeps (\<lambda>x. view (fst x)) (hooked_call act enter m)"
proof (rule keepsI)
  fix x r y
  assume "hooked_call act enter m x = (r, y)"
  from assms(2) [OF hooked_callD [OF this]] assms(1) show "view (fst y) = view (fst x)" by simp
qed

text \<open>So the calls of an interleaved fork, VirtualServices aside, obey the laws of a cluster of its own.\<close>

lemma read_leaves_besides_routes:
  "api_get (env_forks env) k v = (rf, v') \<Longrightarrow> besides_routes v' = besides_routes v"
  "api_list (env_forks env) opts v = (rfs, v') \<Longrightarrow> besides_routes v' = besides_routes v"
  "api_get (env_fork_managers env) k v = (rm, v') \<Longrightarrow> besides_routes v' = besides_routes v"
  "api_list (env_fork_managers env) opts v = (rms, v') \<Longrightarrow> besides_routes v' = besides_routes v"
  "api_get (env_services env) k v = (rs, v') \<Longrightarrow> besides_routes v' = besides_routes v"
  "api_list (env_services env) opts v = (rss, v') \<Longrightarrow> besides_routes v' = besides_routes v"
  "api_get (env_vsconfigs env) k v = (rv, v') \<Longrightarrow> besides_routes v' = besides_routes v"
  "api_list (env_vsconfigs env) opts v = (rvs, v') \<Longrightarrow> besides_routes v' = besides_routes v"
  "api_list (env_deployments env) opts v = (rds, v') \<Longrightarrow> besides_routes v' = besides_routes v"
  "api_list (env_mappings env) opts v = (rps, v') \<Longrightarrow> besides_routes v' = besides_routes v"
  by (blast intro: besides_routesI reads steady_reads steady_fork_calls)+

lemma interleaved_views:
  assumes "\<And>n w. besides_routes (act n w) = besides_routes w"
  shows "routeless objs (act n w) = routeless objs w" "maps (act n w) = maps w" "frks (act n w) = frks w"
    "deps (act n w) = deps w" "mgrs (act n w) = mgrs w"
  using assms [of n w] by (simp_all add: besides_routes_def)

lemma interleaved_read:
  assumes "\<And>n w. besides_routes (act n w) = besides_routes w"
    and "\<And>v r v'. m v = (r, v') \<Longrightarrow> besides_routes v' = besides_routes v"
  shows "keeps (\<lambda>x. (routeless objs (fst x), maps (fst x), frks (fst x))) (hooked_call act enter m)"
    and "keeps (\<lambda>x. (deps (fst x), mgrs (fst x))) (hooked_call act enter m)"
proof -
  have "keeps (\<lambda>x. besides_routes (fst x)) (hooked_call act enter m)"
    by (rule hooked_keeps [where view = besides_routes and act = act and m = m, OF assms])
  from keeps_part [OF this, of "\<lambda>(a, b, c, _). (a, b, c)"] keeps_part [OF this, of "\<lambda>(_, _, _, d). d"]
  show "keeps (\<lambda>x. (routeless objs (fst x), maps (fst x), frks (fst x))) (hooked_call act enter m)"
    and "keeps (\<lambda>x. (deps (fst x), mgrs (fst x))) (hooked_call act enter m)"
    by (simp_all add: besides_routes_def)
qed

lemma interleaved_read_maps:
  assumes "\<And>n w. besides_routes (act n w) = besides_routes w" and "hooked_call act enter m w = (r, w')"
    and "\<And>v r v'. m v = (r, v') \<Longrightarrow> besides_routes v' = besides_routes v"
  shows "maps (fst w') = maps (fst w)" "deps (fst w') = deps (fst w)"
  using keepsD [OF interleaved_read(1) [where act = act and m = m, OF assms(1,3)] assms(2)]
    keepsD [OF interleaved_read(2) [where act = act and m = m, OF assms(1,3)] assms(2)] by simp_all



lemma interleaved_owner_references: "owner_references (fenced (interleaved act env)) scheme"
proof
  show "controller_ref (fenced (interleaved act env)) scheme p \<in> set (meta_owner_refs m') \<and>
      (meta_owner_refs m = [] \<longrightarrow> meta_owner_refs m' = [controller_ref (fenced (interleaved act env)) scheme p]) \<and>
      m' = m\<lparr>meta_owner_refs := meta_owner_refs m'\<rparr>"
    if "env_set_controller_reference (fenced (interleaved act env)) p m = Ok m'" for p m m'
    using controller_reference_set [of p m m'] that by (simp add: controller_ref_def)
qed

lemma interleaved_objects:
  assumes "\<And>n w. besides_routes (act n w) = besides_routes w" and "r \<noteq> RVirtualService"
  shows "objs (act n w) r k = objs w r k"
  using assms(2) arg_cong [OF interleaved_views(1) [where act = act, OF assms(1)], of "\<lambda>m. m r k"] by simp

lemma interleaved_listing:
  assumes "env_list_unstructured (fenced (interleaved act env)) (resource_list_gvk r) opts w = (Ok us, w')"
  shows "r \<noteq> RVirtualService" "env_list_unstructured env (resource_list_gvk r) opts
      (act (snd w) (fst w)) = (Ok us, fst w')"
  using assms hooked_callD [of act _ _ w "Ok us" w'] by (auto simp: fenced_def split: if_splits)

lemma interleaved_listing_sound:
  assumes "\<And>n w. besides_routes (act n w) = besides_routes w"
    and "env_list_unstructured (fenced (interleaved act env)) (resource_list_gvk r) (in_namespace n) w =
        (Ok us, w')"
    and "u \<in> set us"
  shows "us_gvk u = item_gvk (resource_list_gvk r) \<and> (n = '''' \<or> meta_namespace (us_meta u) = n) \<and>
    (\<exists>x. routeless objs (fst w) r (meta_key (us_meta u)) = Some x \<and>
        represents (fenced (interleaved act env)) u x)"
proof -
  note now = interleaved_listing [OF assms(2)]
  from list_sound [OF now(2) assms(3)] obtain x where
    u: "us_gvk u = item_gvk (resource_list_gvk r)" "n = '''' \<or> meta_namespace (us_meta u) = n"
    and x: "objs (act (snd w) (fst w)) r (meta_key (us_meta u)) = Some x" "represents env u x" by blast
  have "represents (fenced (interleaved act env)) u x" using x(2) view_resource [OF x(1)] now(1)
    by (cases x) simp_all
  with u x(1) now(1) interleaved_objects [where act = act, OF assms(1)] show ?thesis by simp
qed

lemma interleaved_list_keeps:
  assumes "\<And>n w. besides_routes (act n w) = besides_routes w"
    and "env_list_unstructured (fenced (interleaved act env)) g opts w = (res, w')"
  shows "routeless objs (fst w') = routeless objs (fst w)"
proof (cases "g = resource_list_gvk RVirtualService")
  case False
  with assms(2) have "hooked_call act (\<lambda>_ _. Suc) (env_list_unstructured env g opts) w = (res, w')"
    by (simp add: fenced_def)
  from list_keeps [OF hooked_callD [OF this]] have
      "routeless objs (fst w') = routeless objs (act (snd w) (fst w))"
    by (simp add: routeless_def fun_eq_iff)
  then show ?thesis by (simp add: interleaved_views(1) [where act = act, OF assms(1)])
qed (use assms(2) in \<open>simp add: fenced_def\<close>)

text \<open>What a write leaves of the view, from what it leaves of the objects.\<close>

lemma routeless_write:
  assumes "\<And>n w. besides_routes (act n w) = besides_routes w" and "r \<noteq> RVirtualService"
  shows "objs w' = set_object (objs (act n w)) r k v \<Longrightarrow> routeless objs w' = set_object (routeless objs w) r k v"
    and "objs w' = objs (act n w) \<Longrightarrow> routeless objs w' = routeless objs w"
proof -
  note same = interleaved_objects [where act = act, OF assms(1)]
  show "routeless objs w' = set_object (routeless objs w) r k v"
      if "objs w' = set_object (objs (act n w)) r k v"
    using assms(2) same by (auto simp: routeless_def that fun_eq_iff)
  show "routeless objs w' = routeless objs w" if "objs w' = objs (act n w)"
    using same by (auto simp: routeless_def that fun_eq_iff)
qed

lemma interleaved_delete_effect:
  assumes "\<And>n w. besides_routes (act n w) = besides_routes w"
    and "env_delete_unstructured (fenced (interleaved act env)) u w = (res, w')"
        "us_gvk u = item_gvk (resource_list_gvk r)"
  shows "routeless objs (fst w') = set_object (routeless objs (fst w)) r (meta_key (us_meta u)) None \<or>
    (\<not> is_ok res \<and> routeless objs (fst w') = routeless objs (fst w))"
proof (cases "us_gvk u = item_gvk (resource_list_gvk RVirtualService)")
  case False
  with assms(2) have run: "hooked_call act (\<lambda>_ _. Suc) (env_delete_unstructured env u) w = (res, w')"
    by (simp add: fenced_def)
  have r: "r \<noteq> RVirtualService" using False assms(3) by blast
  from delete_effect [OF hooked_callD [OF run] assms(3)] routeless_write [where act = act, OF assms(1) r]
  show ?thesis by blast
qed (use assms(2) in \<open>auto simp: fenced_def is_ok_def\<close>)

lemma interleaved_write_effect:
  assumes "\<And>n w. besides_routes (act n w) = besides_routes w"
    and "env_create_or_update (fenced (interleaved act env)) x f w = (res, w')"
  shows "(\<exists>y s. f (case routeless objs (fst w) (resource_of x) (meta_key (obj_meta x)) of Some e \<Rightarrow>
      e | None \<Rightarrow> x) = Ok y \<and>
      meta_key (obj_meta y) = meta_key (obj_meta x) \<and> persisted y s \<and>
      routeless objs (fst w') = set_object (routeless objs (fst w)) (resource_of x)
          (meta_key (obj_meta x)) (Some s)) \<or>
    (\<not> is_ok res \<and> routeless objs (fst w') = routeless objs (fst w))"
proof (cases "resource_of x = RVirtualService")
  case False
  with assms(2) have "hooked_call act (\<lambda>_ _. Suc) (env_create_or_update env x f) w = (res, w')"
    by (simp add: fenced_def)
  from create_or_update_effect [OF hooked_callD [OF this]] show ?thesis
  proof (elim disjE exE conjE)
    fix y s
    assume y: "f (case objs (act (snd w) (fst w)) (resource_of x) (meta_key (obj_meta x)) of Some e \<Rightarrow>
        e | None \<Rightarrow> x) = Ok y"
      "meta_key (obj_meta y) = meta_key (obj_meta x)" "persisted y s"
      and eq: "objs (fst w') = set_object (objs (act (snd w) (fst w))) (resource_of x)
          (meta_key (obj_meta x)) (Some s)"
    from y False routeless_write(1) [where act = act, OF assms(1) False eq] show ?thesis
      by (auto simp: interleaved_objects [where act = act, OF assms(1) False])
  qed (simp add: routeless_write(2) [where act = act, OF assms(1) False])
qed (use assms(2) in \<open>auto simp: fenced_def is_ok_def\<close>)

lemma interleaved_object_cluster:
  assumes "\<And>n w. besides_routes (act n w) = besides_routes w"
  shows "object_cluster (fenced (interleaved act env)) scheme (\<lambda>x. routeless objs (fst x))"
proof (intro object_cluster.intro interleaved_owner_references object_cluster_axioms.intro)
  let ?E = "fenced (interleaved act env)"
  note now = interleaved_listing and moved = interleaved_objects [where act = act, OF assms]
  show "resource_of x = r" if "routeless objs (fst w) r k = Some x" for w r k x
    using that view_resource by (auto simp: routeless_def split: if_splits)
  show "meta_key (obj_meta x) = k" if "routeless objs (fst w) r k = Some x" for w r k x
    using that view_key by (auto simp: routeless_def split: if_splits)
  show "clear_type c = clear_type x" if "env_convert ?E x e = Ok c" "resource_of e = resource_of x" for x e c
    using convert_copies that by simp
  show "\<exists>u \<in> set us. meta_key (us_meta u) = k"
    if "env_list_unstructured ?E (resource_list_gvk r) (in_namespace n) w = (Ok us, w')"
      "routeless objs (fst w) r k = Some x" "n = '''' \<or> nn_namespace k = n" for r n w us w' k x
    using list_complete [OF now(2) [OF that(1)] _ that(3)] now(1) [OF that(1)] that(2) moved by simp
  show "distinct (map (\<lambda>u. meta_key (us_meta u)) us)"
    if "env_list_unstructured ?E (resource_list_gvk r) (in_namespace n) w = (Ok us, w')" for r n w us w'
    by (rule list_distinct [OF now(2) [OF that]])
qed (rule interleaved_list_keeps [where act = act, OF assms] interleaved_listing_sound [where act = act,
    OF assms]
    interleaved_delete_effect [where act = act, OF assms] interleaved_write_effect [where act = act, OF
        assms]; assumption)+

lemma interleaved_mapping_cluster:
  assumes "\<And>n w. besides_routes (act n w) = besides_routes w"
  shows "mapping_cluster (fenced (interleaved act env)) scheme (\<lambda>x. maps (fst x))"
proof (intro mapping_cluster.intro interleaved_owner_references mapping_cluster_axioms.intro)
  let ?E = "fenced (interleaved act env)"
  note act = interleaved_views [where act = act, OF assms]

  show "meta_key (mp_meta m) = k" if "maps (fst w) k = Some m" for w k m using that by (rule maps_key)
  show "maps (fst w') = maps (fst w)" if "api_get (env_fork_managers ?E) k w = (mres, w')" for k w mres w'
    by (rule interleaved_read_maps(1) [OF assms that [simplified] read_leaves_besides_routes(3)])
  show "meta_key (fm_meta fm) = k" if "api_get (env_fork_managers ?E) k w = (Ok fm, w')" for k w fm w'
    using manager_slug [OF hooked_callD [OF that [simplified]]] .
  show "maps (fst w') = maps (fst w)" if "api_list (env_forks ?E) opts w = (fres, w')" for opts w fres w'
    by (rule interleaved_read_maps(1) [OF assms that [simplified] read_leaves_besides_routes(2)])
  show "maps (fst w') = maps (fst w)" if "api_list (env_mappings ?E) opts w = (lres, w')" for opts w lres w'
    by (rule interleaved_read_maps(1) [OF assms that [simplified] read_leaves_besides_routes(10)])
  show "set ms = {m. \<exists>k. maps (fst w) k = Some m \<and> sel (meta_labels (mp_meta m))}"
    if "api_list (env_mappings ?E) \<lparr>lo_selector = Some sel, lo_namespace = ''''\<rparr> w = (Ok ms, w')"
        for sel w ms w'
    using mappings_listed [OF hooked_callD [OF that [simplified]]] by (simp add: act(2))
  show "env_selector_add ?E (env_labels_everything ?E) req ls \<longleftrightarrow> fmlookup ls key = Some val"
    if "env_new_requirement ?E key ''='' [val] = Ok req" for key val req ls
    using equals_requirement that by simp
  show "(\<exists>y s. f (case maps (fst w) (meta_key (mp_meta m)) of Some e \<Rightarrow> e | None \<Rightarrow> m) = Ok y \<and>
        mp_spec s = mp_spec y \<and>
        mp_meta s = (mp_meta y)\<lparr>meta_resource_version := meta_resource_version (mp_meta s)\<rparr> \<and>
        maps (fst w') = (maps (fst w))(meta_key (mp_meta m) \<mapsto> s)) \<or>
      (\<not> is_ok res \<and> maps (fst w') = maps (fst w))"
    if "api_create_or_update (env_mappings ?E) m f w = (res, w')" for m f w res w'
    using mapping_written_back [OF hooked_callD [OF that [simplified]]] by (simp add: act(2))
  show "maps (fst w') = (maps (fst w))(meta_key (mp_meta m) := None) \<or>
      (\<not> is_ok res \<and> maps (fst w') = maps (fst w))"
    if "api_delete (env_mappings ?E) m w = (res, w')" for m w res w'
    using mapping_deleted [OF hooked_callD [OF that [simplified]]] by (simp add: act(2))
qed

text \<open>A write keeps of the interleaved world what it keeps of the world.\<close>

lemma interleaved_write:
  assumes "\<And>n w. view (act n w) = view w" and "keeps view m"
  shows "keeps (\<lambda>x. view (fst x)) (hooked_call act enter m)"
  by (rule hooked_keeps [where act = act, OF assms(1)]) (rule keepsD [OF assms(2)])

lemma interleaved_steady:
  assumes "\<And>n w. besides_routes (act n w) = besides_routes w" and "keeps (\<lambda>w. (deps w, mgrs w)) m"
  shows "keeps (\<lambda>x. (deps (fst x), mgrs (fst x))) (hooked_call act enter m)"
  by (rule interleaved_write [where act = act and view = "\<lambda>w. (deps w, mgrs w)", OF _ assms(2)])
    (simp add: interleaved_views [where act = act, OF assms(1)])

lemma fenced_keeps:
  "keeps view (env_list_unstructured env' g opts) \<Longrightarrow> keeps view (env_list_unstructured (fenced env') g opts)"
  "keeps view (env_delete_unstructured env' u) \<Longrightarrow> keeps view (env_delete_unstructured (fenced env') u)"
  "keeps view (env_create_or_update env' x f) \<Longrightarrow> keeps view (env_create_or_update (fenced env') x f)"
  by (auto simp: fenced_def intro: keeps_lift)

lemma routeless_keeps: "keeps (\<lambda>w. (objs w, h w)) m \<Longrightarrow> keeps (\<lambda>w. (routeless objs w, h w)) m"
  by (auto simp: keeps_def routeless_def fun_eq_iff)

lemma interleaved_reads:
  fixes act :: "nat \<Rightarrow> 'w \<Rightarrow> 'w"
  assumes "\<And>n w. besides_routes (act n w) = besides_routes w"
  defines "E \<equiv> fenced (interleaved act env)"
    and "V \<equiv> \<lambda>x :: 'w \<times> nat. (routeless objs (fst x), maps (fst x), frks (fst x))"
  shows "keeps V (api_get (env_forks E) k)" "keeps V (api_list (env_forks E) opts)"
    "keeps V (api_get (env_fork_managers E) k)" "keeps V (api_list (env_fork_managers E) opts)"
    "keeps V (api_get (env_services E) k)" "keeps V (api_list (env_services E) opts)"
    "keeps V (api_get (env_vsconfigs E) k)" "keeps V (api_list (env_vsconfigs E) opts)"
    "keeps V (api_list (env_deployments E) opts)" "keeps V (api_list (env_mappings E) opts)"
  unfolding E_def V_def fenced_calls interleaved_calls hooked_api_calls
  by (rule interleaved_read(1) [where act = act, OF assms(1)], erule read_leaves_besides_routes)+

lemma interleaved_writes:
  fixes act :: "nat \<Rightarrow> 'w \<Rightarrow> 'w"
  assumes "\<And>n w. besides_routes (act n w) = besides_routes w"
  defines "E \<equiv> fenced (interleaved act env)"
  shows "keeps (\<lambda>x. (maps (fst x), frks (fst x))) (env_list_unstructured E g opts)"
    "keeps (\<lambda>x. (maps (fst x), frks (fst x))) (env_delete_unstructured E u)"
    "keeps (\<lambda>x. (maps (fst x), frks (fst x))) (env_create_or_update E x f)"
    "keeps (\<lambda>x. (routeless objs (fst x), frks (fst x))) (api_create_or_update (env_mappings E) mp mf)"
    "keeps (\<lambda>x. (routeless objs (fst x), frks (fst x))) (api_delete (env_mappings E) mp)"
    "keeps (\<lambda>x. (routeless objs (fst x), maps (fst x))) (api_delete (env_forks E) fork)"
proof -
  note act = interleaved_views [where act = act, OF assms(1)]
  note part = interleaved_write [where act = act and view = "\<lambda>w. (maps w, frks w)", simplified act, OF refl]
    interleaved_write [where act = act and view = "\<lambda>w. (routeless objs w, frks w)", simplified act, OF refl]
    interleaved_write [where act = act and view = "\<lambda>w. (routeless objs w, maps w)", simplified act, OF refl]
  show "keeps (\<lambda>x. (maps (fst x), frks (fst x))) (env_list_unstructured E g opts)"
    "keeps (\<lambda>x. (maps (fst x), frks (fst x))) (env_delete_unstructured E u)"
    "keeps (\<lambda>x. (maps (fst x), frks (fst x))) (env_create_or_update E x f)"
    unfolding E_def by (rule fenced_keeps, unfold interleaved_calls, rule part, rule object_calls)+
  show "keeps (\<lambda>x. (routeless objs (fst x), frks (fst x))) (api_create_or_update (env_mappings E) mp mf)"
    "keeps (\<lambda>x. (routeless objs (fst x), frks (fst x))) (api_delete (env_mappings E) mp)"
    "keeps (\<lambda>x. (routeless objs (fst x), maps (fst x))) (api_delete (env_forks E) fork)"
    unfolding E_def fenced_calls interleaved_calls hooked_api_calls
    by (rule part, rule routeless_keeps, rule mapping_calls fork_delete_keeps)+
qed

lemma interleaved_fork_cluster:
  assumes "\<And>n w. besides_routes (act n w) = besides_routes w"
  shows "fork_cluster (fenced (interleaved act env)) scheme (\<lambda>x. routeless objs (fst x)) (\<lambda>x. maps (fst x))
    (\<lambda>x. frks (fst x))"
proof (intro fork_cluster.intro interleaved_object_cluster [where act = act, OF assms]
    interleaved_mapping_cluster [where act = act, OF assms] fork_cluster_axioms.intro
    interleaved_reads [where act = act, OF assms] interleaved_writes [where act = act, OF assms])
  let ?E = "fenced (interleaved act env)"
  note act = interleaved_views [where act = act, OF assms]
  show "frks (fst w) k = Some fork" if "api_get (env_forks ?E) k w = (Ok fork, w')" for k w fork w'
    using fork_get [OF hooked_callD [OF that [simplified]]] by (simp add: act)
  show "frks (fst w) k = None" if "api_get (env_forks ?E) k w = (Err NotFound, w')" for k w w'
    using fork_missing [OF hooked_callD [OF that [simplified]]] by (simp add: act)
  show "fork_type fork = scheme GoFork \<and> meta_key (fork_meta fork) = k" if "frks (fst w) k = Some fork"
      for w k fork
    by (rule fork_typed [OF that])
  show "svc_type svc = scheme GoService \<and> meta_key (svc_meta svc) = k"
    if "api_get (env_services ?E) k w = (Ok svc, w')" for k w svc w'
    by (rule service_typed [OF hooked_callD [OF that [simplified]]])
  show "frks (fst w') = (frks (fst w))(meta_key (fork_meta fork) := None) \<or>
      (\<not> is_ok res \<and> frks (fst w') = frks (fst w))" if "api_delete (env_forks ?E) fork w = (res, w')"
          for fork w res w'
    using fork_deleted [OF hooked_callD [OF that [simplified]]] by (simp add: act)
qed

lemma interleaved_steady_reads:
  assumes "\<And>n w. besides_routes (act n w) = besides_routes w"
  shows "BuilderFacts.steady_reads (fenced (interleaved act env)) (\<lambda>x. deps (fst x))"
proof
  let ?E = "fenced (interleaved act env)"
  note act = interleaved_views [where act = act, OF assms]
  show "deps (fst w') = deps (fst w) \<and> (\<forall>ds. res = Ok ds \<longrightarrow> ds = deps (fst w) opts)"
    if "api_list (env_deployments ?E) opts w = (res, w')" for opts w res w'
    using steady.deployments_listed [OF hooked_callD [OF that [simplified]]] by (simp add: act)
  show "distinct (map (\<lambda>d. meta_name (dep_meta d)) (deps (fst w) opts))" if "lo_namespace opts \<noteq> ''''"
      for opts w
    by (rule steady.deployments_distinct [OF that])
  show "deps (fst w') = deps (fst w)" if "api_get (env_fork_managers ?E) k w = (fres, w')" for k w fres w'
    by (rule interleaved_read_maps(2) [OF assms that [simplified] read_leaves_besides_routes(3)])
  show "deps (fst w') = deps (fst w)" if "api_list (env_services ?E) opts w = (sres, w')" for opts w sres w'
    by (rule interleaved_read_maps(2) [OF assms that [simplified] read_leaves_besides_routes(6)])
  show "distinct (map (\<lambda>s. meta_name (svc_meta s)) ss)"
    if "api_list (env_services ?E) opts w = (Ok ss, w')" "lo_namespace opts \<noteq> ''''" for opts w ss w'
    by (rule steady.services_distinct [OF hooked_callD [OF that(1) [simplified]] that(2)])
qed

lemma interleaved_steady_calls:
  fixes act :: "nat \<Rightarrow> 'w \<Rightarrow> 'w"
  assumes "\<And>n w. besides_routes (act n w) = besides_routes w"
  defines "E \<equiv> fenced (interleaved act env)" and "S \<equiv> \<lambda>x :: 'w \<times> nat. (deps (fst x), mgrs (fst x))"
  shows "keeps S (api_get (env_forks E) k)" "keeps S (api_list (env_forks E) opts)"
    "keeps S (api_get (env_fork_managers E) k)" "keeps S (api_get (env_services E) k)"
    "keeps S (api_list (env_services E) opts)" "keeps S (api_list (env_vsconfigs E) opts)"
    "keeps S (api_list (env_deployments E) opts)" "keeps S (api_list (env_mappings E) opts)"
    "keeps S (env_list_unstructured E g opts)" "keeps S (env_delete_unstructured E u)"
    "keeps S (env_create_or_update E x f)" "keeps S (api_create_or_update (env_mappings E) mp mf)"
    "keeps S (api_delete (env_mappings E) mp)" "keeps S (api_get (env_vsconfigs E) k)"
    "keeps S (api_list (env_fork_managers E) opts)" "keeps S (api_delete (env_forks E) frk)"
proof -
  note steady = interleaved_steady [where act = act, OF assms(1)]
  show "keeps S (env_list_unstructured E g opts)" "keeps S (env_delete_unstructured E u)"
    "keeps S (env_create_or_update E x f)"
    unfolding E_def S_def
      by (rule fenced_keeps, unfold interleaved_calls, rule steady, rule steady_reads steady_writes)+
  show "keeps S (api_get (env_forks E) k)" "keeps S (api_list (env_forks E) opts)"
    "keeps S (api_get (env_fork_managers E) k)" "keeps S (api_get (env_services E) k)"
    "keeps S (api_list (env_services E) opts)" "keeps S (api_list (env_vsconfigs E) opts)"
    "keeps S (api_list (env_deployments E) opts)" "keeps S (api_list (env_mappings E) opts)"
    "keeps S (api_create_or_update (env_mappings E) mp mf)" "keeps S (api_delete (env_mappings E) mp)"
    "keeps S (api_get (env_vsconfigs E) k)" "keeps S (api_list (env_fork_managers E) opts)"
    "keeps S (api_delete (env_forks E) frk)"
    unfolding E_def S_def fenced_calls interleaved_calls hooked_api_calls
    by (rule steady, rule steady_reads steady_writes steady_fork_calls)+
qed

lemma interleaved_cluster:
  assumes "\<And>n w. besides_routes (act n w) = besides_routes w"
  shows "routed_cluster (fenced (interleaved act env)) scheme (\<lambda>x. routeless objs (fst x)) (\<lambda>x. maps (fst x))
    (\<lambda>x. frks (fst x)) (\<lambda>x. deps (fst x)) (\<lambda>x. mgrs (fst x))"
proof (intro routed_cluster.intro interleaved_fork_cluster [where act = act, OF assms]
    interleaved_steady_reads [where act = act, OF assms] routed_cluster_axioms.intro
    interleaved_steady_calls [where act = act, OF assms])
  let ?E = "fenced (interleaved act env)"
  note act = interleaved_views [where act = act, OF assms]
  note moved = interleaved_objects [where act = act, OF assms]
  show "mgrs (fst w) k = Some fm" if "api_get (env_fork_managers ?E) k w = (Ok fm, w')" for k w fm w'
    using manager_found [OF hooked_callD [OF that [simplified]]] by (simp add: act)
  show "\<exists>t. routeless objs (fst w) RService k = Some (OService t) \<and> svc_meta s = svc_meta t \<and>
      svc_spec s = svc_spec t"
    if "api_get (env_services ?E) k w = (Ok s, w')" for k w s w'
    using service_found [OF hooked_callD [OF that [simplified]]] by (simp add: moved)
  show "(\<lambda>s. (svc_meta s, svc_spec s)) ` set ss = {(svc_meta t, svc_spec t) |t. \<exists>k.
      routeless objs (fst w) RService k = Some (OService t) \<and> admits opts (svc_meta t)}"
    if "api_list (env_services ?E) opts w = (Ok ss, w')" for opts w ss w'
    using services_listed [OF hooked_callD [OF that [simplified]]] by (simp add: moved)
  show "\<exists>t. routeless objs (fst w) RVSConfig k = Some (OVSConfig t) \<and> vsc_meta v = vsc_meta t \<and>
      vsc_spec v = vsc_spec t"
    if "api_get (env_vsconfigs ?E) k w = (Ok v, w')" for k w v w'
    using vsconfig_found [OF hooked_callD [OF that [simplified]]] by (simp add: moved)
  show "routeless objs (fst w) RVSConfig k = None"
      if "api_get (env_vsconfigs ?E) k w = (Err NotFound, w')" for k w w'
    using vsconfig_missing [OF hooked_callD [OF that [simplified]]] by (simp add: moved)
  show "(\<lambda>v. (vsc_meta v, vsc_spec v)) ` set vs = {(vsc_meta t, vsc_spec t) |t. \<exists>k.
      routeless objs (fst w) RVSConfig k = Some (OVSConfig t) \<and> admits opts (vsc_meta t)}"
    if "api_list (env_vsconfigs ?E) opts w = (Ok vs, w')" for opts w vs w'
    using vsconfigs_listed [OF hooked_callD [OF that [simplified]]] by (simp add: moved)
qed

end

section \<open>The environments of forks under concurrency\<close>

text \<open>What is said of forks does not mention VirtualServices or the history of calls.\<close>

lemma interleaved_owned:
  "owned_by_parent (fenced (interleaved act env)) m p = owned_by_parent env m p"
  "r \<in> set fork_resources \<Longrightarrow> owned_at (fenced (interleaved act env)) p (routeless objs w r) k =
    owned_at env p (objs w r) k"
  by (auto simp: owned_by_parent_def owned_at_def fork_resources_def routeless_def)

lemma interleaved_targets:
  "selects_service (fenced (interleaved act env)) f ls = selects_service env f ls"
  "target_services (fenced (interleaved act env)) (\<lambda>x. routeless objs (fst x)) f x =
      target_services env objs f (fst x)"
  "candidate_deployments (fenced (interleaved act env)) (\<lambda>x. deps (fst x)) f x =
      candidate_deployments env deps f (fst x)"
  "copied_deployments (fenced (interleaved act env)) (\<lambda>x. routeless objs (fst x)) (\<lambda>x. deps (fst x)) f x =
    copied_deployments env objs deps f (fst x)"
proof -
  show "selects_service (fenced (interleaved act env)) f ls = selects_service env f ls"
    by (simp add: selects_service_def cong: option.case_cong)
  show targets: "target_services (fenced (interleaved act env)) (\<lambda>x. routeless objs (fst x)) f x =
      target_services env objs f (fst x)"
    by (simp add: target_services_def cong: option.case_cong result.case_cong)
  show candidates: "candidate_deployments (fenced (interleaved act env)) (\<lambda>x. deps (fst x)) f x =
      candidate_deployments env deps f (fst x)"
    by (simp add: candidate_deployments_def cong: option.case_cong result.case_cong)
  show "copied_deployments (fenced (interleaved act env)) (\<lambda>x. routeless objs (fst x)) (\<lambda>x. deps (fst x)) f x =
      copied_deployments env objs deps f (fst x)"
    by (simp add: copied_deployments_def targets candidates routable_from_def)
qed

lemma interleaved_keys:
  "fork_keys (fenced (interleaved act env)) (\<lambda>x. routeless objs (fst x)) (\<lambda>x. deps (fst x)) f x r =
    fork_keys env objs deps f (fst x) r"
  by (cases r) (simp_all add: interleaved_targets)

lemma interleaved_apart:
  assumes "forks_apart env objs deps frks ns w"
  shows "forks_apart (fenced (interleaved act env)) (\<lambda>x. routeless objs (fst x)) (\<lambda>x. deps (fst x))
    (\<lambda>x. frks (fst x)) ns (w, h)"
proof -
  have "program_named (fenced (interleaved act env)) (\<lambda>x. routeless objs (fst x)) f (w, h) =
      program_named env objs f w" for f
    by (simp add: program_named_def interleaved_owned routeless_def)
  moreover have "names_fit (fenced (interleaved act env)) (\<lambda>x. routeless objs (fst x))
      (\<lambda>x. deps (fst x)) f (w, h) =
      names_fit env objs deps f w" for f
    by (simp add: names_fit_def interleaved_targets)
  moreover have "copies_apart (fenced (interleaved act env)) (\<lambda>x. routeless objs (fst x)) f f' (w, h) =
      copies_apart env objs f f' w" for f f'
    by (simp add: copies_apart_def interleaved_targets interleaved_owned)
  moreover have "owners_apart (fenced (interleaved act env)) (\<lambda>x. routeless objs (fst x)) f f' (w, h) =
      owners_apart env objs f f' w" for f f'
    by (simp add: owners_apart_def interleaved_owned)
  moreover have "keys_apart (fenced (interleaved act env)) (\<lambda>x. routeless objs (fst x))
      (\<lambda>x. deps (fst x)) f f' (w, h) =
      keys_apart env objs deps f f' w" for f f'
    by (simp add: keys_apart_def interleaved_keys)
  ultimately show ?thesis using assms by (simp add: forks_apart_def)
qed

lemma interleaved_realised:
  "fork_realised (fenced (interleaved act env)) (\<lambda>x. routeless objs (fst x)) (\<lambda>x. deps (fst x))
      (\<lambda>x. mgrs (fst x)) f x y =
    fork_realised env objs deps mgrs f (fst x) (fst y)"
proof -
  have service: "copy_of_service (fenced (interleaved act env)) f t c = copy_of_service env f t c" for t c
    by (simp add: copy_of_service_def interleaved_owned)
  have deployment: "copy_of_deployment (fenced (interleaved act env)) f ts d c = copy_of_deployment env
      f ts d c" for ts d c
    by (simp add: copy_of_deployment_def interleaved_owned service routable_from_def)
  show ?thesis
    by (simp add: fork_realised_def Let_def interleaved_targets interleaved_keys service deployment
        interleaved_owned
        cong: ball_cong_simp)
qed

text \<open>Handling fork requests behind the fence is handling them.\<close>

lemma handle_all_fenced:
  assumes "listings_typed env" "range_order ord" and "\<forall>r \<in> set rs. \<exists>t q. r = ForkRequest t q"
  shows "handle_all (fenced env) ord nn_ord rs w = handle_all env ord nn_ord rs w"
  using assms(3)
proof (induction rs arbitrary: w)
  case (Cons r rs)
  then obtain t q where "r = ForkRequest t q" by auto
  with Cons show ?case by (simp add: reconcile_fork_fenced [OF assms(1,2)])
qed simp

context routed_cluster
begin

text \<open>
  The fork reconciler handles its requests one after the other; between any two of its calls, the
  reconcilers of VSConfigs and Services make theirs.
\<close>

lemma interleaved_schedule_realises:
  assumes "\<And>n w. (foreign_step env)\<^sup>*\<^sup>* w (act n w)"
    and "range_order ord" "range_order nn_ord" and "frks w q = Some fork" "nn_namespace q \<noteq> ''''"
    and "forks_apart env objs deps frks (nn_namespace q) w"
    and "\<forall>r \<in> set (before @ ForkRequest now q # after). (\<exists>t q'. r = ForkRequest t q') \<and>
        considerate env fork q r"
    and "\<forall>t. ForkRequest t q \<notin> set after"
    and "is_ok (fst (reconcile_fork (interleaved act env) ord nn_ord now q
      (handle_all (interleaved act env) ord nn_ord before (w, h))))"
  shows "fork_realised env objs deps mgrs fork w
    (fst (handle_all (interleaved act env) ord nn_ord (before @ ForkRequest now q # after) (w, h)))"
proof -
  let ?E = "fenced (interleaved act env)"
  have "\<And>n w. besides_routes (act n w) = besides_routes w" using foreign_steps_besides_routes [OF assms(1)] .
  note cluster = interleaved_cluster [where act = act, OF this]
  have fenced: "handle_all ?E ord nn_ord rs x = handle_all (interleaved act env) ord nn_ord rs x"
    if "set rs \<subseteq> set (before @ ForkRequest now q # after)" for rs x
    by (rule handle_all_fenced [OF interleaved_typed assms(2)]) (use assms(7) that in blast)
  have considerate: "\<forall>r \<in> set (before @ ForkRequest now q # after). considerate ?E fork q r"
  proof
    fix r
    assume "r \<in> set (before @ ForkRequest now q # after)"
    with assms(7) have "considerate env fork q r" by blast
    then show "considerate ?E fork q r" by (cases r) (simp_all cong: option.case_cong)
  qed
  have ok: "is_ok (fst (reconcile_fork ?E ord nn_ord now q (handle_all ?E ord nn_ord before (w, h))))"
  proof -
    have "set before \<subseteq> set (before @ ForkRequest now q # after)" by auto
    from assms(9) fenced [OF this] show ?thesis
      by (simp add: reconcile_fork_fenced [OF interleaved_typed assms(2)])
  qed
  from routed_cluster.schedule_realises [OF cluster assms(2,3), of "(w, h)" q fork before now after]
    assms(4,5,8) interleaved_apart [OF assms(6)] considerate ok
  show ?thesis by (simp add: interleaved_realised fenced [OF subset_refl] del: append.simps set_append
      handle_all_append)
qed

end

section \<open>A reconcile in one go\<close>

text \<open>When nobody acts between the calls, a hooked run is the run.\<close>

definition same_run :: "('w \<times> 'h, 'a) eff \<Rightarrow> ('w, 'a) eff \<Rightarrow> bool" where
  "same_run m' m \<longleftrightarrow> (\<forall>w h. \<exists>h'. m' (w, h) = (fst (m w), (snd (m w), h')))"

lemma same_run_call: "same_run (hooked_call (\<lambda>_ w. w) enter m) m"
  by (simp add: same_run_def hooked_call_def split: prod.split)

lemma same_run_lift: "same_run (lift_result r) (lift_result r)"
  by (simp add: same_run_def)

lemma same_run_bind:
  assumes "same_run m' m" and "\<And>x. same_run (f' x) (f x)"
  shows "same_run (bind_eff m' f') (bind_eff m f)"
  unfolding same_run_def
proof (intro allI)
  fix w h
  from assms(1) obtain h' where m: "m' (w, h) = (fst (m w), (snd (m w), h'))" unfolding same_run_def by blast
  obtain r w1 where r: "m w = (r, w1)" by fastforce
  show "\<exists>h'. bind_eff m' f' (w, h) = (fst (bind_eff m f w), (snd (bind_eff m f w), h'))"
    using m r assms(2) by (cases r) (auto simp: bind_eff_def same_run_def)
qed

lemma same_run_for_each: "(\<And>x. same_run (f' x) (f x)) \<Longrightarrow> same_run (for_each xs f') (for_each xs f)"
  by (induction xs) (auto intro: same_run_bind same_run_lift)

lemma same_run_fold_eff: "(\<And>x s. same_run (f' x s) (f x s)) \<Longrightarrow> same_run (fold_eff f' xs s) (fold_eff f xs s)"
  by (induction xs arbitrary: s) (auto intro: same_run_bind same_run_lift)

lemma refresh_same_run: "same_run (refresh (stepped (\<lambda>_ w. w) env) parent lst) (refresh env parent lst)"
proof -
  let ?E = "stepped (\<lambda>_ w. w) env"
  have tools: "env_group_version_string ?E = env_group_version_string env" "env_convert ?E = env_convert env"
    "env_set_controller_reference ?E = env_set_controller_reference env"
    "env_fused_multiply_subtract ?E = env_fused_multiply_subtract env"
    by (simp_all add: stepped_def hooked_def)
  have owned: "owned_by_parent ?E m p = owned_by_parent env m p" for m p
    by (simp add: owned_by_parent_def tools)
  have mutate: "refresh_mutate ?E parent x = refresh_mutate env parent x" for x
    by (intro ext) (simp add: refresh_mutate_def tools)
  have "same_run (handle_existing_step ?E parent lst ids u ex) (handle_existing_step env parent lst ids
      u ex)" for ids u ex
    unfolding handle_existing_step_def owned
    by (auto intro!: same_run_bind same_run_lift same_run_call)
  then have "same_run (handle_existing ?E parent lst) (handle_existing env parent lst)"
    unfolding handle_existing_def stepped_calls
      by (intro same_run_bind same_run_lift same_run_call same_run_fold_eff)
  moreover have "same_run (refresh_item ?E parent lst ex x) (refresh_item env parent lst ex x)" for ex x
    unfolding refresh_item_def mutate tools stepped_calls by (intro same_run_bind same_run_lift same_run_call)
  ultimately show ?thesis unfolding refresh_def by (intro same_run_bind same_run_for_each)
qed

lemma virtual_service_update_same_run:
  "same_run (virtual_service_update (stepped (\<lambda>_ w. w) env) k) (virtual_service_update env k)"
proof -
  let ?E = "stepped (\<lambda>_ w. w) env"
  have from_unstructured: "env_virtual_service_from_unstructured ?E = env_virtual_service_from_unstructured env"
    by (simp add: stepped_def hooked_def)
  have "virtual_service_identity ?E x = virtual_service_identity env x" for x
    by (cases "(env, x)" rule: virtual_service_identity.cases) (simp_all add: from_unstructured)
  then have "virtual_service_identity ?E = virtual_service_identity env" by blast
  then have "build_virtual_service ?E = build_virtual_service env"
    by (intro ext) (simp add: build_virtual_service_def)
  then have lists: "generate_vs_lists ?E = generate_vs_lists env"
    by (simp add: fun_eq_iff generate_vs_lists_def)
  show ?thesis
    unfolding virtual_service_update_def build_vs_lister_def lists stepped_calls Let_def
    by (intro same_run_bind same_run_lift same_run_call same_run_for_each refresh_same_run)
qed

lemma vsconfig_same_run: "same_run (reconcile_vsconfig (stepped (\<lambda>_ w. w) env) q) (reconcile_vsconfig env q)"
proof -
  let ?E = "stepped (\<lambda>_ w. w) env"
  note run = virtual_service_update_same_run [of env, unfolded same_run_def, rule_format]
  have all: "same_run (virtual_service_update_all ?E opts) (virtual_service_update_all env opts)" for opts
    unfolding virtual_service_update_all_def update_all_def stepped_calls
    by (intro same_run_bind same_run_call same_run_for_each virtual_service_update_same_run)
  show ?thesis
    unfolding same_run_def
  proof (intro allI)
    fix w and h :: "('a \<times> 'a) list"
    obtain r w1 where get: "api_get (env_vsconfigs env) q w = (r, w1)" by fastforce
    with same_run_call obtain h1 where get': "api_get (env_vsconfigs ?E) q (w, h) = (r, (w1, h1))"
      unfolding stepped_calls same_run_def by (metis fst_conv snd_conv)
    show "\<exists>h'. reconcile_vsconfig ?E q (w, h) = (fst (reconcile_vsconfig env q w),
        (snd (reconcile_vsconfig env q w), h'))"
      using get get' all [unfolded same_run_def] run
      by (simp add: reconcile_vsconfig_def split: result.split error.split)
  qed
qed

text \<open>It is a sequence of steps, so for the reconciler of forks the other one may run in one go.\<close>

lemma linked_call_maintains:
  "maintains (\<lambda>x. (\<lambda>a b. (a, b) \<in> set (snd x))\<^sup>*\<^sup>* w0 (fst x))
     (hooked_call (\<lambda>_ w. w) (\<lambda>v w' steps. steps @ [(v, w')]) m)"
proof (rule maintainsI)
  fix x r y
  assume path: "(\<lambda>a b. (a, b) \<in> set (snd x))\<^sup>*\<^sup>* w0 (fst x)"
    and run: "hooked_call (\<lambda>_ w. w) (\<lambda>v w' steps. steps @ [(v, w')]) m x = (r, y)"
  then have y: "snd y = snd x @ [(fst x, fst y)]" by (auto simp: hooked_call_def Let_def split: prod.splits)
  then have "(\<lambda>a b. (a, b) \<in> set (snd y))\<^sup>*\<^sup>* w0 (fst x)"
    by (intro rtranclp_mono [THEN predicate2D, OF _ path]) auto
  with y show "(\<lambda>a b. (a, b) \<in> set (snd y))\<^sup>*\<^sup>* w0 (fst y)" by (simp add: rtranclp.rtrancl_into_rtrancl)
qed

context routed_cluster
begin

lemma vsconfig_in_one_go: "(foreign_step env)\<^sup>*\<^sup>* w (snd (reconcile_vsconfig env q w))"
proof -
  let ?E = "stepped (\<lambda>_ v. v) env"
  let ?I = "\<lambda>x. (\<lambda>a b. (a, b) \<in> set (snd x))\<^sup>*\<^sup>* w (fst x)"
  have listed: "us_gvk u = item_gvk (resource_list_gvk RVirtualService)"
    if "hooked_call prior enter (env_list_unstructured env (resource_list_gvk RVirtualService)
        (in_namespace n)) x =
      (Ok us, y)" "u \<in> set us" for prior enter n us u and x y :: "'w \<times> ('w \<times> 'w) list"
    using list_sound [OF hooked_callD [OF that(1)] that(2)] by simp
  have "route_calls_maintain ?I ?E"
    unfolding route_calls_maintain_def stepped_calls
    by (intro conjI allI impI ballI linked_call_maintains) (erule (1) listed)
  obtain res w' steps where run: "reconcile_vsconfig ?E q (w, []) = (res, (w', steps))" by (metis prod.collapse)
  from maintainsD [OF route_reconciles_maintain(1) [OF \<open>route_calls_maintain ?I ?E\<close>] run]
  have "(\<lambda>a b. (a, b) \<in> set steps)\<^sup>*\<^sup>* w w'" by simp
  then have "(foreign_step env)\<^sup>*\<^sup>* w w'"
    by (rule rtranclp_mono [THEN predicate2D, rotated]) (auto intro: vsconfig_step [OF run])
  moreover have "w' = snd (reconcile_vsconfig env q w)"
    using vsconfig_same_run [of env q] run unfolding same_run_def by (metis fst_conv snd_conv)
  ultimately show ?thesis by simp
qed

end

end
