(* ===== verification/EnvironmentProperties.thy ===== *)
theory EnvironmentProperties
  imports Fixtures Interleaving
begin

text \<open>
  Properties of the environment a Fork makes, on the whole path of the controller: from the
  reconcile of the Fork (\<^verbatim>\<open>controllers/fork_controller.go\<close>) over its objects to the reconcile of
  a VSConfig (\<^verbatim>\<open>controllers/vsconfig_controller.go\<close>) and the routes of the service.
\<close>

section \<open>The start world\<close>

lemma some_service_simps [simp]:
  "meta_name (svc_meta some_service) = ''some-service''"
  "meta_namespace (svc_meta some_service) = ''some-namespace''"
  "meta_owner_refs (svc_meta some_service) = []"
  by (simp_all add: some_service_def gen_service_def)

lemma some_copy_name [simp]: "service_name some_service some_fork = ''some-service-some-fork''"
  by (simp add: service_name_def sprintf_dash_def)

lemma start_world_service:
  "store_objs start_world RService k = Some (OService t) \<longleftrightarrow> k = some_service_key \<and> t = some_service"
  by (auto simp: start_world_def some_service_def gen_service_def object_key_def meta_key_def)

lemma start_world_others [simp]:
  "store_objs start_world RDeploymentCopy k = None" "store_objs start_world RVSConfig k = None"
  "store_objs start_world RVirtualService k = None"
  by (simp_all add: start_world_def object_key_def)

lemma start_world_fork: "store_frks start_world some_fork_key = Some some_fork"
  by (simp add: store_frks_def start_world_def world_def full_fork_def Let_def gen_fork_def meta_key_def)

lemma some_fork_selects [simp]: "selects_service store_env some_fork ls"
  by (simp add: selects_service_def everything_selector_def store_selector_def label_selector_holds_def)

lemma start_world_targets: "target_services store_env store_objs some_fork start_world = {some_service}"
  by (auto simp: target_services_iff start_world_service)

lemma start_world_names: "names_fit store_env store_objs store_deps some_fork start_world"
proof -
  have "(\<forall>d \<in> set (candidate_deployments store_env store_deps some_fork start_world). length
      (copy_name d some_fork) \<le> 63)"
    by code_simp
  then show ?thesis
    by (simp add: names_fit_def start_world_targets)
qed

lemma start_world_program_named: "program_named store_env store_objs some_fork start_world"
  by (auto simp: program_named_def start_world_service owned_by_parent_def)

lemma some_fork_live: "case spec_deadline (fork_spec some_fork) of None \<Rightarrow> True | Some d \<Rightarrow>
    \<not> env_time_before store_env d now"
  by simp

lemma start_world_reconciled:
  obtains w' where "reconcile_fork store_env name_order slug_order 0 some_fork_key start_world = (Ok (), w')"
proof -
  have "is_ok (fst (reconcile_fork store_env name_order slug_order 0 some_fork_key start_world))" by code_simp
  from returned [OF this] that show thesis by auto
qed

section \<open>The environment of a Fork\<close>

text \<open>
  C1. The successful reconcile of a fork that has not expired refines its specification: the fork
  owns exactly one DeploymentCopy for every deployment that it copies and one Service and one
  VSConfig for every target service; the copy of a service selects the pods of the copy of a
  deployment exactly when the service selects those of the deployment; the VSConfig routes the
  header of the manager to the copy; and the Mappings labelled with the manager's name are
  exactly the ones its upstreams and forks ask for. The names of copies have to fit 63 bytes, and
  what the fork owned before has to be named by the program.
\<close>

theorem fork_reconcile_realises_environment:
  assumes "routed_cluster env scheme objs maps frks deps mgrs" and "range_order ord" "range_order nn_ord"
    and "reconcile_fork env ord nn_ord now q w = (Ok u, w')"
    and "frks w q = Some fork"
    and "case spec_deadline (fork_spec fork) of None \<Rightarrow> True | Some d \<Rightarrow> \<not> env_time_before env d now"
    and "nn_namespace q \<noteq> ''''" "names_fit env objs deps fork w" "program_named env objs fork w"
  shows "fork_realised env objs deps mgrs fork w w' \<and>
    (\<exists>ns n w0 fm forks. spec_manager (fork_spec fork) = ns @ ''/'' @ n \<and>
       (objs w0, maps w0, frks w0) = (objs w, maps w, frks w) \<and> manager_inputs env (NN ns n) w0 fm forks \<and>
       (\<forall>k \<in> desired_slugs fm forks. desired_mapping env scheme ord (NN ns n) fm forks k (maps w' k)) \<and>
       (\<forall>k m. maps w' k = Some m \<longrightarrow> has_manager_label n m \<longrightarrow> k \<in> desired_slugs fm forks))"
  using routed_cluster.fork_reconcile_refines [OF assms(1), OF assms(2-9)] by blast

theorem fork_reconcile_realises_environment_witness:
  "\<exists>w' c v. reconcile_fork store_env name_order slug_order 0 some_fork_key start_world = (Ok (), w') \<and>
     fork_realised store_env store_objs store_deps store_managers some_fork start_world w' \<and>
     store_objs w' RService (NN ''some-namespace'' ''some-service-some-fork'') = Some (OService c) \<and>
     copy_of_service store_env some_fork some_service c \<and>
     store_objs w' RVSConfig (NN ''some-namespace'' ''some-service-some-fork'') = Some (OVSConfig v) \<and>
     vsc_service (vsc_spec v) = ''some-service-some-fork''"
proof (rule start_world_reconciled)
  fix w'
  assume run: "reconcile_fork store_env name_order slug_order 0 some_fork_key start_world = (Ok (), w')"
  have "fork_realised store_env store_objs store_deps store_managers some_fork start_world w'"
    using fork_reconcile_realises_environment [OF store.routed_cluster_axioms range_orders run start_world_fork
        some_fork_live _ start_world_names start_world_program_named] by simp
  moreover from this [unfolded fork_realised_def Let_def start_world_targets] obtain c v where
    "store_objs w' RService (NN ''some-namespace'' ''some-service-some-fork'') = Some (OService c)"
    "copy_of_service store_env some_fork some_service c"
    "store_objs w' RVSConfig (NN ''some-namespace'' ''some-service-some-fork'') = Some (OVSConfig v)"
    "vsc_service (vsc_spec v) = ''some-service-some-fork''" by auto
  ultimately show ?thesis using run by blast
qed

text \<open>
  C2. A request that carries the header of the fork gets to the fork: once the fork and then the
  VSConfig of one of its target services have been reconciled, the VirtualService of that service
  sends the request to the copy of the service, which exists, and whose selector takes the pods of
  every copied deployment that the service takes, and only of those. The fork has an identifier
  and a manager, the names of copies fit, and before, only VSConfigs of the fork asked for the header.
\<close>

theorem forked_requests_reach_copies:
  assumes "routed_cluster env scheme objs maps frks deps mgrs" and "range_order ord"
    and "reconcile_fork env ord nn_ord now q w = (Ok u, w1)" and "frks w q = Some fork"
    and "case spec_deadline (fork_spec fork) of None \<Rightarrow> True | Some d \<Rightarrow> \<not> env_time_before env d now"
    and "nn_namespace q \<noteq> ''''" "names_fit env objs deps fork w" "program_named env objs fork w"
    and "t \<in> target_services env objs fork w" "meta_name (svc_meta t) \<noteq> ''''"
    and "routes_named objs (NN (nn_namespace q) (meta_name (svc_meta t))) w"
    and "spec_identifier (fork_spec fork) \<noteq> ''''"
    and "parse_manager_slug (spec_manager (fork_spec fork)) = Ok slug" "mgrs w slug = Some fm"
    and "fmlookup hs (fm_header_key (fm_spec fm)) = Some (spec_identifier (fork_spec fork))"
    and "\<forall>v \<in> configs_route objs (NN (nn_namespace q) (meta_name (svc_meta t))) w hs.
      owned_by_parent env (vsc_meta v) (fork_owner fork)"
    and "reconcile_vsconfig env (NN (nn_namespace q) (service_name t fork)) w1 = (Ok u', w2)"
    and "template_keeps_routing fork (meta_name (svc_meta t))"
  shows "routed rx objs (NN (nn_namespace q) (meta_name (svc_meta t))) w2 hs (service_name t fork) \<and>
    (\<exists>c. objs w2 RService (NN (nn_namespace q) (service_name t fork)) = Some (OService c) \<and>
       (\<forall>d \<in> copied_deployments env objs deps fork w. \<exists>dc.
          objs w2 RDeploymentCopy (NN (nn_namespace q) (copy_name d fork)) = Some (ODeploymentCopy dc) \<and>
          dc_target_deployment_name (dc_spec dc) = meta_name (dep_meta d) \<and>
          (selects (ss_selector (svc_spec c)) (dc_custom_labels (dc_spec dc)) \<longleftrightarrow> routable_from env d t)))"
proof -
  note routed = routed_cluster.forked_request_routed [OF assms(1), OF assms(3,2,4-10) refl assms(11-17)]
  from routed(2) obtain c where
    c: "objs w2 RService (NN (nn_namespace q) (service_name t fork)) = Some (OService c)"
        "copy_of_service env fork t c" by blast
  from routed(1) c routed(3) assms(9,18) show ?thesis unfolding copy_of_deployment_def by blast
qed

theorem forked_requests_reach_copies_witness:
  "\<exists>w1 w2. reconcile_fork store_env name_order slug_order 0 some_fork_key start_world = (Ok (), w1) \<and>
     reconcile_vsconfig store_env (NN ''some-namespace'' ''some-service-some-fork'') w1 = (Ok (), w2) \<and>
     routed (\<lambda>_ _. False) store_objs some_service_key w2 (fmupd ''fork-identifier'' ''some-fork'' fmempty)
       ''some-service-some-fork'' \<and>
     (\<exists>dc. store_objs w2 RDeploymentCopy (NN ''some-namespace'' ''web-some-fork'') = Some (ODeploymentCopy dc))"
proof (rule start_world_reconciled)
  fix w1
  assume run: "reconcile_fork store_env name_order slug_order 0 some_fork_key start_world = (Ok (), w1)"
  let ?key = "NN ''some-namespace'' ''some-service-some-fork''"
    and ?hs = "fmupd ''fork-identifier'' ''some-fork'' fmempty"
  have "is_ok (fst (reconcile_vsconfig store_env ?key
      (snd (reconcile_fork store_env name_order slug_order 0 some_fork_key start_world))))" by code_simp
  from returned [OF this] run obtain w2 where run': "reconcile_vsconfig store_env ?key w1 = (Ok (), w2)" by auto
  have manager: "store_managers start_world default_slug = Some gen_fork_manager"
    by (simp add: store_managers_def start_world_def world_def gen_fork_manager_def meta_key_def)
  have web: "gen_deployment ''web'' app_labels \<in> copied_deployments store_env store_objs store_deps
      some_fork start_world"
  proof -
    have "list_ex (\<lambda>d. d = gen_deployment ''web'' app_labels \<and> routable_from store_env d some_service)
        (candidate_deployments store_env store_deps some_fork start_world)" by code_simp
    then show ?thesis by (auto simp: copied_deployments_def start_world_targets list_ex_iff)
  qed
  have target: "some_service \<in> target_services store_env store_objs some_fork start_world"
    by (simp add: start_world_targets)
  have slug: "parse_manager_slug (spec_manager (fork_spec some_fork)) = Ok default_slug" by simp code_simp
  have header: "fmlookup ?hs (fm_header_key (fm_spec gen_fork_manager)) =
      Some (spec_identifier (fork_spec some_fork))"
    by (simp add: gen_fork_manager_def)
  have routes: "reconcile_vsconfig store_env (NN (nn_namespace some_fork_key) (service_name some_service
      some_fork)) w1 = (Ok (), w2)"
    using run' by simp
  note reach = forked_requests_reach_copies [OF store.routed_cluster_axioms range_orders(1) run
      start_world_fork some_fork_live,
      of some_service default_slug gen_fork_manager ?hs "()" w2 "\<lambda>_ _. False",
      OF _ start_world_names start_world_program_named target _ _ _ slug manager header _ routes
          some_fork_keeps_routing]
  have "routed (\<lambda>_ _. False) store_objs some_service_key w2 ?hs ''some-service-some-fork'' \<and>
    (\<exists>dc. store_objs w2 RDeploymentCopy (NN ''some-namespace''
        (copy_name (gen_deployment ''web'' app_labels) some_fork)) =
      Some (ODeploymentCopy dc))"
    using reach web by (simp add: routes_named_def configs_route_def) blast
  with run run' show ?thesis by (auto simp: copy_name_def gen_deployment_def sprintf_dash_def)
qed

section \<open>The routes of a service\<close>

text \<open>
  C7. The successful reconcile of a stored VSConfig brings the routes of its host in line with the
  VSConfigs of the namespace: a request that some of them ask for goes to the service they agree
  on, and a request that none of them asks for stays with the service, whichever VirtualService of
  the service handles it. Nothing but VirtualServices is changed.
\<close>

theorem vsconfig_reconcile_routes_requests:
  assumes "routed_cluster env scheme objs maps frks deps mgrs"
    and "reconcile_vsconfig env key w = (Ok u, w')" and "objs w RVSConfig key = Some (OVSConfig cfg)"
    and "k = NN (nn_namespace key) (vsc_host (vsc_spec cfg))" "routes_named objs k w"
    and "nn_namespace k \<noteq> ''''" "nn_name k \<noteq> ''''" "length (nn_name k) \<le> 63"
  shows "(configs_route objs k w hs \<noteq> {} \<and> (\<forall>v \<in> configs_route objs k w hs. vsc_service (vsc_spec v) = n) \<longrightarrow>
      routed rx objs k w' hs n) \<and>
    (configs_route objs k w hs = {} \<longrightarrow>
      (\<forall>t k' v. objs w RService k = Some (OService t) \<and> objs w' RVirtualService k' = Some (OVirtualService v) \<and>
         nn_namespace k' = nn_namespace k \<and>
         owned_by_parent env (vs_meta v) (service_owner (t\<lparr>svc_type := scheme GoService\<rparr>)) \<longrightarrow>
         k' = k \<and> route_destination rx (vs_http (vs_spec v)) hs = Some [nn_name k])) \<and>
    (\<forall>r k'. r \<noteq> RVirtualService \<longrightarrow> objs w' r k' = objs w r k')"
  using routed_cluster.vsconfig_reconcile_routes [OF assms(1), OF assms(2-8)]
    routed_cluster.vsconfig_reconcile_frame [OF assms(1), OF assms(2,3)] by blast

theorem vsconfig_reconcile_routes_requests_witness:
  "\<exists>w' v. reconcile_vsconfig store_env (NN ''some-namespace'' ''some-service-some-id'') vs_world = (Ok (), w') \<and>
     routed (\<lambda>_ _. False) store_objs some_service_key w' (fmupd ''some-header-name'' ''some-id'' fmempty)
       ''custom-routing-service-name'' \<and>
     store_objs w' RVirtualService some_service_key = Some (OVirtualService v) \<and>
     route_destination (\<lambda>_ _. False) (vs_http (vs_spec v)) fmempty = Some [''some-service'']"
proof -
  let ?key = "NN ''some-namespace'' ''some-service-some-id''"
    and ?hs = "fmupd ''some-header-name'' ''some-id'' fmempty"
  let ?cfg = "gen_vsconfig ''some-service'' ''some-id''"
  let ?run = "reconcile_vsconfig store_env ?key vs_world"
  have "is_ok (fst ?run)" by code_simp
  from returned [OF this] obtain w' where run: "?run = (Ok (), w')" by auto
  have cfg: "store_objs vs_world RVSConfig k = Some (OVSConfig v) \<longleftrightarrow> k = ?key \<and> v = ?cfg" for k v
    by (auto simp: vs_world_def object_key_def meta_key_def gen_vsconfig_def sprintf_dash_def)
  have service: "store_objs vs_world RService some_service_key = Some (OService some_service)"
    by (simp add: vs_world_def object_key_def meta_key_def)
  have named: "routes_named store_objs some_service_key vs_world"
    by (auto simp: routes_named_def vs_world_def object_key_def meta_key_def old_virtual_service_def
        foreign_virtual_service_def gen_vs_def last_host_def split: if_splits)
  have asked: "configs_route store_objs some_service_key vs_world ?hs = {?cfg}"
    by (auto simp: configs_route_def cfg) (simp_all add: gen_vsconfig_def requests_def)
  have other: "configs_route store_objs some_service_key vs_world fmempty = {}"
    by (auto simp: configs_route_def cfg gen_vsconfig_def requests_def)
  have stored: "store_objs vs_world RVSConfig ?key = Some (OVSConfig ?cfg)" by (simp add: cfg)
  note routes = vsconfig_reconcile_routes_requests [OF store.routed_cluster_axioms run, OF stored, of
      some_service_key]
  have host: "NN (nn_namespace ?key) (vsc_host (vsc_spec ?cfg)) = some_service_key"
    by (simp add: gen_vsconfig_def)
  have there: "routed (\<lambda>_ _. False) store_objs some_service_key w' ?hs ''custom-routing-service-name''"
    using routes [of ?hs "''custom-routing-service-name''" "\<lambda>_ _. False"] asked named host
    by (simp add: gen_vsconfig_def)
  then obtain v where v: "store_objs w' RVirtualService some_service_key = Some (OVirtualService v)"
    by (auto simp: routed_def)
  have "(case store_objs (snd ?run) RVirtualService some_service_key of
      Some (OVirtualService v) \<Rightarrow>
          owned_by_parent store_env (vs_meta v)
              (service_owner (some_service\<lparr>svc_type := store_scheme GoService\<rparr>))
    | _ \<Rightarrow> False)" by code_simp
  with run v have "owned_by_parent store_env (vs_meta v)
      (service_owner (some_service\<lparr>svc_type := store_scheme GoService\<rparr>))" by simp
  with routes [of fmempty "''''" "\<lambda>_ _. False"] other named host v service
  have "route_destination (\<lambda>_ _. False) (vs_http (vs_spec v)) fmempty = Some [''some-service'']" by force
  with run there v show ?thesis by blast
qed

section \<open>Updating a fork again\<close>

text \<open>Names of the store that fit, by looking through its objects.\<close>

definition stored_names_fit :: "fork \<Rightarrow> store \<Rightarrow> bool" where
  "stored_names_fit f w \<longleftrightarrow>
     list_all (\<lambda>x. case x of OService t \<Rightarrow> length (service_name t f) \<le> 63 | _ \<Rightarrow> True) (st_objects w) \<and>
     list_all (\<lambda>d. length (copy_name d f) \<le> 63) (candidate_deployments store_env store_deps f w)"

lemma stored_names_fit: "stored_names_fit f w \<Longrightarrow> names_fit store_env store_objs store_deps f w"
  by (auto simp: stored_names_fit_def names_fit_def target_services_iff store_objs_def list_all_iff
      dest!: list_get_mem split: client_object.splits)

text \<open>A fork of the services with a label, which copies do not carry.\<close>

definition labelled_service :: service where
  "labelled_service = gen_service_with ''some-service'' [add_svc_label ''app'' ''some-app'']"

lemma labelled_service_eq:
  "labelled_service = some_service\<lparr>svc_meta := (svc_meta some_service)\<lparr>meta_labels := fmupd ''app''
      ''some-app'' fmempty\<rparr>\<rparr>"
  by (simp add: labelled_service_def gen_service_with_def add_svc_label_def some_service_def gen_service_def)

definition labelled_fork :: fork where
  "labelled_fork = some_fork\<lparr>fork_spec := (fork_spec some_fork)\<lparr>spec_services :=
     Some \<lparr>fs_selector = Some \<lparr>match_labels = Some (fmupd ''app'' ''some-app'' fmempty),
         match_expressions = []\<rparr>\<rparr>\<rparr>\<rparr>"

definition labelled_world :: store where
  "labelled_world = world [labelled_fork] [OService labelled_service] []"

lemma labelled_world_service:
  "store_objs labelled_world RService k = Some (OService t) \<longleftrightarrow> k = some_service_key \<and> t = labelled_service"
  by (auto simp: labelled_world_def labelled_service_eq object_key_def meta_key_def)

lemma labelled_fork_simps [simp]:
  "fork_meta labelled_fork = object_meta_of ''some-fork'' ''some-namespace''"
  "selects_service store_env labelled_fork ls \<longleftrightarrow> fmlookup ls ''app'' = Some ''some-app''"
  by (simp_all add: labelled_fork_def selects_service_def store_selector_def label_selector_holds_def)

lemma labelled_world_targets: "target_services store_env store_objs labelled_fork labelled_world =
    {labelled_service}"
  by (auto simp: target_services_iff labelled_world_service labelled_service_eq)

lemma labelled_world_fork: "store_frks labelled_world some_fork_key = Some labelled_fork"
  by (simp add: store_frks_def labelled_world_def world_def labelled_fork_def meta_key_def)

lemma labelled_world_fits:
  "names_fit store_env store_objs store_deps labelled_fork labelled_world"
  "program_named store_env store_objs labelled_fork labelled_world"
  "leaves_copies store_env store_objs labelled_fork labelled_world"
proof -
  show "names_fit store_env store_objs store_deps labelled_fork labelled_world"
    by (rule stored_names_fit) code_simp
  show "program_named store_env store_objs labelled_fork labelled_world"
    by (auto simp: program_named_def labelled_world_service owned_by_parent_def labelled_service_eq)
      (simp add: labelled_world_def object_key_def)
  show "leaves_copies store_env store_objs labelled_fork labelled_world"
    by (simp add: leaves_copies_def labelled_world_targets copy_labels_def original_service_label_key_def
        fork_identifier_label_key_def owned_by_parent_def service_name_def sprintf_dash_def labelled_service_eq)
qed

text \<open>
  C15. The update of a fork converges: when the selector of the fork leaves its own copies alone, a
  successful update after any other one, even one that failed half way, realises the environment
  of the services and deployments there were before; and after a successful one it creates and
  deletes nothing, of whatever resource.
\<close>

theorem fork_update_settles:
  assumes "routed_cluster env scheme objs maps frks deps mgrs" and "range_order ord"
    and "microservice_update env ord q w = (res, w')" and "microservice_update env ord q w' = (Ok u, w'')"
    and "frks w q = Some fork" "nn_namespace q \<noteq> ''''"
    and "names_fit env objs deps fork w" "program_named env objs fork w" "leaves_copies env objs fork w"
  shows "fork_realised env objs deps mgrs fork w w'' \<and>
    (is_ok res \<longrightarrow> (\<forall>r k. objs w'' r k = None \<longleftrightarrow> objs w' r k = None))"
proof (intro conjI impI allI)
  show "fork_realised env objs deps mgrs fork w w''"
    by (rule routed_cluster.next_update_realises [OF assms(1), OF assms(3,2,5-9,4)])
  fix r k
  assume "is_ok res"
  then obtain u' where "res = Ok u'" by (cases res) auto
  with routed_cluster.second_update_settles [OF assms(1), OF _ assms(2,5-9,4)] assms(3)
  show "objs w'' r k = None \<longleftrightarrow> objs w' r k = None" by blast
qed

theorem fork_update_settles_witness:
  "\<exists>w' w''. microservice_update store_env name_order some_fork_key labelled_world = (Ok (), w') \<and>
     microservice_update store_env name_order some_fork_key w' = (Ok (), w'') \<and>
     fork_realised store_env store_objs store_deps store_managers labelled_fork labelled_world w'' \<and>
     (\<forall>r k. store_objs w'' r k = None \<longleftrightarrow> store_objs w' r k = None)"
proof -
  let ?run = "microservice_update store_env name_order some_fork_key labelled_world"
  have "is_ok (fst ?run)" by code_simp
  from returned [OF this] obtain w' where run: "?run = (Ok (), w')" by auto
  have "is_ok (fst (microservice_update store_env name_order some_fork_key (snd ?run)))" by code_simp
  from returned [OF this] run obtain w'' where
    again: "microservice_update store_env name_order some_fork_key w' = (Ok (), w'')" by auto
  have "nn_namespace some_fork_key \<noteq> ''''" by simp
  from fork_update_settles [OF store.routed_cluster_axioms range_orders(1) run again, OF labelled_world_fork
      this labelled_world_fits] run again
  show ?thesis by auto
qed

section \<open>The controllers at the same time\<close>

text \<open>
  C14. The reconcilers of VSConfigs and Services keep off what the reconciler of forks works on: whatever
  happens between their calls to the API server, each single call leaves every object that is not a
  VirtualService, the Mappings, the forks, the deployments and the managers as they are.
\<close>

theorem route_reconcilers_change_routes_only:
  assumes "routed_cluster env scheme objs maps frks deps mgrs" and "foreign_step env v v'"
  shows "(\<forall>r k. r \<noteq> RVirtualService \<longrightarrow> objs v' r k = objs v r k) \<and>
    maps v' = maps v \<and> frks v' = frks v \<and> deps v' = deps v \<and> mgrs v' = mgrs v"
proof -
  from routed_cluster.foreign_step_besides_routes [OF assms]
  have same: "routeless objs v' = routeless objs v" "maps v' = maps v" "frks v' = frks v"
      "deps v' = deps v" "mgrs v' = mgrs v"
    by (simp_all add: routed_cluster.besides_routes_def [OF assms(1)])
  have "objs v' r k = objs v r k" if "r \<noteq> RVirtualService" for r k
    using arg_cong [OF same(1), of "\<lambda>m. m r k"] that by simp
  with same(2-5) show ?thesis by blast
qed

text \<open>The last call of a reconcile writes the VirtualService of the service.\<close>

theorem route_reconcilers_change_routes_only_witness:
  "\<exists>v v'. foreign_step store_env v v' \<and>
     store_objs v' RVirtualService some_service_key \<noteq> store_objs v RVirtualService some_service_key \<and>
     (\<forall>r k. r \<noteq> RVirtualService \<longrightarrow> store_objs v' r k = store_objs v r k)"
proof -
  let ?run = "reconcile_vsconfig (stepped (\<lambda>_ w. w) store_env) (NN ''some-namespace'' ''some-service-some-id'')
    (vs_world, [])"
  have changed: "(case last (snd (snd ?run)) of (v, v') \<Rightarrow>
      store_objs v' RVirtualService some_service_key \<noteq> store_objs v RVirtualService some_service_key) \<and>
      snd (snd ?run) \<noteq> []" by code_simp
  obtain res w' steps where run: "?run = (res, (w', steps))" by (metis prod.collapse)
  obtain v v' where last: "last steps = (v, v')" by fastforce
  with changed run have step: "foreign_step store_env v v'"
    by (intro vsconfig_step [OF run]) (metis last_in_set snd_conv)
  from route_reconcilers_change_routes_only [OF store.routed_cluster_axioms step] changed run last step
  show ?thesis by (intro exI [of _ v] exI [of _ v']) simp
qed

text \<open>
  C13. The environments of forks stand whatever the controllers of the process do at the same time. The
  reconciler of forks handles its requests one after the other, of this fork before its deadline and of any
  other, of the same namespace or another one, in any order, any number of them failing half way; and
  between any two calls that it makes to the API server, the reconcilers of VSConfigs and Services make any
  number of theirs, for whatever requests. Once a reconcile of the fork has succeeded, its environment is that
  of the services and deployments there were at the start, and stays so until the fork is reconciled
  again. The forks of the namespace have to be apart: none selects the copies of another, and no two have
  a place for an object in common.
\<close>

theorem environment_survives_concurrency:
  assumes "routed_cluster env scheme objs maps frks deps mgrs" and "range_order ord" "range_order nn_ord"
    and "\<forall>n w. (foreign_step env)\<^sup>*\<^sup>* w (act n w)"
    and "frks w q = Some fork" "nn_namespace q \<noteq> ''''"
    and "forks_apart env objs deps frks (nn_namespace q) w"
    and "\<forall>r \<in> set (before @ ForkRequest now q # after). (\<exists>t q'. r = ForkRequest t q') \<and>
        considerate env fork q r"
    and "\<forall>t. ForkRequest t q \<notin> set after"
    and "is_ok (fst (reconcile_fork (interleaved act env) ord nn_ord now q
      (handle_all (interleaved act env) ord nn_ord before (w, 0))))"
  shows "fork_realised env objs deps mgrs fork w
    (fst (handle_all (interleaved act env) ord nn_ord (before @ ForkRequest now q # after) (w, 0)))"
  by (rule routed_cluster.interleaved_schedule_realises [OF assms(1) assms(4) [rule_format], OF
      assms(2,3,5-10)])

text \<open>
  Two forks of the same service. The VSConfig of the second one is reconciled in the middle of the reconcile of
  the first, at the 25th call.
\<close>

definition second_fork :: fork where
  "second_fork = labelled_fork\<lparr>fork_meta := object_meta_of ''second-fork'' ''some-namespace'',
     fork_spec := (fork_spec labelled_fork)\<lparr>spec_identifier := ''second-fork''\<rparr>\<rparr>"

definition second_fork_key :: namespaced_name where
  "second_fork_key = NN ''some-namespace'' ''second-fork''"

definition shared_world :: store where
  "shared_world = world [labelled_fork, second_fork] [OService labelled_service] []"

definition others :: "nat \<Rightarrow> store \<Rightarrow> store" where
  "others n w =
     (if n = 25 then snd (reconcile_vsconfig store_env (NN ''some-namespace''
         ''some-service-second-fork'') w) else w)"

lemma second_fork_simps [simp]:
  "fork_meta second_fork = object_meta_of ''second-fork'' ''some-namespace''"
  "selects_service store_env second_fork ls \<longleftrightarrow> fmlookup ls ''app'' = Some ''some-app''"
proof -
  show "fork_meta second_fork = object_meta_of ''second-fork'' ''some-namespace''"
    by (simp add: second_fork_def)
  have "selects_service store_env second_fork ls = selects_service store_env labelled_fork ls"
    by (simp add: second_fork_def selects_service_def)
  then show "selects_service store_env second_fork ls \<longleftrightarrow> fmlookup ls ''app'' = Some ''some-app''" by simp
qed

lemma shared_world_objects: "store_objs shared_world r k = Some x \<longleftrightarrow> r = RService \<and>
    k = some_service_key \<and> x = OService labelled_service"
  by (auto simp: shared_world_def labelled_service_eq object_key_def meta_key_def)

lemma shared_world_forks: "store_frks shared_world q = Some f \<longleftrightarrow>
    q = some_fork_key \<and> f = labelled_fork \<or> q = second_fork_key \<and> f = second_fork"
  by (auto simp: store_frks_def shared_world_def world_def labelled_fork_def second_fork_def second_fork_key_def
      meta_key_def)

lemma shared_world_targets [simp]:
  "target_services store_env store_objs labelled_fork shared_world = {labelled_service}"
  "target_services store_env store_objs second_fork shared_world = {labelled_service}"
  by (auto simp: target_services_iff shared_world_objects labelled_service_eq)

lemma shared_world_apart: "forks_apart store_env store_objs store_deps store_frks ''some-namespace''
    shared_world"
proof -
  let ?forks = "{labelled_fork, second_fork}"
  let ?cands = "\<lambda>f. candidate_deployments store_env store_deps f shared_world"
  have unowned: "\<not> owned_by_parent store_env (obj_meta x) p" if "store_objs shared_world r k = Some x"
      for x p r k
    using that by (auto simp: shared_world_objects owned_by_parent_def labelled_service_eq)
  have fit: "names_fit store_env store_objs store_deps f shared_world" if "f \<in> ?forks" for f
  proof -
    have "stored_names_fit labelled_fork shared_world" by code_simp
    moreover have "stored_names_fit second_fork shared_world" by code_simp
    ultimately show ?thesis using that stored_names_fit by blast
  qed
  have named: "program_named store_env store_objs f shared_world" for f
    using unowned by (fastforce simp: program_named_def)
  have copies: "copies_apart store_env store_objs f f' shared_world" if "f \<in> ?forks" "f' \<in> ?forks" for f f'
    using that by (auto simp: copies_apart_def copy_labels_def original_service_label_key_def
        fork_identifier_label_key_def owned_by_parent_def service_name_def sprintf_dash_def labelled_service_eq)
  have owners: "owners_apart store_env store_objs f f' shared_world" for f f'
    using unowned by (auto simp: owners_apart_def owned_at_def)
  have "list_all (\<lambda>d. list_all (\<lambda>e. copy_name d labelled_fork \<noteq> copy_name e second_fork \<and>
      copy_name e second_fork \<noteq> copy_name d labelled_fork) (?cands second_fork)) (?cands labelled_fork)"
        by code_simp
  then have keys: "keys_apart store_env store_objs store_deps labelled_fork second_fork shared_world"
    "keys_apart store_env store_objs store_deps second_fork labelled_fork shared_world"
    by (auto simp: keys_apart_def fork_resources_def copied_deployments_def list_all_iff service_name_def
        sprintf_dash_def)
  show ?thesis
    unfolding forks_apart_def shared_world_forks using fit named copies owners keys by blast
qed

theorem environment_survives_concurrency_witness:
  "\<exists>w'. w' = fst (handle_all (interleaved others store_env) name_order slug_order
      ([ForkRequest 6 second_fork_key] @
       ForkRequest 8 some_fork_key # [ForkRequest 9 second_fork_key]) (shared_world, 0)) \<and>
     fork_realised store_env store_objs store_deps store_managers labelled_fork shared_world w'"
proof -
  have acts: "\<forall>n w. (foreign_step store_env)\<^sup>*\<^sup>* w (others n w)"
    using routed_cluster.vsconfig_in_one_go [OF store.routed_cluster_axioms] by (simp add: others_def)
  have succeeds: "is_ok (fst (reconcile_fork (interleaved others store_env) name_order slug_order 8
      some_fork_key
      (handle_all (interleaved others store_env) name_order slug_order [ForkRequest 6 second_fork_key]
        (shared_world, 0))))" by code_simp
  have fork: "store_frks shared_world some_fork_key = Some labelled_fork" by (simp add: shared_world_forks)
  have key: "nn_namespace some_fork_key \<noteq> ''''" by simp
  have apart: "forks_apart store_env store_objs store_deps store_frks (nn_namespace some_fork_key) shared_world"
    using shared_world_apart by simp
  have fine: "\<forall>r \<in> set ([ForkRequest 6 second_fork_key] @ ForkRequest 8 some_fork_key #
      [ForkRequest 9 second_fork_key]).
      (\<exists>t q'. r = ForkRequest t q') \<and> considerate store_env labelled_fork some_fork_key r"
    by (simp add: labelled_fork_def second_fork_key_def)
  have last: "\<forall>t. ForkRequest t some_fork_key \<notin> set [ForkRequest 9 second_fork_key]"
    by (simp add: second_fork_key_def)
  from environment_survives_concurrency [OF store.routed_cluster_axioms range_orders acts fork key apart
      fine last
      succeeds] show ?thesis by blast
qed

text \<open>
  C27. A selector that admits the labels of copies, such as an empty one or one that only asks for a
  key to be missing, takes the copies of the fork for services to fork: the next update makes
  copies of the copies, although neither the fork nor the services have changed.
\<close>

theorem copies_are_forked_again:
  assumes "routed_cluster env scheme objs maps frks deps mgrs" and "range_order ord"
    and "microservice_update env ord q w = (Ok u, w')" and "microservice_update env ord q w' = (Ok u', w'')"
    and "frks w q = Some fork" "nn_namespace q \<noteq> ''''"
    and "names_fit env objs deps fork w" "program_named env objs fork w" "names_fit env objs deps fork w'"
    and "t \<in> target_services env objs fork w"
        "selects_service env fork (copy_labels fork (meta_name (svc_meta t)))"
  shows "\<exists>c. objs w'' RService (NN (nn_namespace q) (sprintf_dash (service_name t fork)
      (meta_name (fork_meta fork)))) =
    Some (OService c) \<and> owned_by_parent env (svc_meta c) (fork_owner fork)"
  by (rule routed_cluster.fork_update_copies_copies [OF assms(1), OF assms(3,2,5-8,10,11,4,9)])

theorem copies_are_forked_again_witness:
  "\<exists>w' w'' c. microservice_update store_env name_order some_fork_key start_world = (Ok (), w') \<and>
     microservice_update store_env name_order some_fork_key w' = (Ok (), w'') \<and>
     store_objs w'' RService (NN ''some-namespace'' ''some-service-some-fork-some-fork'') = Some (OService c) \<and>
     owned_by_parent store_env (svc_meta c) (fork_owner some_fork)"
proof -
  let ?run = "microservice_update store_env name_order some_fork_key start_world"
  have "is_ok (fst ?run)" by code_simp
  from returned [OF this] obtain w' where run: "?run = (Ok (), w')" by auto
  have "is_ok (fst (microservice_update store_env name_order some_fork_key (snd ?run)))" by code_simp
  from returned [OF this] run obtain w'' where
    again: "microservice_update store_env name_order some_fork_key w' = (Ok (), w'')" by auto
  have "stored_names_fit some_fork (snd ?run)" by code_simp
  then have fit: "names_fit store_env store_objs store_deps some_fork w'" by (simp add: run stored_names_fit)
  have target: "some_service \<in> target_services store_env store_objs some_fork start_world"
    "selects_service store_env some_fork (copy_labels some_fork (meta_name (svc_meta some_service)))"
    by (simp_all add: start_world_targets)
  have "nn_namespace some_fork_key \<noteq> ''''" by simp
  from copies_are_forked_again [OF store.routed_cluster_axioms range_orders(1) run again, OF
      start_world_fork this
      start_world_names start_world_program_named fit target] run again
  show ?thesis by (auto simp: sprintf_dash_def)
qed

section \<open>Names that coincide\<close>

text \<open>The copy that another fork, called fork, has of a service called some-service-some.\<close>

definition other_fork_copy :: service where
  "other_fork_copy = (gen_service ''some-service-some-fork'')\<lparr>svc_meta :=
     (object_meta_of ''some-service-some-fork'' ''some-namespace'')
       \<lparr>meta_owner_refs := [store_owner_ref (fork_owner (full_fork ''fork'' None))]\<rparr>\<rparr>"

definition taken_world :: store where
  "taken_world = world [labelled_fork] [OService labelled_service, OService other_fork_copy] []"

lemma other_fork_copy_meta [simp]:
  "svc_meta other_fork_copy = (object_meta_of ''some-service-some-fork'' ''some-namespace'')
     \<lparr>meta_owner_refs := [store_owner_ref (fork_owner (full_fork ''fork'' None))]\<rparr>"
  by (simp add: other_fork_copy_def)

lemma taken_world_service:
  "store_objs taken_world RService k = Some (OService t) \<longleftrightarrow>
     k = some_service_key \<and> t = labelled_service \<or>
     k = NN ''some-namespace'' ''some-service-some-fork'' \<and> t = other_fork_copy"
  by (auto simp: taken_world_def labelled_service_eq object_key_def meta_key_def)

lemma taken_world_targets: "target_services store_env store_objs labelled_fork taken_world = {labelled_service}"
  by (auto simp: target_services_iff taken_world_service labelled_service_eq)

text \<open>
  C28. A copy takes the place of whatever has its name: an object called as the copy of a service
  would be, owned by somebody else such as another fork whose copy happens to have the same name, is
  overwritten without an error by a successful update, and loses its owner, its labels and its selector.
  The code has a comment that says it should be an error.
\<close>

theorem existing_service_taken_over:
  assumes "routed_cluster env scheme objs maps frks deps mgrs" and "range_order ord"
    and "microservice_update env ord q w = (Ok u, w')" and "frks w q = Some fork"
    and "nn_namespace q \<noteq> ''''" "names_fit env objs deps fork w" "program_named env objs fork w"
    and "t \<in> target_services env objs fork w"
    and "objs w RService (NN (nn_namespace q) (service_name t fork)) = Some (OService e)"
    and "owned_by_parent env (svc_meta e) p" "meta_name (ow_meta p) \<noteq> meta_name (fork_meta fork)"
  shows "\<exists>c. objs w' RService (NN (nn_namespace q) (service_name t fork)) = Some (OService c) \<and>
    \<not> owned_by_parent env (svc_meta c) p \<and> copy_of_service env fork t c"
  using routed_cluster.fork_update_services [OF assms(1), OF assms(3,2,4-8)] assms(11)
  by (auto simp: copy_of_service_def)

theorem existing_service_taken_over_witness:
  "\<exists>w' c. microservice_update store_env name_order some_fork_key taken_world = (Ok (), w') \<and>
     store_objs taken_world RService (NN ''some-namespace'' ''some-service-some-fork'') =
         Some (OService other_fork_copy) \<and>
     owned_by_parent store_env (svc_meta other_fork_copy) (fork_owner (full_fork ''fork'' None)) \<and>
     store_objs w' RService (NN ''some-namespace'' ''some-service-some-fork'') = Some (OService c) \<and>
     \<not> owned_by_parent store_env (svc_meta c) (fork_owner (full_fork ''fork'' None))"
proof -
  let ?run = "microservice_update store_env name_order some_fork_key taken_world"
  let ?p = "fork_owner (full_fork ''fork'' None)"
  have "is_ok (fst ?run)" by code_simp
  from returned [OF this] obtain w' where run: "?run = (Ok (), w')" by auto
  have fork: "store_frks taken_world some_fork_key = Some labelled_fork"
    by (simp add: store_frks_def taken_world_def world_def labelled_fork_def meta_key_def)
  have fit: "names_fit store_env store_objs store_deps labelled_fork taken_world"
    by (rule stored_names_fit) code_simp
  have owned: "owned_by_parent store_env (svc_meta other_fork_copy) ?p"
    by (simp add: owned_by_parent_def store_owner_ref_def fork_owner_def full_fork_def Let_def)
  have named: "program_named store_env store_objs labelled_fork taken_world"
    by (auto simp: program_named_def taken_world_service owned_by_parent_def labelled_service_eq
        store_owner_ref_def fork_owner_def)
      (simp add: taken_world_def object_key_def)
  have name: "service_name labelled_service labelled_fork = ''some-service-some-fork''"
    by (simp add: service_name_def labelled_service_eq sprintf_dash_def)
  have there: "store_objs taken_world RService (NN (nn_namespace some_fork_key)
      (service_name labelled_service labelled_fork)) =
      Some (OService other_fork_copy)"
    by (simp add: name taken_world_service)
  have ns: "nn_namespace some_fork_key \<noteq> ''''" by simp
  have target: "labelled_service \<in> target_services store_env store_objs labelled_fork taken_world"
    by (simp add: taken_world_targets)
  have other: "meta_name (ow_meta ?p) \<noteq> meta_name (fork_meta labelled_fork)" by (simp add: fork_owner_def)
  from existing_service_taken_over [OF store.routed_cluster_axioms range_orders(1) run fork ns fit named
      target there owned other]
  show ?thesis using run owned there by (auto simp: name)
qed

end
