(* ===== verification/RefreshProperties.thy ===== *)
theory RefreshProperties
  imports Fixtures
begin

text \<open>
  Properties of the refresher (\<^verbatim>\<open>pkg/refresh/refresh.go\<close>), stated for every list that meets the
  contract of a lister and every API server that satisfies the laws of ClusterLaws.
\<close>

text \<open>
  C4. A successful refresh realises its list: every desired object is stored, under the name
  the refresher gives it, with its spec and the parent as controller; and the parent owns
  nothing else of that resource in its namespace. Objects of other resources are as before.
\<close>

theorem refresh_realises_list:
  assumes "stable_refresher env scheme objs lst r parent"
    and "refresh env parent lst w = (Ok u, w')"
    and "well_named env parent lst (objs w r)"
    and "inj_on (default_name env parent lst) (set (ol_items lst))"
  shows "realised env scheme parent lst (objs w' r) \<and> (\<forall>r'. r' \<noteq> r \<longrightarrow> objs w' r' = objs w r')"
proof -
  note refresher = stable_refresher.axioms(1) [OF assms(1)]
  have "objs w' r' k = objs w r' k" if "r' \<noteq> r" for r' k
    using refresher.refresh_owned_change [OF refresher assms(2), of r' k] that by auto
  then show ?thesis using stable_refresher.refresh_realises [OF assms] by auto
qed

theorem refresh_realises_list_witness:
  "\<exists>w'. refresh store_env (service_owner some_service) (build_virtual_service store_env some_lister)
      vs_world = (Ok (), w') \<and>
     realised store_env store_scheme (service_owner some_service) (build_virtual_service store_env some_lister)
       (store_objs w' RVirtualService)"
proof -
  have stable: "stable_refresher store_env store_scheme store_objs (build_virtual_service store_env some_lister)
      RVirtualService (service_owner some_service)"
    by (rule virtual_services_stable [OF store.object_cluster_axioms some_service_kind])
  have "is_ok (fst (refresh store_env (service_owner some_service) (build_virtual_service store_env
      some_lister) vs_world))"
    by code_simp
  from returned [OF this] obtain w' where
    run: "refresh store_env (service_owner some_service) (build_virtual_service store_env some_lister)
        vs_world = (Ok (), w')"
    by auto
  from refresh_realises_list [OF stable run vs_world_well_named single_default_name] run show ?thesis by blast
qed

text \<open>
  C11. Whatever its outcome, a refresh only deletes objects of the parent that are no longer
  wanted and only writes desired objects, all in the parent's namespace and of the list's
  resource.
\<close>

theorem refresh_changes_own_objects:
  assumes "refresher env scheme objs lst r parent"
    and "refresh env parent lst w = (res, w')"
    and "objs w' r' k \<noteq> objs w r' k"
  shows "r' = r \<and> in_parent_namespace parent k \<and>
    (case objs w' r k of
       None \<Rightarrow> \<exists>x. objs w r k = Some x \<and> stale env parent lst x
     | Some s \<Rightarrow> \<exists>x \<in> set (ol_items lst). \<exists>name. nn_name k = name \<and> written env scheme parent name x s)"
  using refresher.refresh_frame [OF assms(1,2), of r' k] assms(3)
  by (auto simp: was_written_def in_parent_namespace_def)

theorem refresh_changes_own_objects_witness:
  "\<exists>w' x. refresh store_env (service_owner some_service) (build_virtual_service store_env some_lister)
      vs_world = (Ok (), w') \<and>
     store_objs w' RVirtualService (NN ''some-namespace'' ''old'') = None \<and>
     store_objs vs_world RVirtualService (NN ''some-namespace'' ''old'') = Some x \<and>
     stale store_env (service_owner some_service) (build_virtual_service store_env some_lister) x"
proof -
  let ?run = "refresh store_env (service_owner some_service) (build_virtual_service store_env
      some_lister) vs_world"
  let ?k = "NN ''some-namespace'' ''old''"
  have refresher: "refresher store_env store_scheme store_objs (build_virtual_service store_env some_lister)
      RVirtualService (service_owner some_service)"
    by (rule stable_refresher.axioms(1) [OF virtual_services_stable [OF store.object_cluster_axioms
        some_service_kind]])
  have "is_ok (fst ?run)" by code_simp
  from returned [OF this] obtain w' where run: "?run = (Ok (), w')" by auto
  have "Option.is_none (store_objs (snd ?run) RVirtualService ?k)" by code_simp
  then have gone: "store_objs w' RVirtualService ?k = None" by (simp add: run Option.is_none_def)
  have "\<not> Option.is_none (store_objs vs_world RVirtualService ?k)" by code_simp
  then have "store_objs w' RVirtualService ?k \<noteq> store_objs vs_world RVirtualService ?k" using gone
    by (auto simp: Option.is_none_def)
  note change = refresh_changes_own_objects [OF refresher run, OF this]
  have "\<exists>x. store_objs vs_world RVirtualService ?k = Some x \<and>
      stale store_env (service_owner some_service) (build_virtual_service store_env some_lister) x"
    using change [THEN conjunct2, THEN conjunct2] unfolding gone option.case .
  with gone run show ?thesis by blast
qed

text \<open>
  Refreshing again creates and deletes nothing: an object exists after the second run
  exactly when it existed after the first.
\<close>

theorem refresh_is_idempotent:
  assumes "stable_refresher env scheme objs lst r parent"
    and "refresh env parent lst w = (Ok u, w')"
    and "distinct_item_names env parent lst w"
    and "meta_namespace (ow_meta parent) \<noteq> ''''"
    and "refresh env parent lst w' = (res, w'')"
  shows "objs w'' r' k = None \<longleftrightarrow> objs w' r' k = None"
  by (rule stable_refresher.refresh_again_same_objects [OF assms(1-3,5,4)])

theorem refresh_is_idempotent_witness:
  "\<exists>w' w''. refresh store_env (service_owner some_service) (build_virtual_service store_env some_lister)
      vs_world = (Ok (), w') \<and>
     refresh store_env (service_owner some_service) (build_virtual_service store_env some_lister) w' =
         (Ok (), w'') \<and>
     store_objs w' RVirtualService some_service_key \<noteq> None \<and>
         store_objs w'' RVirtualService some_service_key \<noteq> None"
proof -
  let ?refresh = "refresh store_env (service_owner some_service) (build_virtual_service store_env some_lister)"
  have stable: "stable_refresher store_env store_scheme store_objs (build_virtual_service store_env some_lister)
      RVirtualService (service_owner some_service)"
    by (rule virtual_services_stable [OF store.object_cluster_axioms some_service_kind])
  have "is_ok (fst (?refresh vs_world))" by code_simp
  from returned [OF this] obtain w' where run: "?refresh vs_world = (Ok (), w')" by auto
  have "is_ok (fst (?refresh (snd (?refresh vs_world))))" by code_simp
  then have "is_ok (fst (?refresh w'))" by (simp add: run)
  from returned [OF this] obtain w'' where again: "?refresh w' = (Ok (), w'')" by auto
  have distinct: "distinct_item_names store_env (service_owner some_service)
      (build_virtual_service store_env some_lister) vs_world"
    by (simp add: distinct_item_names_def some_lister_items split: result.split)
  have ns: "meta_namespace (ow_meta (service_owner some_service)) \<noteq> ''''"
    by (simp add: service_owner_def some_service_def gen_service_def)
  have "\<not> Option.is_none (store_objs (snd (?refresh vs_world)) RVirtualService some_service_key)" by code_simp
  then have "store_objs w' RVirtualService some_service_key \<noteq> None" by (simp add: run Option.is_none_def)
  with refresh_is_idempotent [OF stable run distinct ns again, of RVirtualService some_service_key] run again
  show ?thesis by blast
qed

text \<open>
  Neither slice of \<open>createResourceName\<close> is ever out of range, and the name it makes has
  at most 61 bytes, for parts of less than 2^47 bytes and whether or not the compiler fuses
  the multiplication and the subtraction.
\<close>

theorem created_name_fits:
  assumes "length first < 2 ^ 47" "length final < 2 ^ 47 - 1"
  shows "\<exists>name. create_resource_name fused first final = Ok name \<and> length name \<le> 61"
  by (rule create_resource_name_bound [OF assms])

theorem created_name_fits_witness:
  "\<exists>name. create_resource_name False (replicate 100 CHR ''a'') (replicate 90 CHR ''b'') = Ok name \<and>
      length name \<le> 61"
  by (rule created_name_fits) simp_all

text \<open>
  C30. An object that does not exist yet is given a name the API server accepts: at most 63
  bytes, whether its name was generated by the lister or has to be made up.
\<close>

theorem new_object_name_fits:
  assumes "fmlookup existing key = None"
    and "length key < 2 ^ 47" "length (meta_name (ow_meta parent)) < 2 ^ 47 - 1"
  shows "\<exists>name. refresh_name fused parent existing key obj = Ok name \<and> length name \<le> 63"
proof (cases "meta_name (obj_meta obj) = ''''")
  case True
  with create_resource_name_bound [OF assms(2,3), of fused] assms(1) show ?thesis
    by (auto simp: refresh_name_def)
next
  case False
  with assms(1) show ?thesis by (auto simp: refresh_name_def Let_def)
qed

theorem new_object_name_fits_witness:
  "\<exists>name. refresh_name False (service_owner some_service) (fmempty :: (string, unit unstructured) fmap) ''key''
     (OService (gen_service (replicate 80 CHR ''a''))) = Ok name \<and> length name \<le> 63"
  by (rule new_object_name_fits) (simp_all add: service_owner_def some_service_def gen_service_def)

end
