(* ===== verification/ForkProperties.thy ===== *)
theory ForkProperties
  imports Fixtures
begin

text \<open>
  Properties of the lister of forks and of the microservice updater
  (\<^verbatim>\<open>domain/lister/internal\<close>, \<^verbatim>\<open>domain/updater/microservice.go\<close>).
\<close>

text \<open>
  C5. The forked routing mirrors the original one: the forked copy of a service selects the
  pods of the copy of a deployment exactly when the service selects the pods of the
  deployment, for a template that leaves the routing labels alone.
\<close>

theorem forked_routing_mirrors_original:
  assumes "steady_reads env deps" and "range_order ord"
    and "build_app env ord fork w = (Ok a, w')"
    and "meta_namespace (fork_meta fork) \<noteq> ''''"
    and "generate_deployment_copies ord a = Ok lst"
    and "ODeploymentCopy c \<in> set (ol_items lst)"
    and "s \<in> set (app_services a)" and "template_keeps_routing fork (meta_name (svc_meta s))"
  shows "\<exists>d \<in> set (app_deployments a). dc_target_deployment_name (dc_spec c) = meta_name (dep_meta d) \<and>
    (selects (ss_selector (svc_spec (labelled_service_copy ord a s))) (dc_custom_labels (dc_spec c)) \<longleftrightarrow>
     routable_from env d s)"
proof -
  have fork: "app_fork a = fork" by (rule steady_reads.build_app_Ok [OF assms(1,3)])
  from deployment_copies_items [OF assms(5,2,6)] obtain d where d: "d \<in> set (app_deployments a)"
    "build_deployment_copy ord d fork
      (lookup_list (app_deploy_name_to_service_names a) (meta_name (dep_meta d))) = Ok c"
    by (auto simp: fork)
  with build_deployment_copy_Ok(2) [OF d(2) assms(2)]
    steady_reads.copies_mirror_routing [OF assms(1,3,2,4) d(1) assms(7) d(2) assms(8)]
  show ?thesis by blast
qed

theorem forked_routing_mirrors_original_witness:
  "\<exists>a w' (lst :: client_object object_list) c s d.
     build_app store_env name_order some_fork start_world = (Ok a, w') \<and>
     generate_deployment_copies name_order a = Ok lst \<and> ODeploymentCopy c \<in> set (ol_items lst) \<and>
     s \<in> set (app_services a) \<and> d \<in> set (app_deployments a) \<and>
     (selects (ss_selector (svc_spec (labelled_service_copy name_order a s))) (dc_custom_labels (dc_spec c)) \<longleftrightarrow>
      routable_from store_env d s)"
proof (rule some_app)
  fix a
  assume build: "build_app store_env name_order some_fork start_world = (Ok a, start_world)"
    and some: "app_services a \<noteq> []" "app_deployments a \<noteq> []" and fork: "app_fork a = some_fork"
  from fork obtain lst :: "client_object object_list"
      where lst: "generate_deployment_copies name_order a = Ok lst"
    by (rule some_copies)
  from some(2) obtain d ds where "app_deployments a = d # ds" by (cases "app_deployments a") auto
  with lst have "\<exists>c. ODeploymentCopy c \<in> set (ol_items lst)"
    by (auto simp: generate_deployment_copies_def result_simps)
  then obtain c where c: "ODeploymentCopy c \<in> set (ol_items lst)" ..
  from some(1) obtain s where s: "s \<in> set (app_services a)" by (cases "app_services a") auto
  from forked_routing_mirrors_original [OF reads.steady_reads_axioms range_orders(1) build
      some_fork_namespace lst c s some_fork_keeps_routing]
  show ?thesis using build lst c s by blast
qed

text \<open>
  C23. Generating the lists of a built application fails in one way only: it panics with a nil
  dereference exactly when some deployment is to be copied and the template of the fork has
  no metadata. It never returns an error.
\<close>

theorem generated_lists_outcome:
  assumes "steady_reads env deps" and "range_order ord"
    and "meta_namespace (fork_meta fork) \<noteq> ''''"
    and "build_app env ord fork w = (Ok a, w')"
  shows "if app_deployments a \<noteq> [] \<and> template_without_metadata fork
    then generate_app_lists env ord a = Panic NilDereference
    else \<exists>dcs. generate_app_lists env ord a = Ok [dcs, generate_services ord a, generate_vsconfigs env a]"
proof -
  have fork: "app_fork a = fork" by (rule steady_reads.build_app_Ok [OF assms(1,4)])
  have "spec_deployments (fork_spec fork) \<noteq> None" if "app_deployments a \<noteq> []"
  proof
    assume none: "spec_deployments (fork_spec fork) = None"
    then have "candidate_deployments env deps fork w = []" by (simp add: candidate_deployments_def)
    with steady_reads.build_app_deployments(1) [OF assms(1,4,2,3)] that show False by simp
  qed
  then have panic: "generate_app_lists env ord a = Panic p \<longleftrightarrow>
      p = NilDereference \<and> app_deployments a \<noteq> [] \<and> template_without_metadata fork" for p
    by (auto simp: generate_app_lists_Panic fork)
  show ?thesis
  proof (cases "generate_app_lists env ord a")
    case (Ok ls)
    then show ?thesis using panic [of NilDereference] by (auto simp: generate_app_lists_def result_simps)
  next
    case (Panic p)
    with panic [of p] show ?thesis by simp
  qed (simp add: generate_app_lists_not_Err)
qed

theorem generated_lists_outcome_witness:
  "\<exists>a w'. build_app store_env name_order bare_fork start_world = (Ok a, w') \<and>
     generate_app_lists store_env name_order a = Panic NilDereference"
proof -
  have "(case fst (build_app store_env name_order bare_fork start_world) of Ok a \<Rightarrow>
      app_deployments a \<noteq> [] | _ \<Rightarrow> False)"
    by code_simp
  then obtain a w' where build: "build_app store_env name_order bare_fork start_world = (Ok a, w')"
    and some: "app_deployments a \<noteq> []"
    by (cases "build_app store_env name_order bare_fork start_world") (auto split: result.splits)
  have "meta_namespace (fork_meta bare_fork) \<noteq> ''''" "template_without_metadata bare_fork"
    by (simp_all add: bare_fork_def full_fork_def Let_def gen_fork_def template_without_metadata_def)
  with generated_lists_outcome [OF reads.steady_reads_axioms range_orders(1) _ build] build some show
      ?thesis by auto
qed

text \<open>
  C29. The order in which Go enumerates its maps cannot be observed: the update of a fork has
  the same outcome and leaves the same world for every two orders.
\<close>

theorem map_order_unobservable:
  assumes "range_order ord" "range_order ord'"
  shows "microservice_update env ord k w = microservice_update env ord' k w"
  by (rule microservice_update_order [OF assms])

theorem map_order_unobservable_witness:
  "microservice_update store_env name_order some_fork_key start_world =
   microservice_update store_env (\<lambda>S. rev (sorted_list_of_fset S)) some_fork_key start_world"
proof (rule map_order_unobservable)
  show "range_order (\<lambda>S :: string fset. rev (sorted_list_of_fset S))"
    using range_orders(1) by (simp add: range_order_def)
qed simp

text \<open>
  C16. Whatever its outcome, the update of a fork changes only DeploymentCopies, Services and
  VSConfigs in the namespace of the fork, and of those only objects that the fork owned and
  that are deleted, or that it owns now. Mappings and forks stay as they are.
\<close>

theorem fork_update_changes_own_objects:
  assumes "fork_cluster env scheme objs maps frks" and "range_order ord"
    and "microservice_update env ord q w = (res, w')"
  shows "maps w' = maps w \<and> frks w' = frks w \<and>
    (\<forall>r k. objs w' r k = objs w r k \<or>
      (\<exists>fork. frks w q = Some fork \<and> r \<in> {RDeploymentCopy, RService, RVSConfig} \<and>
        owned_change env (fork_owner fork) k (objs w r k) (objs w' r k)))"
proof -
  from keepsD [OF fork_cluster.microservice_update_keeps [OF assms(1)] assms(3)]
  have "maps w' = maps w" "frks w' = frks w" by auto
  moreover have "objs w' r k = objs w r k \<or>
      (\<exists>fork. frks w q = Some fork \<and> r \<in> {RDeploymentCopy, RService, RVSConfig} \<and>
        owned_change env (fork_owner fork) k (objs w r k) (objs w' r k))" for r k
    using fork_cluster.microservice_update_frame [OF assms(1,3,2), of r k] by (auto simp: fork_resources_def)
  ultimately show ?thesis by blast
qed

theorem fork_update_changes_own_objects_witness:
  "\<exists>w' fork s. microservice_update store_env name_order some_fork_key start_world = (Ok (), w') \<and>
     store_frks start_world some_fork_key = Some fork \<and>
     store_objs w' RService (NN ''some-namespace'' ''some-service-some-fork'') = Some s \<and>
     owned_by_parent store_env (obj_meta s) (fork_owner fork)"
proof -
  let ?run = "microservice_update store_env name_order some_fork_key start_world"
  let ?k = "NN ''some-namespace'' ''some-service-some-fork''"
  have "is_ok (fst ?run)" by code_simp
  from returned [OF this] obtain w' where run: "?run = (Ok (), w')" by auto
  have "\<not> Option.is_none (store_objs (snd ?run) RService ?k)" by code_simp
  then obtain s where s: "store_objs w' RService ?k = Some s" by (auto simp: run Option.is_none_def)
  have "store_objs start_world RService ?k = None"
    by (simp add: start_world_def object_key_def meta_key_def gen_service_def)
  with s fork_update_changes_own_objects [OF store.fork_cluster_axioms range_orders(1) run,
      THEN conjunct2, THEN conjunct2, rule_format, of RService ?k]
  obtain fork where "store_frks start_world some_fork_key = Some fork"
    "owned_change store_env (fork_owner fork) ?k (store_objs start_world RService ?k)
        (store_objs w' RService ?k)"
    by auto
  with s run show ?thesis by (auto simp: owned_change_def)
qed

text \<open>
  C3. When the update of a fork succeeds, it has built an application and realised its three
  lists: provided names fit 63 bytes, originals have different names and existing copies
  carry the names the program gives them, the fork owns exactly one DeploymentCopy for every
  collected deployment and one Service and one VSConfig for every target service, each with
  the generated spec.
\<close>

theorem fork_update_realises_application:
  assumes "fork_cluster env scheme objs maps frks" and "range_order ord"
    and "microservice_update env ord q w = (Ok u, w')"
    and "api_get (env_forks env) q w = (Ok fork, w0)" and "build_app env ord fork w0 = (Ok a, w1)"
    and "generate_deployment_copies ord a = Ok dcs"
    and "short_names a" "distinct_originals a"
    and "well_named env (fork_owner fork) dcs (objs w RDeploymentCopy)"
    and "well_named env (fork_owner fork) (generate_services ord a) (objs w RService)"
    and "well_named env (fork_owner fork) (generate_vsconfigs env a) (objs w RVSConfig)"
  shows "realised env scheme (fork_owner fork) dcs (objs w' RDeploymentCopy) \<and>
    realised env scheme (fork_owner fork) (generate_services ord a) (objs w' RService) \<and>
    realised env scheme (fork_owner fork) (generate_vsconfigs env a) (objs w' RVSConfig)"
proof -
  have "frks w q = Some fork" by (rule fork_cluster.fork_get [OF assms(1,4)])
  from fork_cluster.microservice_update_done [OF assms(1,3,2) this] assms(4-11) show ?thesis by auto
qed

theorem fork_update_realises_application_witness:
  "\<exists>w' a dcs. microservice_update store_env name_order some_fork_key start_world = (Ok (), w') \<and>
     build_app store_env name_order some_fork start_world = (Ok a, start_world) \<and>
     generate_deployment_copies name_order a = Ok dcs \<and>
     realised store_env store_scheme (fork_owner some_fork) dcs (store_objs w' RDeploymentCopy) \<and>
     realised store_env store_scheme (fork_owner some_fork) (generate_services name_order a)
         (store_objs w' RService) \<and>
     realised store_env store_scheme (fork_owner some_fork) (generate_vsconfigs store_env a)
         (store_objs w' RVSConfig)"
proof (rule some_app)
  fix a
  assume build: "build_app store_env name_order some_fork start_world = (Ok a, start_world)"
    and names: "short_names a" "distinct_originals a" and fork: "app_fork a = some_fork"
  from fork obtain dcs :: "client_object object_list"
      where dcs: "generate_deployment_copies name_order a = Ok dcs"
    by (rule some_copies)
  let ?run = "microservice_update store_env name_order some_fork_key start_world"
  have "is_ok (fst ?run)" by code_simp
  from returned [OF this] obtain w' where run: "?run = (Ok (), w')" by auto
  have get: "api_get (env_forks store_env) some_fork_key start_world = (Ok some_fork, start_world)"
    by (simp add: store_read_get_def start_world_def world_def stored_forks_def meta_key_def
        full_fork_def gen_fork_def Let_def)
  have none: "store_objs start_world r k = None" if "r \<noteq> RService" for r k
    using that by (simp add: start_world_def object_key_def)
  have "well_named store_env (fork_owner some_fork) lst (store_objs start_world RService)" for lst
    by (auto simp: well_named_def start_world_def gen_service_def owned_by_parent_def split: if_splits)
  moreover have "well_named store_env (fork_owner some_fork) lst (store_objs start_world RDeploymentCopy)"
    "well_named store_env (fork_owner some_fork) lst (store_objs start_world RVSConfig)" for lst
    by (simp_all add: well_named_def none)
  ultimately have "realised store_env store_scheme (fork_owner some_fork) dcs (store_objs w' RDeploymentCopy) \<and>
    realised store_env store_scheme (fork_owner some_fork) (generate_services name_order a)
        (store_objs w' RService) \<and>
    realised store_env store_scheme (fork_owner some_fork) (generate_vsconfigs store_env a)
        (store_objs w' RVSConfig)"
    by (intro fork_update_realises_application [OF store.fork_cluster_axioms range_orders(1) run get
        build dcs names])
  with run build dcs show ?thesis by blast
qed

end
