(* ===== verification/MappingProperties.thy ===== *)
theory MappingProperties
  imports Fixtures
begin

text \<open>Properties of the Mappings of a fork manager (\<^verbatim>\<open>domain/updater/mapping.go\<close>).\<close>

text \<open>
  C6. When the update of a manager succeeds, there is a desired Mapping at every name made of
  a fork identifier and an upstream, and every Mapping labelled with the manager's name, in
  whatever namespace, is one of these.
\<close>

theorem manager_update_realises_mappings:
  assumes "mapping_cluster env scheme maps" and "range_order ord" "range_order nn_ord"
    and "manager_inputs env slug w fm forks"
    and "mapping_update env ord nn_ord slug w = (Ok u, w')"
  shows "(\<forall>k \<in> desired_slugs fm forks. desired_mapping env scheme ord slug fm forks k (maps w' k)) \<and>
    (\<forall>k m. maps w' k = Some m \<longrightarrow> has_manager_label (nn_name slug) m \<longrightarrow> k \<in> desired_slugs fm forks)"
proof -
  from mapping_cluster.mapping_update_done [OF assms(1,5,2,3)] obtain fm' forks' where
    read: "manager_inputs env slug w fm' forks'"
    and "(\<forall>k \<in> desired_slugs fm' forks'. desired_mapping env scheme ord slug fm' forks' k (maps w' k)) \<and>
      (\<forall>k m. maps w' k = Some m \<longrightarrow> has_manager_label (nn_name slug) m \<longrightarrow> k \<in> desired_slugs fm' forks')" by blast
  moreover have "fm' = fm" "forks' = forks" using read assms(4) by (auto simp: manager_inputs_def)
  ultimately show ?thesis by simp
qed

theorem manager_update_realises_mappings_witness:
  "\<exists>w' m. mapping_update store_env name_order slug_order default_slug mapping_world = (Ok (), w') \<and>
     store_maps w' (NN ''ambassador'' ''sandbox-example-com-some-id'') = Some m \<and>
     desired_mapping store_env store_scheme name_order default_slug gen_fork_manager [typed_plain_fork]
       (NN ''ambassador'' ''sandbox-example-com-some-id'') (Some m)"
proof (rule mapping_world_run)
  fix w'
  assume run: "mapping_update store_env name_order slug_order default_slug mapping_world = (Ok (), w')"
  let ?k = "NN ''ambassador'' ''sandbox-example-com-some-id''"
  have "?k = mapping_slug gen_fork_manager ''some-id'' \<lparr>us_host = ''sandbox.example.com'',
      us_original = '''', us_host_rewrite = ''''\<rparr>"
    by (simp add: mapping_slug_def mapping_key_dots gen_fork_manager_def)
  then have "?k \<in> desired_slugs gen_fork_manager [typed_plain_fork]"
    by (auto simp: desired_slugs_def identifiers_def gen_fork_manager_def)
  with manager_update_realises_mappings [OF store.mapping_cluster_axioms range_orders mapping_world_inputs run]
  have desired: "desired_mapping store_env store_scheme name_order default_slug gen_fork_manager
      [typed_plain_fork] ?k
      (store_maps w' ?k)" by blast
  then obtain m where "store_maps w' ?k = Some m" by (auto simp: desired_mapping_def mapping_written_def)
  with desired run show ?thesis by auto
qed

text \<open>
  When the names made of the identifiers and the upstreams are pairwise different, each pair
  has its own Mapping, with the desired spec, the manager's label and the manager as controller.
\<close>

theorem each_upstream_has_its_mapping:
  assumes "mapping_cluster env scheme maps" and "range_order ord" "range_order nn_ord"
    and "manager_inputs env slug w fm forks"
    and "mapping_update env ord nn_ord slug w = (Ok u, w')"
    and "inj_on (\<lambda>(i, u). mapping_key u i) (identifiers forks \<times> set (fm_upstreams (fm_spec fm)))"
    and "i \<in> identifiers forks" "up \<in> set (fm_upstreams (fm_spec fm))"
  shows "\<exists>m. maps w' (mapping_slug fm i up) = Some m \<and>
    mp_spec m = desired_mapping_spec env ord fm up i (filter (\<lambda>f. spec_identifier (fork_spec f) = i) forks) \<and>
    meta_labels (mp_meta m) = fmupd manager_label_key (nn_name slug) fmempty \<and>
    controller_ref env scheme (fork_manager_owner fm) \<in> set (meta_owner_refs (mp_meta m))"
  using mapping_cluster.mapping_update_exact [OF assms(1,5,2,3,4,6,7,8)]
  by (auto simp: mapping_written_def forks_of_def)

theorem each_upstream_has_its_mapping_witness:
  "\<exists>w' m. mapping_update store_env name_order slug_order default_slug mapping_world = (Ok (), w') \<and>
     store_maps w' (NN ''ambassador'' ''sandbox-example-com-some-id'') = Some m \<and>
     mp_host (mp_spec m) = ''some-id.sandbox.example.com''"
proof (rule mapping_world_run)
  fix w'
  assume run: "mapping_update store_env name_order slug_order default_slug mapping_world = (Ok (), w')"
  let ?u = "\<lparr>us_host = ''sandbox.example.com'', us_original = '''', us_host_rewrite = ''''\<rparr>"
  have "inj_on (\<lambda>(i, u). mapping_key u i) (identifiers [typed_plain_fork] \<times> set
      (fm_upstreams (fm_spec gen_fork_manager)))"
    by (auto simp: inj_on_def identifiers_def gen_fork_manager_def mapping_key_dots)
  from each_upstream_has_its_mapping [OF store.mapping_cluster_axioms range_orders mapping_world_inputs
      run this,
      of "''some-id''" ?u]
  obtain m where "store_maps w' (mapping_slug gen_fork_manager ''some-id'' ?u) = Some m"
    "mp_spec m = desired_mapping_spec store_env name_order gen_fork_manager ?u ''some-id''
      (filter (\<lambda>f. spec_identifier (fork_spec f) = ''some-id'') [typed_plain_fork])"
    by (auto simp: identifiers_def gen_fork_manager_def)
  moreover have "mapping_slug gen_fork_manager ''some-id'' ?u =
      NN ''ambassador'' ''sandbox-example-com-some-id''"
    by (simp add: mapping_slug_def mapping_key_dots gen_fork_manager_def)
  ultimately show ?thesis using run by (auto simp: desired_spec_fields)
qed

text \<open>
  C20. Whatever its outcome, the update of a manager changes a Mapping only by writing a desired
  one or by deleting one that carries the manager's name and is not desired.
\<close>

theorem manager_update_changes_own_mappings:
  assumes "mapping_cluster env scheme maps" and "range_order ord" "range_order nn_ord"
    and "mapping_update env ord nn_ord slug w = (res, w')"
    and "maps w' k \<noteq> maps w k"
  shows "\<exists>fm forks. manager_inputs env slug w fm forks \<and>
    (case maps w' k of
       None \<Rightarrow> k \<notin> desired_slugs fm forks \<and> (\<exists>m. maps w k = Some m \<and> has_manager_label (nn_name slug) m)
     | Some m \<Rightarrow> desired_mapping env scheme ord slug fm forks k (Some m))"
proof -
  from mapping_cluster.mapping_update_frame [OF assms(1,4,2,3,5)] obtain fm forks where
    inputs: "manager_inputs env slug w fm forks" and
    "desired_mapping env scheme ord slug fm forks k (maps w' k) \<or>
     maps w' k = None \<and> k \<notin> desired_slugs fm forks \<and> (\<exists>m. maps w k = Some m \<and>
         has_manager_label (nn_name slug) m)"
    by blast
  then have "case maps w' k of
       None \<Rightarrow> k \<notin> desired_slugs fm forks \<and> (\<exists>m. maps w k = Some m \<and> has_manager_label (nn_name slug) m)
     | Some m \<Rightarrow> desired_mapping env scheme ord slug fm forks k (Some m)"
    by (cases "maps w' k") (auto simp: desired_mapping_def mapping_written_def)
  with inputs show ?thesis by blast
qed

theorem manager_update_changes_own_mappings_witness:
  "\<exists>w' fm forks. mapping_update store_env name_order slug_order default_slug mapping_world = (Ok (), w') \<and>
     store_maps w' (NN ''ambassador'' ''old'') = None \<and>
     store_maps mapping_world (NN ''ambassador'' ''old'') \<noteq> None \<and>
     manager_inputs store_env default_slug mapping_world fm forks \<and>
         NN ''ambassador'' ''old'' \<notin> desired_slugs fm forks"
proof (rule mapping_world_run)
  fix w'
  assume run: "mapping_update store_env name_order slug_order default_slug mapping_world = (Ok (), w')"
  let ?k = "NN ''ambassador'' ''old''"
  have "Option.is_none (store_maps (snd (mapping_update store_env name_order slug_order default_slug
      mapping_world)) ?k)"
    by code_simp
  then have gone: "store_maps w' ?k = None" by (simp add: run Option.is_none_def)
  have there: "store_maps mapping_world ?k \<noteq> None"
    by (simp add: mapping_world_def meta_key_def gen_mapping_def)
  have "store_maps w' ?k \<noteq> store_maps mapping_world ?k" using gone there by metis
  note change = manager_update_changes_own_mappings [OF store.mapping_cluster_axioms range_orders run, OF this]
  from change obtain fm forks where "manager_inputs store_env default_slug mapping_world fm forks"
    "?k \<notin> desired_slugs fm forks" unfolding gone option.case by blast
  with gone there run show ?thesis by blast
qed

text \<open>
  C32. The Mappings to delete are looked up by the name of the manager in all namespaces: after
  a successful update no Mapping with that name as label is left in another namespace, so a
  manager of the same name elsewhere loses all its Mappings.
\<close>

theorem same_named_manager_loses_mappings:
  assumes "mapping_cluster env scheme maps" and "range_order ord" "range_order nn_ord"
    and "mapping_update env ord nn_ord slug w = (Ok u, w')"
    and "maps w k = Some m" "has_manager_label (nn_name slug) m" "nn_namespace k \<noteq> nn_namespace slug"
  shows "maps w' k = None"
proof (rule ccontr)
  assume "maps w' k \<noteq> None"
  then obtain m' where m': "maps w' k = Some m'" by auto
  show False
  proof (cases "maps w' k = maps w k")
    case True
    with m' assms(5) have "m' = m" by simp
    with mapping_cluster.mapping_update_namespaces [OF assms(1,4,2,3) m'] assms(6,7) show False by simp
  next
    case False
    from mapping_cluster.mapping_update_frame [OF assms(1,4,2,3) False] m' have
        "has_manager_label (nn_name slug) m'"
      by (auto simp: desired_mapping_def mapping_written_def has_manager_label_def)
    with mapping_cluster.mapping_update_namespaces [OF assms(1,4,2,3) m'] assms(7) show False by simp
  qed
qed

theorem same_named_manager_loses_mappings_witness:
  "\<exists>w'. mapping_update store_env name_order slug_order default_slug mapping_world = (Ok (), w') \<and>
     store_maps mapping_world (NN ''elsewhere'' ''other'') \<noteq> None \<and>
         store_maps w' (NN ''elsewhere'' ''other'') = None"
proof (rule mapping_world_run)
  fix w'
  assume run: "mapping_update store_env name_order slug_order default_slug mapping_world = (Ok (), w')"
  let ?k = "NN ''elsewhere'' ''other''"
  obtain m where m: "store_maps mapping_world ?k = Some m" "has_manager_label (nn_name default_slug) m"
    by (simp add: mapping_world_def meta_key_def gen_mapping_def has_manager_label_def manager_label_key_def)
  from same_named_manager_loses_mappings [OF store.mapping_cluster_axioms range_orders run, OF m] m(1)
      run show ?thesis by simp
qed

text \<open>
  Where the Mapping of an identifier and an upstream sends a request, whatever the forks ask
  for: requests for the subdomain made of the identifier go to the original server, or to the
  upstream's host when there is none, in which case a host rewrite given for the upstream is
  ignored; with an original server the rewrite given is used, and otherwise its name without
  a port.
\<close>

theorem mapping_destination:
  "let d = desired_mapping_spec env ord fm upstream identifier forks in
   mp_host d = identifier @ ''.'' @ us_host upstream \<and> mp_ambassador_id d = [fm_ambassador_id (fm_spec fm)] \<and>
   (if us_original upstream = '''' then mp_service d = ''https://'' @ us_host upstream \<and>
       mp_host_rewrite d = ''''
    else mp_service d = us_original upstream \<and>
      mp_host_rewrite d = (if us_host_rewrite upstream = '''' then trim_port (us_original upstream) else
          us_host_rewrite upstream))"
  by (simp add: Let_def desired_spec_fields)

lemma host_rewrite_example:
  "map (\<lambda>u. mp_host_rewrite (desired_mapping_spec env ord gen_fork_manager_with_host_rewrite u
      identifier forks))
     (fm_upstreams (fm_spec gen_fork_manager_with_host_rewrite)) = [[], ''some-with-original.example.com'']"
  by (simp add: desired_spec_fields gen_fork_manager_with_host_rewrite_def)

text \<open>
  The headers a Mapping adds: the last fork that asks for a header decides its value, and
  otherwise \<open>x-forwarded-host\<close> is the authority and the manager's header is the identifier.
\<close>

theorem mapping_headers:
  assumes "range_order ord" and "string_sets_ok env"
  shows "fmlookup (mp_add_request_headers (desired_mapping_spec env ord fm upstream identifier forks)) h =
    (case last_requested forks h of
       Some v \<Rightarrow> Some (Some v)
     | None \<Rightarrow>
         if h = ''x-forwarded-host'' then Some (Some ''%REQ(:authority)%'')
         else if h = fm_header_key (fm_spec fm) then Some (Some identifier) else None)"
  by (simp add: desired_spec_headers [OF assms] mapping_base_spec_def Let_def split: option.split)

lemma fmupd_nonempty [simp]: "fmupd k v m \<noteq> fmempty"
  by (metis fmempty_lookup fmupd_lookup option.distinct(1))

lemma store_string_sets: "string_sets_ok store_env"
  by (simp add: string_sets_ok_def fset_of_list.abs_eq sorted_list_of_fset.rep_eq fset_inverse)

theorem mapping_headers_witness:
  "fmlookup (mp_add_request_headers (desired_mapping_spec store_env name_order gen_fork_manager
     \<lparr>us_host = ''sandbox.example.com'', us_original = '''', us_host_rewrite = ''''\<rparr> ''some-id''
     [gen_fork ''some-id'' (fmupd ''a'' ''1'' fmempty),
         gen_fork ''some-id'' (fmupd ''a'' ''2'' fmempty)])) ''a'' =
   Some (Some ''2'')"
  by (subst mapping_headers [OF range_orders(1) store_string_sets])
    (simp add: last_requested_def requested_headers_def gen_fork_def)

text \<open>
  The protocols a Mapping upgrades: websocket, and those asked for by forks that also ask
  for at least one header. A fork that asks for upgrades only is not heard.
\<close>

theorem mapping_upgrades:
  assumes "range_order ord" and "string_sets_ok env"
  shows "set (mp_allow_upgrade (desired_mapping_spec env ord fm upstream identifier forks)) =
    {''websocket''} \<union> {p. \<exists>f \<in> set forks. requested_headers f \<noteq> fmempty \<and> p \<in> set (requested_upgrades f)}"
proof -
  have "fset (fset_of_list (mp_allow_upgrade (desired_mapping_spec env ord fm upstream identifier forks))) =
    {''websocket''} \<union> {p. \<exists>f \<in> set forks. requested_headers f \<noteq> fmempty \<and> p \<in> set (requested_upgrades f)}"
    unfolding desired_spec_upgrades [OF assms] by (auto simp: fset_of_list.rep_eq)
  then show ?thesis by (simp add: fset_of_list.rep_eq)
qed

theorem mapping_upgrades_witness:
  "set (mp_allow_upgrade (desired_mapping_spec store_env name_order gen_fork_manager
     \<lparr>us_host = ''sandbox.example.com'', us_original = '''', us_host_rewrite = ''''\<rparr> ''some-id''
     [gen_fork_with ''some-id'' fmempty [set_for_upgrades ''spdy/3.1'']])) = {''websocket''}"
  by (subst mapping_upgrades [OF range_orders(1) store_string_sets])
    (simp add: requested_headers_def gen_fork_with_def set_for_upgrades_def gen_fork_def Let_def)

text \<open>Names up to dots and dashes.\<close>

definition dashed :: "string \<Rightarrow> string" where
  "dashed s = map (\<lambda>c. if c = CHR ''.'' then CHR ''-'' else c) s"

lemma mapping_key_dashed: "mapping_key u i = dashed (us_host u) @ ''-'' @ dashed i"
  by (simp add: mapping_key_dots dashed_def)

text \<open>
  Which Mappings share a name: two identifiers do for one upstream exactly when they agree up
  to dots and dashes, two upstreams do for one identifier exactly when their hosts agree that
  way, and the border between host and identifier is lost: a host that ends in a dash and a
  part of an identifier gives the same name as that identifier with the shorter host.
\<close>

theorem mapping_names_coincide:
  "(mapping_key u i = mapping_key u j \<longleftrightarrow> dashed i = dashed j) \<and>
   (mapping_key u i = mapping_key v i \<longleftrightarrow> dashed (us_host u) = dashed (us_host v)) \<and>
   mapping_key (u\<lparr>us_host := h @ ''-'' @ i\<rparr>) j = mapping_key (u\<lparr>us_host := h\<rparr>) (i @ ''-'' @ j)"
  by (simp add: mapping_key_dashed) (simp add: dashed_def)

end
