(* ===== verification/RoutingProperties.thy ===== *)
theory RoutingProperties
  imports Fixtures
begin

text \<open>
  Properties of the VirtualService of a service (\<^verbatim>\<open>domain/lister/virtualservice.go\<close>,
  \<^verbatim>\<open>domain/updater/virtualservice.go\<close>).
\<close>

text \<open>
  C8. Evaluated as Istio evaluates routes, the generated ones send a request to the service of
  the first VSConfig, by name, that is for this host, has a value, and whose header the request
  carries with that value; every other request goes to the service itself.
\<close>

theorem request_destination:
  "route_destination rx (build_http_routes a) hs =
   Some (case find (\<lambda>c. vsc_host (vsc_spec c) = meta_name (svc_meta (vl_service a)) \<and>
         vsc_header_value (vsc_spec c) \<noteq> '''' \<and>
         fmlookup hs (vsc_header_name (vsc_spec c)) = Some (vsc_header_value (vsc_spec c)))
             (vl_sorted_configs a) of
     Some c \<Rightarrow> [vsc_service (vsc_spec c)]
   | None \<Rightarrow> [meta_name (svc_meta (vl_service a))])"
proof -
  have "(\<lambda>c. config_applies a c \<and> requests hs c) = (\<lambda>c. vsc_host (vsc_spec c) =
      meta_name (svc_meta (vl_service a)) \<and>
         vsc_header_value (vsc_spec c) \<noteq> '''' \<and>
         fmlookup hs (vsc_header_name (vsc_spec c)) = Some (vsc_header_value (vsc_spec c)))"
    by (auto simp: config_applies_def requests_def)
  then show ?thesis by (simp add: route_destination_spec)
qed

text \<open>
  C19. After a successful update, the service owns the VirtualService that the VSConfigs of its
  namespace ask for, or none when no VSConfig applies to it.
\<close>

theorem service_update_realises_routes:
  assumes "fork_cluster env scheme objs maps frks"
    and "virtual_service_update env q w = (Ok u, w')"
    and "api_get (env_services env) q w = (Ok s, w0)" "build_vs_lister env q w0 = (Ok a, w1)"
    and "well_named env (service_owner s) (build_virtual_service env a) (objs w RVirtualService)"
  shows "if \<exists>c \<in> set (vl_sorted_configs a). config_applies a c
    then \<exists>name t. objs w' RVirtualService (NN (meta_namespace (svc_meta s)) name) = Some (OVirtualService t) \<and>
      vs_spec t = \<lparr>vs_hosts = [meta_name (svc_meta (vl_service a))], vs_http = build_http_routes a\<rparr> \<and>
      owned_by_parent env (vs_meta t) (service_owner s)
    else \<forall>k x. objs w' RVirtualService k = Some x \<longrightarrow> in_parent_namespace (service_owner s) k \<longrightarrow>
      \<not> owned_by_parent env (obj_meta x) (service_owner s)"
proof -
  from fork_cluster.virtual_service_update_done [OF assms(1,2)] assms(3-5) have
    real: "realised env scheme (service_owner s) (build_virtual_service env a)
        (objs w' RVirtualService)" by auto
  have kind: "ow_gvk (service_owner s) = scheme (ow_go_type (service_owner s))"
    by (rule fork_cluster.service_owner_kind [OF assms(1,3)])
  show ?thesis
  proof (cases "\<exists>c \<in> set (vl_sorted_configs a). config_applies a c")
    case True
    let ?x = "OVirtualService (virtual_service_of a (build_http_routes a))"
    from True have "?x \<in> set (ol_items (build_virtual_service env a))"
      by (simp add: build_virtual_service_items)
    with real obtain name t where
      t: "objs w' RVirtualService (NN (meta_namespace (ow_meta (service_owner s))) name) = Some t"
        "written env scheme (service_owner s) name ?x t"
      unfolding realised_def by blast
    from written_parts(1) [OF t(2)] obtain v where v: "t = OVirtualService v" by (auto simp: resource_of_eqs)
    have "vs_spec v = \<lparr>vs_hosts = [meta_name (svc_meta (vl_service a))], vs_http = build_http_routes a\<rparr>"
      using written_parts(4) [OF t(2)] by (simp add: v virtual_service_of_def Let_def)
    with True t(1) written_owned [OF t(2) kind] show ?thesis by (auto simp: v service_owner_def)
  next
    case False
    then have "ol_items (build_virtual_service env a) = []" by (simp add: build_virtual_service_items)
    with real False show ?thesis unfolding realised_def by auto
  qed
qed

theorem service_update_realises_routes_witness:
  "\<exists>w' name t. virtual_service_update store_env some_service_key vs_world = (Ok (), w') \<and>
     store_objs w' RVirtualService (NN ''some-namespace'' name) = Some (OVirtualService t) \<and>
     vs_hosts (vs_spec t) = [''some-service''] \<and> length (vs_http (vs_spec t)) = 2"
proof -
  let ?run = "virtual_service_update store_env some_service_key vs_world"
  let ?config = "(gen_vsconfig ''some-service'' ''some-id'')\<lparr>vsc_type := fork_group_kind ''VSConfig''\<rparr>"
  let ?a = "\<lparr>vl_sorted_configs = [?config], vl_service = some_service\<rparr>"
  have "is_ok (fst ?run)" by code_simp
  from returned [OF this] obtain w' where run: "?run = (Ok (), w')" by auto
  have services: "stored_services vs_world = [some_service]"
    and configs: "stored_vsconfigs vs_world = [?config]"
    by (simp_all add: stored_services_def stored_vsconfigs_def vs_world_def world_def some_service_def
        gen_service_def)
  have key: "meta_key (svc_meta some_service) = some_service_key"
    by (simp add: some_service_def gen_service_def meta_key_def)
  have get: "api_get (env_services store_env) some_service_key vs_world = (Ok some_service, vs_world)"
    by (simp add: store_read_get_def services key)
  have build: "build_vs_lister store_env some_service_key vs_world = (Ok ?a, vs_world)"
    by (simp add: build_vs_lister_def bind_eff_def store_read_list_def store_items_def configs
        list_del_def admits_def
        in_namespace_def store_read_get_def services key) (simp add: gen_vsconfig_def)
  have applies: "config_applies ?a ?config"
    by (simp add: config_applies_def gen_vsconfig_def some_service_def gen_service_def)
  have "well_named store_env (service_owner some_service) (build_virtual_service store_env ?a)
      (store_objs vs_world RVirtualService)"
    using vs_world_well_named
    by (auto simp: well_named_def vs_world_def object_key_def meta_key_def old_virtual_service_def
        foreign_virtual_service_def gen_vs_def build_virtual_service_items applies virtual_service_of_def
        build_virtual_service_def Let_def last_host_def owned_by_parent_def some_service_def
            gen_service_def split: if_splits)
  from service_update_realises_routes [OF store.fork_cluster_axioms run get build this] applies
      obtain name t where
    "store_objs w' RVirtualService (NN (meta_namespace (svc_meta some_service)) name) =
        Some (OVirtualService t)"
    "vs_spec t = \<lparr>vs_hosts = [meta_name (svc_meta some_service)], vs_http = build_http_routes ?a\<rparr>" by auto
  moreover have "length (build_http_routes ?a) = 2" using applies by (simp add: build_http_routes_def)
  moreover have "meta_namespace (svc_meta some_service) = ''some-namespace''"
      "meta_name (svc_meta some_service) = ''some-service''"
    by (simp_all add: some_service_def gen_service_def)
  ultimately show ?thesis using run by (intro exI [of _ w'] exI [of _ name] exI [of _ t]) simp
qed

text \<open>
  Whatever its outcome, the update of a service changes only VirtualServices in its
  namespace that it owned and that are deleted, or that it owns now.
\<close>

theorem service_update_changes_own_objects:
  assumes "fork_cluster env scheme objs maps frks"
    and "virtual_service_update env q w = (res, w')"
  shows "maps w' = maps w \<and> frks w' = frks w \<and>
    (\<forall>r k. objs w' r k = objs w r k \<or>
      (\<exists>s w0. api_get (env_services env) q w = (Ok s, w0) \<and> r = RVirtualService \<and>
        owned_change env (service_owner s) k (objs w r k) (objs w' r k)))"
proof -
  from keepsD [OF fork_cluster.virtual_service_update_keeps [OF assms(1)] assms(2)]
  have "maps w' = maps w" "frks w' = frks w" by auto
  with fork_cluster.virtual_service_update_frame [OF assms(1,2)] show ?thesis by blast
qed

theorem service_update_changes_own_objects_witness:
  "\<exists>w' s. virtual_service_update store_env some_service_key vs_world = (Ok (), w') \<and>
     store_objs w' RVirtualService (NN ''some-namespace'' ''old'') = None \<and>
     owned_change store_env (service_owner s) (NN ''some-namespace'' ''old'')
       (store_objs vs_world RVirtualService (NN ''some-namespace'' ''old'')) None"
proof -
  let ?run = "virtual_service_update store_env some_service_key vs_world"
    and ?k = "NN ''some-namespace'' ''old''"
  have "is_ok (fst ?run)" by code_simp
  from returned [OF this] obtain w' where run: "?run = (Ok (), w')" by auto
  have "Option.is_none (store_objs (snd ?run) RVirtualService ?k)" by code_simp
  then have gone: "store_objs w' RVirtualService ?k = None" by (simp add: run Option.is_none_def)
  have "\<not> Option.is_none (store_objs vs_world RVirtualService ?k)" by code_simp
  then have "store_objs vs_world RVirtualService ?k \<noteq> None" by (simp add: Option.is_none_def)
  with gone service_update_changes_own_objects [OF store.fork_cluster_axioms run,
      THEN conjunct2, THEN conjunct2, rule_format, of RVirtualService ?k]
  obtain s where "owned_change store_env (service_owner s) ?k (store_objs vs_world RVirtualService ?k) None"
    by auto
  with gone run show ?thesis by blast
qed

end
