(* ===== verification/Startup.thy ===== *)
theory Startup
  imports Controllers ForkWatcher Kubeforkctl
begin

text \<open>
  How the programs start: \<^verbatim>\<open>main.go\<close>, the \<open>SetupWithManager\<close> functions of \<^verbatim>\<open>controllers\<close>, the
  configuration of \<^verbatim>\<open>pkg/middleware/honeybadger.go\<close>, the registration of the types of \<^verbatim>\<open>api/v1beta1\<close> and the
  command tree of \<^verbatim>\<open>kubeforkctl/cmd\<close>. controller-runtime's manager, its builder of schemes and cobra are
  parameters.
\<close>

section \<open>The manager\<close>

text \<open>
  The calls on a manager. \<open>mgr_complete\<close> is the chain from \<open>NewControllerManagedBy\<close> to \<open>Complete\<close>,
  given what the chain has collected: the type reconciled, the channels watched and the
  reconciler, which is nil or a function.
\<close>

datatype controlled = ControlsFork | ControlsVSConfig | ControlsService

datatype channel_source = WatcherChannel

record 'w controller_spec =
  cs_for :: controlled
  cs_watches :: "channel_source list"
  cs_reconciler :: "(namespaced_name \<Rightarrow> ('w, unit) eff) option"

text \<open>The watcher added to the manager, with its period in nanoseconds.\<close>

record watcher_config =
  wc_channel :: channel_source
  wc_tick_time :: int

record ('m, 'w) manager_api =
  mgr_add :: "watcher_config \<Rightarrow> ('m, unit) eff"
  mgr_complete :: "'w controller_spec \<Rightarrow> ('m, unit) eff"
  mgr_add_healthz_check :: "string \<Rightarrow> ('m, unit) eff"
  mgr_add_readyz_check :: "string \<Rightarrow> ('m, unit) eff"
  mgr_start :: "('m, unit) eff"

section \<open>The reconcilers (controllers)\<close>

text \<open>
  \<open>ForkReconciler\<close> reads the time from its clock when it reconciles, taken to be the time at which
  the reconcile begins; \<open>SetupForkWatcher\<close> gives it the real clock when it has none. The other
  reconcilers have no state of their own.
\<close>

definition fork_reconciler ::
  "('w, 'u) env \<Rightarrow> string order \<Rightarrow> namespaced_name order \<Rightarrow> ('w \<Rightarrow> time) \<Rightarrow> namespaced_name \<Rightarrow> ('w, unit) eff" where
  "fork_reconciler env ord nn_ord clock req w = reconcile_fork env ord nn_ord (clock w) req w"

definition setup_fork_watcher ::
  "('m, 'w) manager_api \<Rightarrow> ('w \<Rightarrow> time) \<Rightarrow> ('w \<Rightarrow> time) option \<Rightarrow> ('m, channel_source \<times> ('w \<Rightarrow> time)) eff" where
  "setup_fork_watcher mgr real_clock clock =
     (let clock = (case clock of None \<Rightarrow> real_clock | Some c \<Rightarrow> c);
          watcher = \<lparr>wc_channel = WatcherChannel, wc_tick_time = 60 * 1000000000\<rparr>
      in bind_eff (\<lambda>m. case mgr_add mgr watcher m of (r, m1) \<Rightarrow>
          (wrap_error ''failed to add fork watcher'' r, m1))
           (\<lambda>_. return (wc_channel watcher, clock)))"

definition setup_fork_reconciler ::
  "('m, 'w) manager_api \<Rightarrow> (error \<Rightarrow> 'w \<Rightarrow> 'w) \<Rightarrow> ('w, 'u) env \<Rightarrow> string order \<Rightarrow> namespaced_name order \<Rightarrow>
   ('w \<Rightarrow> time) \<Rightarrow> ('w \<Rightarrow> time) option \<Rightarrow> ('m, unit) eff" where
  "setup_fork_reconciler mgr notify env ord nn_ord real_clock clock =
     bind_eff (setup_fork_watcher mgr real_clock clock) (\<lambda>(channel, clock).
     mgr_complete mgr
       \<lparr>cs_for = ControlsFork, cs_watches = [channel],
        cs_reconciler = honeybadger notify (Some (fork_reconciler env ord nn_ord clock))\<rparr>)"

definition setup_vsconfig_reconciler ::
  "('m, 'w) manager_api \<Rightarrow> (error \<Rightarrow> 'w \<Rightarrow> 'w) \<Rightarrow> ('w, 'u) env \<Rightarrow> ('m, unit) eff" where
  "setup_vsconfig_reconciler mgr notify env =
     mgr_complete mgr
       \<lparr>cs_for = ControlsVSConfig, cs_watches = [],
        cs_reconciler = honeybadger notify (Some (reconcile_vsconfig env))\<rparr>"

definition setup_service_reconciler ::
  "('m, 'w) manager_api \<Rightarrow> (error \<Rightarrow> 'w \<Rightarrow> 'w) \<Rightarrow> ('w, 'u) env \<Rightarrow> ('m, unit) eff" where
  "setup_service_reconciler mgr notify env =
     mgr_complete mgr
       \<lparr>cs_for = ControlsService, cs_watches = [],
        cs_reconciler = honeybadger notify (Some (reconcile_service env))\<rparr>"

section \<open>The configuration of Honeybadger (honeybadger.go)\<close>

text \<open>\<open>os.Getenv\<close> gives the empty string for a variable that is not set.\<close>

record honeybadger_config =
  hb_api_key :: string
  hb_env :: string

definition honeybadger_init :: "(string \<Rightarrow> string) \<Rightarrow> honeybadger_config option" where
  "honeybadger_init getenv =
     (let api_key = getenv ''HONEYBADGER_API_KEY''
      in if api_key = '''' then None
         else let app_env = getenv ''APP_ENV'' in Some \<lparr>hb_api_key = api_key, hb_env = app_env\<rparr>)"

section \<open>The types of the API group (api/v1beta1)\<close>

text \<open>
  \<open>scheme.Builder\<close> of controller-runtime: \<open>Register\<close> collects types of a group and version, \<open>AddToScheme\<close>
  adds what has been collected to a scheme.
\<close>

datatype api_type = TypeFork | TypeForkList | TypeForkManager | TypeForkManagerList | TypeVSConfig |
    TypeVSConfigList

record ('b, 's) builder_api =
  sb_new :: "string \<Rightarrow> string \<Rightarrow> 'b"
  sb_register :: "'b \<Rightarrow> api_type list \<Rightarrow> 'b"
  sb_add_to_scheme :: "'b \<Rightarrow> ('s, unit) eff"

definition new_scheme_builder :: "('b, 's) builder_api \<Rightarrow> 'b" where
  "new_scheme_builder api = sb_new api ''fork.k8s.wantedly.com'' ''v1beta1''"

text \<open>The \<open>init\<close> functions of the files, which run in the order of the names of the files.\<close>

definition fork_types_init :: "('b, 's) builder_api \<Rightarrow> 'b \<Rightarrow> 'b" where
  "fork_types_init api b = sb_register api b [TypeFork, TypeForkList]"

definition fork_manager_types_init :: "('b, 's) builder_api \<Rightarrow> 'b \<Rightarrow> 'b" where
  "fork_manager_types_init api b = sb_register api b [TypeForkManager, TypeForkManagerList]"

definition vsconfig_types_init :: "('b, 's) builder_api \<Rightarrow> 'b \<Rightarrow> 'b" where
  "vsconfig_types_init api b = sb_register api b [TypeVSConfig, TypeVSConfigList]"

definition add_to_scheme :: "('b, 's) builder_api \<Rightarrow> ('s, unit) eff" where
  "add_to_scheme api =
     sb_add_to_scheme api
       (vsconfig_types_init api (fork_manager_types_init api (fork_types_init api (new_scheme_builder api))))"

text \<open>
  \<open>init\<close> of \<^verbatim>\<open>main.go\<close>: the groups of client-go, of the program, of the duplicator, of Istio and of
  Ambassador, each of which has to be added without an error (\<open>utilruntime.Must\<close>).
\<close>

definition must :: "('s, unit) eff \<Rightarrow> ('s, unit) eff" where
  "must f s = (case f s of (Err e, s1) \<Rightarrow> (Panic (MustFailed e), s1) | r \<Rightarrow> r)"

definition main_init ::
  "('b, 's) builder_api \<Rightarrow> ('s, unit) eff \<Rightarrow> ('s, unit) eff \<Rightarrow> ('s, unit) eff \<Rightarrow> ('s, unit) eff \<Rightarrow>
      ('s, unit) eff" where
  "main_init api client_go duplicator istio ambassador =
     bind_eff (must client_go) (\<lambda>_. bind_eff (must (add_to_scheme api)) (\<lambda>_. bind_eff (must duplicator) (\<lambda>_.
     bind_eff (must istio) (\<lambda>_. must ambassador))))"

section \<open>The controller (main.go)\<close>

record main_flags =
  mf_metrics_addr :: string
  mf_probe_addr :: string
  mf_enable_leader_election :: bool

definition default_main_flags :: main_flags where
  "default_main_flags = \<lparr>mf_metrics_addr = '':8080'', mf_probe_addr = '':8081'',
      mf_enable_leader_election = False\<rparr>"

record manager_options =
  mo_metrics_bind_address :: string
  mo_port :: int
  mo_health_probe_bind_address :: string
  mo_leader_election :: bool
  mo_leader_election_id :: string

definition manager_options_of :: "main_flags \<Rightarrow> manager_options" where
  "manager_options_of flags =
     \<lparr>mo_metrics_bind_address = mf_metrics_addr flags, mo_port = 9443,
      mo_health_probe_bind_address = mf_probe_addr flags,
      mo_leader_election = mf_enable_leader_election flags,
      mo_leader_election_id = ''82aeab55.k8s.wantedly.com''\<rparr>"

text \<open>How a program ends: an error is logged with a message and the process exits with a status.\<close>

datatype program_end = Finished | Exited nat string error | Crashed panic

definition or_exit :: "string \<Rightarrow> ('m, 'a) eff \<Rightarrow> ('a \<Rightarrow> 'm \<Rightarrow> program_end \<times> 'm) \<Rightarrow> 'm \<Rightarrow> program_end \<times> 'm" where
  "or_exit message f k m =
     (case f m of
        (Ok x, m1) \<Rightarrow> k x m1
      | (Err e, m1) \<Rightarrow> (Exited 1 message e, m1)
      | (Panic p, m1) \<Rightarrow> (Crashed p, m1))"

definition main_run ::
  "(manager_options \<Rightarrow> ('m, ('m, 'w) manager_api) eff) \<Rightarrow> (error \<Rightarrow> 'w \<Rightarrow> 'w) \<Rightarrow> ('w \<Rightarrow> time) \<Rightarrow>
   ('w, 'u) env \<Rightarrow> string order \<Rightarrow> namespaced_name order \<Rightarrow> main_flags \<Rightarrow> 'm \<Rightarrow> program_end \<times> 'm" where
  "main_run new_manager notify real_clock env ord nn_ord flags =
     or_exit ''unable to start manager'' (new_manager (manager_options_of flags)) (\<lambda>mgr.
     or_exit ''unable to create controller'' (setup_vsconfig_reconciler mgr notify env) (\<lambda>_.
     or_exit ''unable to create controller''
       (setup_fork_reconciler mgr notify env ord nn_ord real_clock None) (\<lambda>_.
     or_exit ''unable to set up health check'' (mgr_add_healthz_check mgr ''healthz'') (\<lambda>_.
     or_exit ''unable to set up ready check'' (mgr_add_readyz_check mgr ''readyz'') (\<lambda>_.
     or_exit ''problem running manager'' (mgr_start mgr) (\<lambda>_ m. (Finished, m)))))))"

section \<open>The command tree (kubeforkctl/cmd/root.go)\<close>

text \<open>A command: its name, what it runs on the parsed options, and its subcommands.\<close>

datatype 'w command = Command string "('w, unit) eff option" "'w command list"

definition new_manifest_cmd :: "('w, unit) eff \<Rightarrow> 'w command" where
  "new_manifest_cmd manifest = Command ''manifest'' (Some manifest) []"

definition subcommands :: "('w, unit) eff \<Rightarrow> 'w command list" where
  "subcommands manifest = [new_manifest_cmd manifest]"

definition new_root_command :: "'w command list \<Rightarrow> 'w command" where
  "new_root_command subs = Command ''kubeforkctl'' None subs"

text \<open>\<open>run\<close> is the \<open>Execute\<close> of cobra, which parses the command line.\<close>

definition execute ::
  "('w command \<Rightarrow> ('w, unit) eff) \<Rightarrow> ('w, unit) eff \<Rightarrow> 'w \<Rightarrow> program_end \<times> 'w" where
  "execute run manifest =
     or_exit '''' (run (new_root_command (subcommands manifest))) (\<lambda>_ w. (Finished, w))"

section \<open>What gets registered\<close>

text \<open>
  \<open>types\<close> are the types that a builder has collected, \<open>known\<close> those that a scheme knows, of which no
  package takes any away.
\<close>

definition collects_types :: "('b, 's) builder_api \<Rightarrow> ('b \<Rightarrow> api_type set) \<Rightarrow> ('s \<Rightarrow> api_type set) \<Rightarrow> bool" where
  "collects_types api types known \<longleftrightarrow>
     (\<forall>b ts. types (sb_register api b ts) = types b \<union> set ts) \<and>
     (\<forall>b s s' u. sb_add_to_scheme api b s = (Ok u, s') \<longrightarrow> types b \<union> known s \<subseteq> known s')"

definition adds_types :: "('s \<Rightarrow> api_type set) \<Rightarrow> ('s, unit) eff \<Rightarrow> bool" where
  "adds_types known f \<longleftrightarrow> (\<forall>s s' u. f s = (Ok u, s') \<longrightarrow> known s \<subseteq> known s')"

lemma must_Ok: "must f s = (Ok u, s') \<longleftrightarrow> f s = (Ok u, s')"
  by (auto simp: must_def split: prod.splits result.splits)

text \<open>A start that gets past \<open>init\<close> knows all types of the program; one that does not has panicked.\<close>

lemma main_init_registers:
  assumes "collects_types api types known"
    and "adds_types known client_go" "adds_types known duplicator" "adds_types known istio"
        "adds_types known ambassador"
    and "main_init api client_go duplicator istio ambassador s = (r, s')"
  shows "(is_ok r \<longrightarrow> {TypeFork, TypeForkList, TypeForkManager, TypeForkManagerList, TypeVSConfig,
      TypeVSConfigList} \<subseteq> known s') \<and>
    (\<forall>e. r \<noteq> Err e)"
proof (intro conjI impI allI)
  show "r \<noteq> Err e" for e
    using assms(6) by (auto simp: main_init_def must_def bind_eff_def split: prod.splits result.splits)
  assume "is_ok r"
  with assms(6) have "main_init api client_go duplicator istio ambassador s = (Ok (), s')" by (cases r) auto
  then obtain s1 s2 s3 s4 where "add_to_scheme api s1 = (Ok (), s2)" "duplicator s2 = (Ok (), s3)"
      "istio s3 = (Ok (), s4)"
    "ambassador s4 = (Ok (), s')" by (auto simp: main_init_def eff_simps must_Ok)
  note run = this
  let ?b = "vsconfig_types_init api (fork_manager_types_init api
      (fork_types_init api (new_scheme_builder api)))"
  have builder: "types (sb_register api b ts) = types b \<union> set ts" for b ts
    using assms(1) unfolding collects_types_def by blast
  have "{TypeFork, TypeForkList, TypeForkManager, TypeForkManagerList, TypeVSConfig, TypeVSConfigList} \<subseteq>
      types ?b"
    by (simp add: builder vsconfig_types_init_def fork_manager_types_init_def fork_types_init_def)
  also have "types ?b \<subseteq> known s2"
    using run(1) assms(1) unfolding add_to_scheme_def collects_types_def by blast
  also have "known s2 \<subseteq> known s3" using run(2) assms(3) unfolding adds_types_def by blast
  also have "known s3 \<subseteq> known s4" using run(3) assms(4) unfolding adds_types_def by blast
  also have "known s4 \<subseteq> known s'" using run(4) assms(5) unfolding adds_types_def by blast
  finally show "{TypeFork, TypeForkList, TypeForkManager, TypeForkManagerList, TypeVSConfig,
      TypeVSConfigList} \<subseteq> known s'" .
qed

section \<open>The calls of the start\<close>

text \<open>
  The calls on controller-runtime, each recorded with its outcome by a manager that passes them on. Nothing
  is assumed of what the manager replies.
\<close>

datatype 'w start_call =
    NewManager manager_options
  | AddRunnable watcher_config
  | Complete "'w controller_spec"
  | AddHealthzCheck string
  | AddReadyzCheck string
  | StartManager

type_synonym 'w start_log = "('w start_call \<times> unit result) list"

definition logged :: "'w start_call \<Rightarrow> ('m, 'a) eff \<Rightarrow> ('m \<times> 'w start_log, 'a) eff" where
  "logged c f ml = (case f (fst ml) of (r, m1) \<Rightarrow> (r, (m1, snd ml @ [(c, bind_result r (\<lambda>_. Ok ()))])))"

definition logging_manager :: "('m, 'w) manager_api \<Rightarrow> ('m \<times> 'w start_log, 'w) manager_api" where
  "logging_manager mgr =
     \<lparr>mgr_add = (\<lambda>c. logged (AddRunnable c) (mgr_add mgr c)),
      mgr_complete = (\<lambda>spec. logged (Complete spec) (mgr_complete mgr spec)),
      mgr_add_healthz_check = (\<lambda>n. logged (AddHealthzCheck n) (mgr_add_healthz_check mgr n)),
      mgr_add_readyz_check = (\<lambda>n. logged (AddReadyzCheck n) (mgr_add_readyz_check mgr n)),
      mgr_start = logged StartManager (mgr_start mgr)\<rparr>"

definition logging ::
  "(manager_options \<Rightarrow> ('m, ('m, 'w) manager_api) eff) \<Rightarrow> manager_options \<Rightarrow>
   ('m \<times> 'w start_log, ('m \<times> 'w start_log, 'w) manager_api) eff" where
  "logging new_manager mo =
     bind_eff (logged (NewManager mo) (new_manager mo)) (\<lambda>mgr. return (logging_manager mgr))"

text \<open>
  What a start has to do: every call in its order, with the message that is logged when it fails. The one
  error that is wrapped is that of the watcher.
\<close>

definition start_calls ::
  "(error \<Rightarrow> 'w \<Rightarrow> 'w) \<Rightarrow> ('w \<Rightarrow> time) \<Rightarrow> ('w, 'u) env \<Rightarrow> string order \<Rightarrow> namespaced_name order \<Rightarrow>
   main_flags \<Rightarrow> (string \<times> 'w start_call) list" where
  "start_calls notify real_clock env ord nn_ord flags =
     [(''unable to start manager'', NewManager
        \<lparr>mo_metrics_bind_address = mf_metrics_addr flags, mo_port = 9443,
         mo_health_probe_bind_address = mf_probe_addr flags,
         mo_leader_election = mf_enable_leader_election flags,
         mo_leader_election_id = ''82aeab55.k8s.wantedly.com''\<rparr>),
      (''unable to create controller'', Complete
        \<lparr>cs_for = ControlsVSConfig, cs_watches = [],
         cs_reconciler = Some (hb_reconcile notify (reconcile_vsconfig env))\<rparr>),
      (''unable to create controller'', AddRunnable \<lparr>wc_channel = WatcherChannel, wc_tick_time = 60000000000\<rparr>),
      (''unable to create controller'', Complete
        \<lparr>cs_for = ControlsFork, cs_watches = [WatcherChannel],
         cs_reconciler = Some (hb_reconcile notify (\<lambda>req w. reconcile_fork env ord nn_ord (real_clock w)
             req w))\<rparr>),
      (''unable to set up health check'', AddHealthzCheck ''healthz''),
      (''unable to set up ready check'', AddReadyzCheck ''readyz''),
      (''problem running manager'', StartManager)]"

fun exit_error :: "'w start_call \<Rightarrow> error \<Rightarrow> error" where
  "exit_error (AddRunnable c) e = Wrapped ''failed to add fork watcher'' e"
| "exit_error c e = e"

text \<open>
  A log that keeps to the calls expected, and how the program ends then: at the first error with status 1,
  at the first panic with a crash, and normally only after all of them.
\<close>

fun start_protocol :: "(string \<times> 'w start_call) list \<Rightarrow> program_end \<Rightarrow> 'w start_log \<Rightarrow> bool" where
  "start_protocol [] r calls = (r = Finished \<and> calls = [])"
| "start_protocol ((message, c) # expected) r [] = False"
| "start_protocol ((message, c) # expected) r ((c', reply) # calls) =
     (c' = c \<and>
      (case reply of
         Ok _ \<Rightarrow> start_protocol expected r calls
       | Err e \<Rightarrow> r = Exited 1 message (exit_error c e) \<and> calls = []
       | Panic p \<Rightarrow> r = Crashed p \<and> calls = []))"

definition follows ::
  "(string \<times> 'w start_call) list \<Rightarrow> ('m \<times> 'w start_log \<Rightarrow> program_end \<times> ('m \<times> 'w start_log)) \<Rightarrow>
   ('m \<Rightarrow> program_end \<times> 'm) \<Rightarrow> bool" where
  "follows expected k' k \<longleftrightarrow>
     (\<forall>m calls. \<exists>more. k' (m, calls) = (fst (k m), (snd (k m), calls @ more)) \<and>
         start_protocol expected (fst (k m)) more)"

lemma follows_finished: "follows [] (\<lambda>m. (Finished, m)) (\<lambda>m. (Finished, m))"
  by (simp add: follows_def)

text \<open>The outcome of a call, with its error wrapped where the code wraps it.\<close>

lemma follows_mapped_call:
  assumes "\<And>x. g (Ok x) = Ok x" "\<And>e. g (Err e) = Err (exit_error c e)" "\<And>p. g (Panic p) = Panic p"
    and "\<And>x. follows expected (k' x) (k x)"
  shows "follows ((message, c) # expected)
    (or_exit message (\<lambda>m. case logged c f m of (r, m1) \<Rightarrow> (g r, m1)) k')
    (or_exit message (\<lambda>m. case f m of (r, m1) \<Rightarrow> (g r, m1)) k)"
  unfolding follows_def
proof (intro allI)
  fix m calls
  let ?f' = "\<lambda>m. case logged c f m of (r, m1) \<Rightarrow> (g r, m1)" and ?f = "\<lambda>m. case f m of (r, m1) \<Rightarrow> (g r, m1)"
  obtain r m1 where f: "f m = (r, m1)" by (cases "f m")
  show "\<exists>more. or_exit message ?f' k' (m, calls) =
      (fst (or_exit message ?f k m), (snd (or_exit message ?f k m), calls @ more)) \<and>
      start_protocol ((message, c) # expected) (fst (or_exit message ?f k m)) more"
  proof (cases r)
    case (Ok x)
    from assms(4) [of x] obtain more where "k' x (m1, calls @ [(c, Ok ())]) =
        (fst (k x m1), (snd (k x m1), (calls @ [(c, Ok ())]) @ more))"
            "start_protocol expected (fst (k x m1)) more"
      unfolding follows_def by blast
    then show ?thesis
      by (intro exI [of _ "(c, Ok ()) # more"]) (simp add: or_exit_def logged_def f Ok assms(1))
  qed (simp_all add: or_exit_def logged_def f assms(2,3))
qed

lemma follows_call:
  assumes "\<And>e. exit_error c e = e" and "\<And>x. follows expected (k' x) (k x)"
  shows "follows ((message, c) # expected) (or_exit message (logged c f) k') (or_exit message f k)"
  using follows_mapped_call [of "\<lambda>r. r" c, OF _ _ _ assms(2)] assms(1) by simp

lemma follows_watcher:
  assumes "\<And>x. follows expected (k' x) (k x)"
  shows "follows ((message, AddRunnable w) # expected)
    (or_exit message (\<lambda>m. case logged (AddRunnable w) f m of (r, m1) \<Rightarrow>
        (wrap_error ''failed to add fork watcher'' r, m1)) k')
    (or_exit message (\<lambda>m. case f m of (r, m1) \<Rightarrow> (wrap_error ''failed to add fork watcher'' r, m1)) k)"
  by (rule follows_mapped_call) (simp_all add: assms)

lemma or_exit_bind: "or_exit message (bind_eff f g) k = or_exit message f (\<lambda>x. or_exit message (g x) k)"
  by (intro ext) (auto simp: or_exit_def bind_eff_def split: prod.splits result.splits)

lemma or_exit_return [simp]: "or_exit message (return x) k = k x"
  by (intro ext) (simp add: or_exit_def)

lemma logging_manager_simps [simp]:
  "mgr_add (logging_manager mgr) c = logged (AddRunnable c) (mgr_add mgr c)"
  "mgr_complete (logging_manager mgr) spec = logged (Complete spec) (mgr_complete mgr spec)"
  "mgr_add_healthz_check (logging_manager mgr) n = logged (AddHealthzCheck n) (mgr_add_healthz_check mgr n)"
  "mgr_add_readyz_check (logging_manager mgr) n = logged (AddReadyzCheck n) (mgr_add_readyz_check mgr n)"
  "mgr_start (logging_manager mgr) = logged StartManager (mgr_start mgr)"
  by (simp_all add: logging_manager_def)

text \<open>However the manager replies, the start makes these calls in this order and ends as they do.\<close>

lemma main_run_follows:
  "follows (start_calls notify real_clock env ord nn_ord flags)
     (main_run (logging new_manager) notify real_clock env ord nn_ord flags)
     (main_run new_manager notify real_clock env ord nn_ord flags)"
proof -
  have clock: "(\<lambda>req w. reconcile_fork env ord nn_ord (real_clock w) req w) = fork_reconciler env ord
      nn_ord real_clock"
    by (intro ext) (simp add: fork_reconciler_def)
  show ?thesis
    unfolding main_run_def logging_def setup_vsconfig_reconciler_def setup_fork_reconciler_def
      setup_fork_watcher_def or_exit_bind or_exit_return Let_def logging_manager_simps
    by (simp add: start_calls_def clock manager_options_of_def honeybadger_def or_exit_bind
        follows_call follows_watcher follows_finished)
qed

lemma start_protocol_failure:
  "start_protocol expected r calls \<Longrightarrow> (c, Err e) \<in> set calls \<Longrightarrow>
   \<exists>message. (message, c) \<in> set expected \<and> r = Exited 1 message (exit_error c e)"
  by (induction expected r calls rule: start_protocol.induct) (auto split: result.splits)

lemma start_protocol_known:
  "start_protocol expected r calls \<Longrightarrow> (c, reply) \<in> set calls \<Longrightarrow> c \<in> snd ` set expected"
  by (induction expected r calls rule: start_protocol.induct) (auto split: result.splits)

lemma start_protocol_finished:
  "start_protocol expected Finished calls \<Longrightarrow> calls = map (\<lambda>(message, c). (c, Ok ())) expected"
  by (induction expected "Finished" calls rule: start_protocol.induct) (auto split: result.splits)

end
