(* ===== verification/ControllerProperties.thy ===== *)
theory ControllerProperties
  imports Fixtures Startup
begin

text \<open>
  Properties of the fork reconciler (\<^verbatim>\<open>controllers/fork_controller.go\<close>), of \<open>UpdateAll\<close>, of
  the fork watcher (\<^verbatim>\<open>controllers/fork_watcher.go\<close>) and of the start (\<^verbatim>\<open>main.go\<close>).
\<close>

section \<open>Reconciling a fork\<close>

text \<open>
  C9. A fork is deleted only by the reconcile of that fork, and only after its deadline.
\<close>

theorem only_expired_forks_deleted:
  assumes "fork_cluster env scheme objs maps frks"
    and "reconcile_fork env ord nn_ord now q w = (res, w')"
    and "frks w' k \<noteq> frks w k"
  shows "k = q \<and> frks w' k = None \<and>
    (\<exists>fork d. frks w q = Some fork \<and> spec_deadline (fork_spec fork) = Some d \<and> env_time_before env d now)"
  by (rule fork_cluster.forks_deleted_when_expired [OF assms(1,2), OF assms(3)])

definition expired_world :: store where
  "expired_world = world [add_fork_deadline 5 some_fork] [OService some_service] [gen_mapping ''old'' ''old'']"

lemma expired_world_forks:
  "store_frks expired_world some_fork_key = Some (add_fork_deadline 5 some_fork)"
  by (simp add: store_frks_def expired_world_def world_def add_fork_deadline_def full_fork_def Let_def
      gen_fork_def meta_key_def)

lemma expired_world_run:
  obtains w' where "reconcile_fork store_env name_order slug_order 7 some_fork_key expired_world = (Ok (), w')"
proof -
  have "is_ok (fst (reconcile_fork store_env name_order slug_order 7 some_fork_key expired_world))" by code_simp
  from returned [OF this] that show thesis by auto
qed

theorem only_expired_forks_deleted_witness:
  "\<exists>w' fork d. reconcile_fork store_env name_order slug_order 7 some_fork_key expired_world = (Ok (), w') \<and>
     store_frks w' some_fork_key = None \<and> store_frks expired_world some_fork_key = Some fork \<and>
     spec_deadline (fork_spec fork) = Some d \<and> env_time_before store_env d 7"
proof (rule expired_world_run)
  fix w'
  assume run: "reconcile_fork store_env name_order slug_order 7 some_fork_key expired_world = (Ok (), w')"
  have "Option.is_none (store_frks (snd (reconcile_fork store_env name_order slug_order 7 some_fork_key
      expired_world)) some_fork_key)"
    by code_simp
  then have gone: "store_frks w' some_fork_key = None" by (simp add: run Option.is_none_def)
  have "store_frks w' some_fork_key \<noteq> store_frks expired_world some_fork_key"
    unfolding gone expired_world_forks by simp
  note change = only_expired_forks_deleted [OF store.fork_cluster_axioms run, OF this]
  then show ?thesis using gone run by blast
qed

text \<open>
  Reconciling an expired fork deletes it and does nothing else: no object and no Mapping
  changes, and when the call succeeds the fork is gone.
\<close>

theorem expired_fork_is_only_deleted:
  assumes "fork_cluster env scheme objs maps frks"
    and "reconcile_fork env ord nn_ord now q w = (res, w')"
    and "frks w q = Some fork" and "spec_deadline (fork_spec fork) = Some d" "env_time_before env d now"
  shows "objs w' = objs w \<and> maps w' = maps w \<and> (is_ok res \<longrightarrow> frks w' = (frks w)(q := None))"
  using fork_cluster.expired_fork_deleted [OF assms] by auto

theorem expired_fork_is_only_deleted_witness:
  "\<exists>w'. reconcile_fork store_env name_order slug_order 7 some_fork_key expired_world = (Ok (), w') \<and>
     store_objs w' = store_objs expired_world \<and> store_maps w' = store_maps expired_world \<and>
     store_frks w' = (store_frks expired_world)(some_fork_key := None)"
proof (rule expired_world_run)
  fix w'
  assume run: "reconcile_fork store_env name_order slug_order 7 some_fork_key expired_world = (Ok (), w')"
  have deadline: "spec_deadline (fork_spec (add_fork_deadline 5 some_fork)) = Some 5"
    by (simp add: add_fork_deadline_def)
  have "env_time_before store_env 5 7" by simp
  from expired_fork_is_only_deleted [OF store.fork_cluster_axioms run expired_world_forks deadline this] run
  show ?thesis by auto
qed

text \<open>
  Reconciling a fork that is gone leaves all objects and forks alone: only the Mappings of the
  managers are brought up to date.
\<close>

theorem missing_fork_only_touches_mappings:
  assumes "fork_cluster env scheme objs maps frks"
    and "reconcile_fork env ord nn_ord now q w = (res, w')" and "frks w q = None"
  shows "objs w' = objs w \<and> frks w' = frks w"
  using fork_cluster.missing_fork_updates_managers [OF assms] by simp

theorem missing_fork_only_touches_mappings_witness:
  "\<exists>w'. reconcile_fork store_env name_order slug_order 0 some_fork_key mapping_world = (Ok (), w') \<and>
     store_objs w' = store_objs mapping_world \<and> store_maps w' (NN ''ambassador'' ''old'') = None"
proof -
  let ?run = "reconcile_fork store_env name_order slug_order 0 some_fork_key mapping_world"
  have "is_ok (fst ?run)" by code_simp
  from returned [OF this] obtain w' where run: "?run = (Ok (), w')" by auto
  have missing: "store_frks mapping_world some_fork_key = None"
    by (simp add: store_frks_def mapping_world_def world_def plain_fork_def gen_fork_def meta_key_def)
  have "Option.is_none (store_maps (snd ?run) (NN ''ambassador'' ''old''))" by code_simp
  then have "store_maps w' (NN ''ambassador'' ''old'') = None" by (simp add: run Option.is_none_def)
  with missing_fork_only_touches_mappings [OF store.fork_cluster_axioms run, OF missing] run show
      ?thesis by simp
qed

text \<open>
  C31. A fork whose manager is not of the form namespace, slash, name makes the reconcile fail
  before anything is written.
\<close>

theorem malformed_manager_rejected:
  assumes "fork_cluster env scheme objs maps frks"
    and "reconcile_fork env ord nn_ord now q w = (res, w')"
    and "frks w q = Some fork"
    and "case spec_deadline (fork_spec fork) of None \<Rightarrow> True | Some d \<Rightarrow> \<not> env_time_before env d now"
    and "count_list (spec_manager (fork_spec fork)) CHR ''/'' \<noteq> 1"
  shows "\<not> is_ok res \<and> objs w' = objs w \<and> maps w' = maps w \<and> frks w' = frks w"
proof -
  have "length (go_split (spec_manager (fork_spec fork)) ''/'') \<noteq> 2"
    using assms(5) by (simp add: go_split_char_count)
  then have "parse_manager_slug (spec_manager (fork_spec fork)) = Err MalformedManager"
    by (auto simp: parse_manager_slug_def split: list.split)
  from fork_cluster.malformed_manager_fails [OF assms(1-4) this] show ?thesis by simp
qed

definition malformed_fork :: fork where
  "malformed_fork = some_fork\<lparr>fork_spec := (fork_spec some_fork)\<lparr>spec_manager := ''a/b/c''\<rparr>\<rparr>"

theorem malformed_manager_rejected_witness:
  "\<exists>res w'. reconcile_fork store_env name_order slug_order 0 some_fork_key (world [malformed_fork] []
      []) = (res, w') \<and>
     \<not> is_ok res \<and> store_maps w' = store_maps (world [malformed_fork] [] [])"
proof -
  let ?w = "world [malformed_fork] [] []"
  obtain res w' where run: "reconcile_fork store_env name_order slug_order 0 some_fork_key ?w = (res, w')"
    by (cases "reconcile_fork store_env name_order slug_order 0 some_fork_key ?w")
  have found: "store_frks ?w some_fork_key = Some malformed_fork"
    by (simp add: store_frks_def world_def malformed_fork_def full_fork_def Let_def gen_fork_def meta_key_def)
  have "case spec_deadline (fork_spec malformed_fork) of None \<Rightarrow> True | Some d \<Rightarrow> \<not> env_time_before store_env d 0"
    "count_list (spec_manager (fork_spec malformed_fork)) CHR ''/'' \<noteq> 1"
    by (simp_all add: malformed_fork_def full_fork_def Let_def gen_fork_def)
  from malformed_manager_rejected [OF store.fork_cluster_axioms run found this] run show ?thesis by blast
qed

text \<open>
  \<open>UpdateAll\<close> stops at the first failure and returns it: the items before it have been
  updated, the ones after it have not, whichever the updater.
\<close>

theorem update_all_stops_at_first_failure:
  assumes "list_items opts w = (Ok (xs @ x # ys), w0)"
    and "for_each xs (\<lambda>item. update (meta_key (meta item))) w0 = (Ok u, w1)"
    and "update (meta_key (meta x)) w1 = (Err e, w2)"
  shows "update_all list_items meta update opts w = (Err e, w2)"
  by (rule update_all_first_failure [where list_items = list_items and opts = opts and w = w and update = update
      and meta = meta, OF assms(1), OF assms(2), OF assms(3)])

theorem update_all_stops_at_first_failure_witness:
  "update_all (\<lambda>_. return [gen_service ''a'', gen_service ''b'', gen_service ''c'']) svc_meta
     (\<lambda>k log. if nn_name k = ''b'' then (Err NotFound, log @ [nn_name k]) else (Ok (),
         log @ [nn_name k])) no_options [] =
   (Err NotFound, [''a'', ''b''])"
  by (rule update_all_stops_at_first_failure [where xs = "[gen_service ''a'']" and x = "gen_service ''b''"])
    (simp_all add: gen_service_def meta_key_def bind_eff_def)

section \<open>The fork watcher\<close>

text \<open>Two forks past their deadline and one that is not.\<close>

definition watched_forks :: "fork list" where
  "watched_forks = [add_fork_deadline 1 (gen_fork ''first'' fmempty),
      add_fork_deadline 2 (gen_fork ''second'' fmempty),
     add_fork_deadline 9 (gen_fork ''third'' fmempty)]"

text \<open>
  C35. The event holds the address of the loop variable. When the events of a tick are handled
  after the loop, every one of them enqueues the last fork of the list, whether or not it is
  past its deadline, and no other fork is enqueued.
\<close>

theorem late_events_enqueue_last_fork:
  assumes "waiting s" "fw_inflight s = []" "fw_receiving s" "forks \<noteq> []"
  shows "\<exists>s'. watch_run (Tick now forks # late_schedule now forks) s = Some s' \<and>
    fw_queue s' = fw_queue s @ replicate (length (filter (outdated now) forks)) (fork_key (last forks))"
proof -
  let ?s = "s\<lparr>fw_now := now, fw_pending := forks, fw_cells := fw_cells s @ [None]\<rparr>"
  let ?n = "length (filter (outdated now) forks)"
  let ?t = "?s\<lparr>fw_pending := [], fw_cells := fw_cells s @ [Some (last forks)],
    fw_inflight := replicate ?n (length (fw_cells s))\<rparr>"
  have tick: "watch_exec (Tick now forks) s = Some ?s" using assms(1) by simp
  have loop: "watch_run (loop_schedule now forks) ?s = Some ?t"
    using late_loop [of ?s forks "fw_cells s" None] assms by (simp add: waiting_def)
  have "watch_run (replicate ?n Handle) ?t = Some (?t\<lparr>fw_inflight := [],
      fw_queue := fw_queue ?t @ replicate ?n (fork_key (last forks))\<rparr>)"
    by (rule late_handle [where k = "length (fw_cells s)"]) simp_all
  then have "watch_run (late_schedule now forks) ?s = Some (?t\<lparr>fw_inflight := [],
      fw_queue := fw_queue ?t @ replicate ?n (fork_key (last forks))\<rparr>)"
    unfolding late_schedule_def watch_run_append loop by (simp only: Option.bind.bind_lunit map_replicate_const)
  with tick show ?thesis by (auto simp del: watch_exec.simps)
qed

theorem late_events_enqueue_last_fork_witness:
  "\<exists>s'. watch_run (Tick 5 watched_forks # late_schedule 5 watched_forks) start_watcher = Some s' \<and>
     fw_queue s' = [NN ''some-namespace'' ''third'', NN ''some-namespace'' ''third'']"
  using late_events_enqueue_last_fork [of start_watcher watched_forks 5]
  by (auto simp: start_watcher_def waiting_def watched_forks_def outdated_def add_fork_deadline_def gen_fork_def
      fork_key_def meta_key_def numeral_2_eq_2)

text \<open>
  C36. In every interleaving of ticks, the loop, cancellations and the handler, each enqueued
  request names a fork that a listing has returned, and an event in flight can always be
  handled: its loop variable has been assigned.
\<close>

theorem watcher_enqueues_listed_forks:
  assumes "watch_reachable seen s"
  shows "set (fw_queue s) \<subseteq> fork_key ` seen \<and> (fw_inflight s = [] \<or> (\<exists>s'. watch_step s Handle s'))"
  using watch_reachable_inv [OF assms] watch_handle_enabled [OF assms] by (auto simp: watch_inv_def)

text \<open>The watcher after a tick, waiting to hand over its first event, and after it was received.\<close>

definition sending_watcher :: watcher where
  "sending_watcher = advance (hd watched_forks) (tl watched_forks)
     (start_watcher\<lparr>fw_now := 5, fw_pending := watched_forks, fw_cells := [None]\<rparr>)"

lemma sending_watcher_reachable: "watch_reachable (set watched_forks) sending_watcher"
proof -
  let ?s = "start_watcher\<lparr>fw_now := 5, fw_pending := watched_forks, fw_cells := fw_cells start_watcher @
      [None]\<rparr>"
  have "watch_step start_watcher (Tick 5 watched_forks) ?s"
    by (rule watch_step.tick) (simp add: start_watcher_def waiting_def)
  from watch_reachable.step [OF watch_reachable.start this] have
      "watch_reachable (set watched_forks) ?s" by simp
  moreover have "watch_step ?s Advance sending_watcher"
    using watch_step.advance [of ?s "hd watched_forks" "tl watched_forks"]
    by (simp add: start_watcher_def watched_forks_def sending_watcher_def)
  ultimately show ?thesis using watch_reachable.step [of "set watched_forks" ?s Advance] by simp
qed

lemma sending_watcher_state [simp]:
  "fw_returned sending_watcher = None" "fw_receiving sending_watcher" "fw_sending sending_watcher = Some 0"
  "length (fw_pending sending_watcher) = 2"
  by (simp_all add: sending_watcher_def advance_def Let_def start_watcher_def watched_forks_def outdated_def
      add_fork_deadline_def)

theorem watcher_enqueues_listed_forks_witness:
  "\<exists>s. watch_reachable (set watched_forks) s \<and> fw_inflight s \<noteq> [] \<and> (\<exists>s'. watch_step s Handle s')"
proof -
  let ?s = "sending_watcher\<lparr>fw_sending := None, fw_inflight := fw_inflight sending_watcher @ [0]\<rparr>"
  have "watch_step sending_watcher Receive ?s" by (rule watch_step.receive) simp_all
  from watch_reachable.step [OF sending_watcher_reachable this] have reach:
      "watch_reachable (set watched_forks) ?s" by simp
  with watcher_enqueues_listed_forks [OF reach] show ?thesis by (intro exI [of _ ?s]) simp
qed

text \<open>
  C24. The loop over a listing ends: however its iterations and the receiver interleave they take
  at most two steps per fork and one for an event being sent, and when they can go no further
  while the channel is read, the watcher is back at its \<open>select\<close>, where a cancelled context
  makes \<open>Start\<close> return without an error. Such a run exists from every state in which \<open>Start\<close> has
  not returned.
\<close>

theorem watcher_returns:
  assumes "fw_returned s = None" and "fw_receiving s"
  shows "(\<forall>es s'. set es \<subseteq> {Advance, Receive} \<and> watch_run es s = Some s' \<longrightarrow>
      length es \<le> 2 * length (fw_pending s) + 1 \<and>
      (watch_exec Advance s' = None \<and> watch_exec Receive s' = None \<longrightarrow>
        (\<exists>s''. watch_run [CtxDone, Quit] s' = Some s'' \<and> fw_returned s'' = Some (Ok ())))) \<and>
    (\<exists>es s'. set es \<subseteq> {Advance, Receive} \<and> watch_run (es @ [CtxDone, Quit]) s = Some s' \<and>
        fw_returned s' = Some (Ok ()))"
proof (intro conjI allI impI)
  have quit: "\<exists>s''. watch_run [CtxDone, Quit] s' = Some s'' \<and> fw_returned s'' = Some (Ok ())"
      if "waiting s'" for s'
    using that by (auto simp: waiting_def)
  fix es s'
  assume run: "set es \<subseteq> {Advance, Receive} \<and> watch_run es s = Some s'"
  then show "length es \<le> 2 * length (fw_pending s) + 1"
    using loop_run_left [of es s s'] by (auto simp: loop_left_def split: if_splits)
  assume "watch_exec Advance s' = None \<and> watch_exec Receive s' = None"
  with run loop_run_returned [of es s s'] loop_progress [of s'] assms have "waiting s'" by auto
  then show "\<exists>s''. watch_run [CtxDone, Quit] s' = Some s'' \<and> fw_returned s'' = Some (Ok ())" by (rule quit)
next
  from loop_ends [OF assms] obtain es s' where
    "set es \<subseteq> {Advance, Receive}" "watch_run es s = Some s'" "waiting s'" by blast
  then show "\<exists>es s'. set es \<subseteq> {Advance, Receive} \<and> watch_run (es @ [CtxDone, Quit]) s = Some s' \<and>
      fw_returned s' = Some (Ok ())"
    by (intro exI [of _ es]) (auto simp: watch_run_append waiting_def)
qed

theorem watcher_returns_witness:
  "\<exists>es s'. set es \<subseteq> {Advance, Receive} \<and> length es \<le> 5 \<and>
     watch_run (es @ [CtxDone, Quit]) sending_watcher = Some s' \<and> fw_returned s' = Some (Ok ())"
proof -
  note returns = watcher_returns [of sending_watcher, simplified]
  from returns obtain es s' where es: "set es \<subseteq> {Advance, Receive}"
    "watch_run (es @ [CtxDone, Quit]) sending_watcher = Some s'" "fw_returned s' = Some (Ok ())" by blast
  then obtain s1 where "watch_run es sending_watcher = Some s1"
    by (auto simp: watch_run_append bind_eq_Some_conv)
  with returns es show ?thesis by blast
qed

text \<open>
  C25. The send of an event is not part of a \<open>select\<close> with the context: once nobody receives from
  the channel, a watcher that is sending never returns, whatever happens next and however often
  its context is cancelled, and no further event gets through.
\<close>

theorem blocked_watcher_never_returns:
  assumes "fw_sending s = Some c" and "\<not> fw_receiving s" and "fw_returned s = None"
    and "watch_run es s = Some s'"
  shows "fw_returned s' = None \<and> fw_sending s' = Some c \<and>
      length (fw_queue s') \<le> length (fw_queue s) + length (fw_inflight s)"
proof -
  have "fw_sending t = Some c \<Longrightarrow> \<not> fw_receiving t \<Longrightarrow> watch_run es t = Some s' \<Longrightarrow>
      length (fw_queue s') + length (fw_inflight s') = length (fw_queue t) + length (fw_inflight t)" for t
  proof (induction es arbitrary: t)
    case (Cons e es)
    then obtain t1 where step: "watch_exec e t = Some t1" and run: "watch_run es t1 = Some s'"
      by (auto simp: bind_eq_Some_conv)
    have "length (fw_queue t1) + length (fw_inflight t1) = length (fw_queue t) + length (fw_inflight t)"
      using step Cons.prems(1,2) by (cases e) (auto simp: waiting_def split: list.splits option.splits)
    with Cons.IH [OF _ _ run] blocked_send_stays [OF Cons.prems(1,2) step] show ?case by simp
  qed simp
  from this [OF assms(1,2,4)] blocked_send_run [OF assms(4,1,2)] assms(3) show ?thesis by simp
qed

theorem blocked_watcher_never_returns_witness:
  "\<exists>s es s'. watch_reachable (set watched_forks) s \<and> watch_run (es @ [CtxDone]) s = Some s' \<and>
     fw_cancelled s' \<and> fw_returned s' = None"
proof -
  let ?s = "sending_watcher\<lparr>fw_receiving := False\<rparr>"
  have "watch_step sending_watcher StopReceiving ?s" by (rule watch_step.stop_receiving)
  from watch_reachable.step [OF sending_watcher_reachable this] have reach:
      "watch_reachable (set watched_forks) ?s" by simp
  have run: "watch_run [CtxDone] ?s = Some (?s\<lparr>fw_cancelled := True\<rparr>)" by simp
  from blocked_watcher_never_returns [OF _ _ _ run, of 0]
  have "fw_returned (?s\<lparr>fw_cancelled := True\<rparr>) = None" by simp
  with reach run show ?thesis
    by (intro exI [of _ ?s] exI [of _ "[]"] exI [of _ "?s\<lparr>fw_cancelled := True\<rparr>"]) simp
qed

section \<open>The start of the controller\<close>

text \<open>
  C26. The start of the controller makes the seven calls of \<open>start_calls\<close> in their order, whatever the
  manager replies: the manager is made, the reconciler of VSConfigs registered, the watcher added with its
  period, the reconciler of Forks registered with the channel of the watcher, both health checks added and
  the manager started. It stops at the first call that fails. Every error ends the process with status 1
  and the message of that call, and it ends normally only when all seven have succeeded. The
  reconciler of Services is never registered, so a change of a Service alone does not update its routes.
\<close>

theorem startup_protocol:
  assumes "main_run (logging new_manager) notify real_clock env ord nn_ord flags (m, []) = (r, (m', calls))"
  defines "expected \<equiv> start_calls notify real_clock env ord nn_ord flags"
  shows "main_run new_manager notify real_clock env ord nn_ord flags m = (r, m') \<and>
    start_protocol expected r calls \<and>
    (r = Finished \<longleftrightarrow> calls = map (\<lambda>(message, c). (c, Ok ())) expected) \<and>
    (\<forall>c e. (c, Err e) \<in> set calls \<longrightarrow>
       (\<exists>message. (message, c) \<in> set expected \<and> r = Exited 1 message (exit_error c e))) \<and>
    (\<forall>spec reply. (Complete spec, reply) \<in> set calls \<longrightarrow> cs_for spec \<in> {ControlsVSConfig, ControlsFork})"
proof -
  from main_run_follows [of notify real_clock env ord nn_ord flags new_manager, folded expected_def] assms(1)
  have run: "main_run new_manager notify real_clock env ord nn_ord flags m = (r, m')"
    and protocol: "start_protocol expected r calls"
    unfolding follows_def by (metis append_Nil fst_conv prod.collapse snd_conv)+
  have "r = Finished" if "calls = map (\<lambda>(message, c). (c, Ok ())) expected"
    using protocol unfolding that by (simp add: expected_def start_calls_def)
  moreover have "cs_for spec \<in> {ControlsVSConfig, ControlsFork}" if "(Complete spec, reply) \<in> set calls"
      for spec reply
    using start_protocol_known [OF protocol that] by (auto simp: expected_def start_calls_def)
  ultimately show ?thesis
    using run protocol start_protocol_failure [OF protocol] start_protocol_finished [of expected calls] by blast
qed

text \<open>A manager that remembers what it controls and fails to start when told to.\<close>

definition remembering_manager :: "bool \<Rightarrow> (controlled list, store) manager_api" where
  "remembering_manager starts =
     \<lparr>mgr_add = (\<lambda>_. return ()), mgr_complete = (\<lambda>spec cs. (Ok (), cs @ [cs_for spec])),
      mgr_add_healthz_check = (\<lambda>_. return ()), mgr_add_readyz_check = (\<lambda>_. return ()),
      mgr_start = (\<lambda>cs. (if starts then Ok () else Err (ApiError ''no leader''), cs))\<rparr>"

theorem startup_protocol_witness:
  "\<exists>cs calls. main_run (logging (\<lambda>_. return (remembering_manager False))) (\<lambda>_ w. w) (\<lambda>_. 0) store_env name_order
       slug_order default_main_flags ([], []) =
       (Exited 1 ''problem running manager'' (ApiError ''no leader''), (cs, calls)) \<and>
     cs = [ControlsVSConfig, ControlsFork] \<and> length calls = 7 \<and>
     start_protocol (start_calls (\<lambda>_ w. w) (\<lambda>_. 0) store_env name_order slug_order default_main_flags)
       (Exited 1 ''problem running manager'' (ApiError ''no leader'')) calls"
proof -
  let ?run = "main_run (logging (\<lambda>_. return (remembering_manager False))) (\<lambda>_ w. w) (\<lambda>_. 0) store_env name_order
    slug_order default_main_flags ([], [])"
  have "case ?run of (Exited c message (ApiError e), (cs, calls)) \<Rightarrow> c = 1 \<and>
      message = ''problem running manager'' \<and>
      e = ''no leader'' \<and> cs = [ControlsVSConfig, ControlsFork] \<and> length calls = 7 | _ \<Rightarrow> False"
    by code_simp
  moreover obtain r cs calls where run: "?run = (r, cs, calls)" by (rule prod_cases3)
  ultimately have "case (r, cs, calls) of (Exited c message (ApiError e), (cs, calls)) \<Rightarrow> c = 1 \<and>
      message = ''problem running manager'' \<and> e = ''no leader'' \<and> cs = [ControlsVSConfig, ControlsFork] \<and>
      length calls = 7 | _ \<Rightarrow> False" by (simp only:)
  then have "r = Exited 1 ''problem running manager'' (ApiError ''no leader'')"
      "cs = [ControlsVSConfig, ControlsFork]"
    "length calls = 7" by (auto split: program_end.splits error.splits)
  with run startup_protocol [OF run] show ?thesis by blast
qed

end
