(* ===== verification/ToolProperties.thy ===== *)
theory ToolProperties
  imports Fixtures
begin

text \<open>Properties of the command line tool (\<^verbatim>\<open>kubeforkctl\<close>) and of the Forks it writes.\<close>

text \<open>
  C38. Options in the four documented forms are accepted, and the selector made of them says what
  they say: equalities are added to the labels given, the others become requirements in order.
\<close>

theorem documented_options_accepted:
  assumes "\<forall>f \<in> set fs. plain_form f"
  shows "new_selector (map render_form fs) (Some m) =
    (case fold add_form fs (m, []) of (m', es) \<Rightarrow> Ok \<lparr>match_labels = Some m', match_expressions = es\<rparr>)"
  by (rule new_selector_render [OF assms])

theorem documented_options_accepted_witness:
  "new_selector [''app=web'', ''!old'', ''tier!=db'', ''role''] (Some fmempty) =
   Ok \<lparr>match_labels = Some (fmupd ''app'' ''web'' fmempty),
       match_expressions = [requirement_of ''old'' ''DoesNotExist'' [],
           requirement_of ''tier'' ''NotIn'' [''db''],
         requirement_of ''role'' ''Exists'' []]\<rparr>"
  using documented_options_accepted [of
      "[KeyIs ''app'' ''web'', LacksKey ''old'', KeyIsNot ''tier'' ''db'', HasKey ''role'']" fmempty]
  by (simp add: plain_def)

text \<open>
  C39. The outcome of an option, for every text: refused are those without exactly one \<open>!=\<close> that
  have more than one equals sign, more than one exclamation mark, or one of each; and the
  only panic is a write to a nil map, by an option with one equals sign and no exclamation mark
  when the object the labels come from has none.
\<close>

theorem label_option_outcome:
  "((\<exists>e. add_label_option l parts = Err e) \<longleftrightarrow>
    length (go_split l ''!='') \<noteq> 2 \<and>
    (count_list l CHR ''='' > 1 \<or> count_list l CHR ''!'' > 1 \<or>
     count_list l CHR ''='' = 1 \<and> count_list l CHR ''!'' = 1)) \<and>
   (add_label_option l parts = Panic p \<longleftrightarrow>
    p = NilMapWrite \<and> fst parts = None \<and> length (go_split l ''!='') \<noteq> 2 \<and>
    count_list l CHR ''='' = 1 \<and> count_list l CHR ''!'' = 0)"
  by (intro conjI add_label_option_Err add_label_option_Panic)

text \<open>
  An exclamation mark in the middle of an option is not refused: the text before it is
  dropped and the rest is read as a key that must not exist.
\<close>

theorem exclamation_mark_drops_prefix:
  assumes "plain a" "plain b"
  shows "new_selector [a @ ''!'' @ b] m = Ok \<lparr>match_labels = m, match_expressions =
      [requirement_of b ''DoesNotExist'' []]\<rparr>"
proof -
  have "go_split (CHR ''!'' # b) ''!'' = ['''', b]" using assms(2)
    by (subst go_split_char_pair) (simp add: plain_def)
  then have "add_label_option (''!'' @ b) (m, []) = Ok (m, [requirement_of b ''DoesNotExist'' []])"
    using assms(2) by (simp add: split_not_equals_absent go_split_char_count Let_def plain_def)
  then show ?thesis
    using text_before_mark_dropped [OF assms, of "(m, [])"]
    by (simp add: new_selector_def del: add_label_option.simps)
qed

theorem exclamation_mark_drops_prefix_witness:
  "new_selector [''foo!bar''] (Some fmempty) =
   Ok \<lparr>match_labels = Some fmempty, match_expressions = [requirement_of ''bar'' ''DoesNotExist'' []]\<rparr>"
  using exclamation_mark_drops_prefix [of "''foo''" "''bar''" "Some fmempty"] by (simp add: plain_def)

text \<open>
  The deadline is the current time plus the given hours, exactly, for any number of hours up
  to 2562047 either way; one more makes the product wrap to the past.
\<close>

theorem deadline_exact:
  assumes "-2562047 \<le> sint hours" "sint hours \<le> 2562047"
  shows "spec_deadline (fork_spec (new_fork now i ns mgr n hours ss ds cs anns)) =
      Some (now + 3600000000000 * sint hours)"
  by (simp add: new_fork_def valid_duration_exact [OF assms])

theorem deadline_exact_witness:
  "spec_deadline (fork_spec (new_fork 1000 ''i'' ''ns'' ''m/m'' 1 24 \<lparr>match_labels = None,
      match_expressions = []\<rparr>
     \<lparr>match_labels = None, match_expressions = []\<rparr> [] fmempty)) = Some 86400000001000"
  using deadline_exact [of 24 1000] by simp

text \<open>A cluster as the tool sees it: one service and one deployment of it.\<close>

definition tool_client :: "unit clientset" where
  "tool_client =
     \<lparr>cs_get_service = (\<lambda>_ n. return (gen_service n)),
      cs_get_deployment = (\<lambda>_ n. return (gen_deployment n app_labels)),
      cs_list_services = (\<lambda>_ _. return [gen_service ''some-service'']),
      cs_list_deployments = (\<lambda>_ _. return [gen_deployment ''some-deployment'' app_labels]),
      cs_format_label_selector = (\<lambda>_. ''''), cs_nil_labels = (\<lambda>m. meta_labels m = fmempty)\<rparr>"

definition tool_options :: manifest_option where
  "tool_options =
     \<lparr>opt_identifier = ''some-id'', opt_namespace = ''some-namespace'', opt_output_path = '''',
         opt_replica_num = 1,
      opt_service_label = [''app=some-app''], opt_service_name = None, opt_deployment_label = [''role!=batch''],
      opt_deployment_name = Some ''some-deployment'', opt_deployment_annotation = fmempty,
      opt_image = ''some-deployment:other-sha'', opt_env = fmempty, opt_fork_manager_name =
          ''ambassador/default'',
      opt_valid_time = 24, opt_kube_config_path = ''''\<rparr>"

text \<open>
  C37. The containers whose image the tool switches are those, by name, of the deployments found for
  any of the services, that have the given image's name before the first colon: tags do not
  matter, but when the image comes from a registry with a port neither does the rest, and the
  containers of all images of that registry are switched.
\<close>

theorem containers_to_switch:
  assumes "range_order ord"
    and "cs_list_services client ns (cs_format_label_selector client ssel) v = (Ok ss, v1)"
    and "\<forall>s \<in> set ss. \<forall>u. \<exists>u'. cs_list_deployments client ns
      (cs_format_label_selector client (deployments_of_service s dsel)) u = (Ok (found s), u')"
  shows "\<exists>names v2. get_all_containers client ord ns img ssel dsel v = (Ok names, v2) \<and> distinct names \<and>
    set names = {ctr_name c |c d s. s \<in> set ss \<and> d \<in> set (found s) \<and> c \<in> set (dep_template_containers d) \<and>
      image_name (ctr_image c) = image_name img} \<and>
    (\<forall>s d c registry a b. s \<in> set ss \<and> d \<in> set (found s) \<and> c \<in> set (dep_template_containers d) \<and>
      CHR '':'' \<notin> set registry \<and> img = registry @ '':'' @ a \<and> ctr_image c = registry @ '':'' @ b \<longrightarrow>
      ctr_name c \<in> set names)"
proof -
  let ?lst = "\<lambda>s. cs_list_deployments client ns (cs_format_label_selector client (deployments_of_service
      s dsel))"
  from collect_of_all_services [where lst = ?lst, OF assms(3), of img fmempty v1] obtain m v2 where
    run: "fold_eff (\<lambda>s containers. bind_eff (?lst s)
        (\<lambda>ds. return (collect_containers img ds containers))) ss fmempty v1 =
      (Ok m, v2)"
    and "fset (fmdom m) = (\<Union>s \<in> set ss. {ctr_name c |c d. d \<in> set (found s) \<and>
      c \<in> set (dep_template_containers d) \<and> image_name (ctr_image c) = image_name img})" by auto
  then have m: "fset (fmdom m) = {ctr_name c |c d s. s \<in> set ss \<and> d \<in> set (found s) \<and>
      c \<in> set (dep_template_containers d) \<and> image_name (ctr_image c) = image_name img}" by blast
  have "get_all_containers client ord ns img ssel dsel v = (Ok (ord (fmdom m)), v2)"
    using run by (simp add: get_all_containers_def lib_merge_add [OF assms(1)] bind_eff_def assms(2)
        deployments_of_service_def)
  moreover have names: "set (ord (fmdom m)) = fset (fmdom m)" "distinct (ord (fmdom m))" using assms(1)
    by simp_all
  moreover have "ctr_name c \<in> set (ord (fmdom m))"
    if "s \<in> set ss" "d \<in> set (found s)" "c \<in> set (dep_template_containers d)" "CHR '':'' \<notin> set registry"
      "img = registry @ '':'' @ a" "ctr_image c = registry @ '':'' @ b" for s d c registry a b
  proof -
    have "image_name (ctr_image c) = image_name img" using that(4-6) image_name_tag by simp
    with that(1-3) show ?thesis unfolding names(1) m by blast
  qed
  ultimately show ?thesis using m by blast
qed

text \<open>A deployment with a container that is not the application's, from the same registry.\<close>

definition proxied_deployment :: deployment where
  "proxied_deployment = (gen_deployment ''some-deployment'' app_labels)\<lparr>dep_template_containers :=
     [\<lparr>ctr_name = ''app'', ctr_image = ''registry:5000/app:v1'', ctr_env = []\<rparr>,
      \<lparr>ctr_name = ''proxy'', ctr_image = ''registry:5000/proxy:v7'', ctr_env = []\<rparr>]\<rparr>"

theorem containers_to_switch_witness:
  "\<exists>names v2. get_all_containers
      (tool_client\<lparr>cs_list_deployments := (\<lambda>_ _. return [proxied_deployment])\<rparr>) name_order
      ''some-namespace'' ''registry:5000/app:v2'' \<lparr>match_labels = None, match_expressions = []\<rparr>
      \<lparr>match_labels = None, match_expressions = []\<rparr> () = (Ok names, v2) \<and> set names = {''app'', ''proxy''}"
proof -
  let ?client = "tool_client\<lparr>cs_list_deployments := (\<lambda>_ _. return [proxied_deployment])\<rparr>"
  let ?sel = "\<lparr>match_labels = None, match_expressions = []\<rparr> :: label_selector"
  have listed: "cs_list_services ?client ''some-namespace'' (cs_format_label_selector ?client ?sel) () =
      (Ok [gen_service ''some-service''], ())"
    "\<forall>s \<in> set [gen_service ''some-service'']. \<forall>u. \<exists>u'. cs_list_deployments ?client ''some-namespace''
      (cs_format_label_selector ?client (deployments_of_service s ?sel)) u = (Ok [proxied_deployment], u')"
    by (simp_all add: tool_client_def)
  from containers_to_switch [where found = "\<lambda>_. [proxied_deployment]", OF range_orders(1) listed, of
      "''registry:5000/app:v2''"]
  obtain names v2 where
    run: "get_all_containers ?client name_order ''some-namespace'' ''registry:5000/app:v2'' ?sel ?sel ()
        = (Ok names, v2)"
    and names: "set names = {ctr_name c |c d s. s \<in> set [gen_service ''some-service''] \<and>
        d \<in> set [proxied_deployment] \<and>
      c \<in> set (dep_template_containers d) \<and> image_name (ctr_image c) = image_name ''registry:5000/app:v2''}"
    by (elim exE conjE)
  have "image_name ''registry:5000/app:v2'' = ''registry''" "image_name ''registry:5000/app:v1'' = ''registry''"
    "image_name ''registry:5000/proxy:v7'' = ''registry''" by code_simp+
  then have same: "image_name (ctr_image c) = image_name ''registry:5000/app:v2'' \<longleftrightarrow> True"
    if "c \<in> set (dep_template_containers proxied_deployment)" for c
    using that by (auto simp: proxied_deployment_def)
  have "set names = ctr_name ` set (dep_template_containers proxied_deployment)"
    unfolding names using same by auto
  then have "set names = {''app'', ''proxy''}" by (simp add: proxied_deployment_def)
  with run show ?thesis by blast
qed

end
