(* ===== verification/CallTrace.thy ===== *)
theory CallTrace
  imports RoutedCluster "HOL-Library.Sublist"
begin

text \<open>
  The calls that the refresher makes, and those on Mappings, in order and with their replies, against an
  API server of
  which nothing is assumed. Others may write to it between any two calls, and it may reply what
  it likes: the world is whatever the calls make of it, and no law restricts them. The calls are
  recorded by an environment that passes them on, and that the program cannot tell from the original.
\<close>

section \<open>An environment that records calls\<close>

datatype 'u api_event =
    Listed gvk list_options "'u unstructured list result"
  | Deleted "'u unstructured" "unit result"
  | Wrote client_object "client_object \<Rightarrow> client_object result" "unit result"
  | MappingsListed list_options "mapping list result"
  | MappingWrote namespaced_name "mapping \<Rightarrow> mapping result" "unit result"
  | MappingDeleted namespaced_name "unit result"

fun event_ok :: "'u api_event \<Rightarrow> bool" where
  "event_ok (Listed g opts r) = is_ok r"
| "event_ok (Deleted u r) = is_ok r"
| "event_ok (Wrote c f r) = is_ok r"
| "event_ok (MappingsListed opts r) = is_ok r"
| "event_ok (MappingWrote k f r) = is_ok r"
| "event_ok (MappingDeleted k r) = is_ok r"

type_synonym ('w, 'u) traced_world = "'w \<times> 'u api_event list"

definition untraced :: "('w, 'a) eff \<Rightarrow> (('w, 'u) traced_world, 'a) eff" where
  "untraced m wl = (case m (fst wl) of (r, w') \<Rightarrow> (r, (w', snd wl)))"

definition traced_as :: "('a result \<Rightarrow> 'u api_event) \<Rightarrow> ('w, 'a) eff \<Rightarrow> (('w, 'u) traced_world, 'a) eff" where
  "traced_as event m wl = (case m (fst wl) of (r, w') \<Rightarrow> (r, (w', snd wl @ [event r])))"

definition untraced_api :: "('w, 'o) resource_api \<Rightarrow> (('w, 'u) traced_world, 'o) resource_api" where
  "untraced_api api =
     \<lparr>api_get = (\<lambda>k. untraced (api_get api k)), api_list = (\<lambda>opts. untraced (api_list api opts)),
      api_delete = (\<lambda>x. untraced (api_delete api x)),
      api_create_or_update = (\<lambda>x f. untraced (api_create_or_update api x f))\<rparr>"

definition traced_mappings :: "('w, mapping) resource_api \<Rightarrow> (('w, 'u) traced_world, mapping) resource_api" where
  "traced_mappings api =
     \<lparr>api_get = (\<lambda>k. untraced (api_get api k)),
      api_list = (\<lambda>opts. traced_as (MappingsListed opts) (api_list api opts)),
      api_delete = (\<lambda>x. traced_as (MappingDeleted (meta_key (mp_meta x))) (api_delete api x)),
      api_create_or_update = (\<lambda>x f. traced_as (MappingWrote (meta_key (mp_meta x)) f)
          (api_create_or_update api x f))\<rparr>"

definition traced :: "('w, 'u) env \<Rightarrow> (('w, 'u) traced_world, 'u) env" where
  "traced env =
     \<lparr>env_forks = untraced_api (env_forks env),
      env_fork_managers = untraced_api (env_fork_managers env),
      env_services = untraced_api (env_services env),
      env_deployments = untraced_api (env_deployments env),
      env_vsconfigs = untraced_api (env_vsconfigs env),
      env_mappings = traced_mappings (env_mappings env),
      env_create_or_update = (\<lambda>x f. traced_as (Wrote x f) (env_create_or_update env x f)),
      env_list_unstructured = (\<lambda>g opts. traced_as (Listed g opts) (env_list_unstructured env g opts)),
      env_delete_unstructured = (\<lambda>u. traced_as (Deleted u) (env_delete_unstructured env u)),
      env_convert = env_convert env,
      env_set_controller_reference = env_set_controller_reference env,
      env_vsconfig_from_unstructured = env_vsconfig_from_unstructured env,
      env_virtual_service_from_unstructured = env_virtual_service_from_unstructured env,
      env_group_version_string = env_group_version_string env,
      env_label_selector_as_selector = env_label_selector_as_selector env,
      env_set_as_selector = env_set_as_selector env,
      env_labels_everything = env_labels_everything env,
      env_new_requirement = env_new_requirement env,
      env_selector_add = env_selector_add env,
      env_string_set_list = env_string_set_list env,
      env_time_before = env_time_before env,
      env_fused_multiply_subtract = env_fused_multiply_subtract env\<rparr>"

lemma traced_simps [simp]:
  "env_convert (traced env) = env_convert env"
  "env_set_controller_reference (traced env) = env_set_controller_reference env"
  "env_vsconfig_from_unstructured (traced env) = env_vsconfig_from_unstructured env"
  "env_group_version_string (traced env) = env_group_version_string env"
  "env_label_selector_as_selector (traced env) = env_label_selector_as_selector env"
  "env_set_as_selector (traced env) = env_set_as_selector env"
  "env_labels_everything (traced env) = env_labels_everything env"
  "env_new_requirement (traced env) = env_new_requirement env"
  "env_selector_add (traced env) = env_selector_add env"
  "env_fused_multiply_subtract (traced env) = env_fused_multiply_subtract env"
  by (simp_all add: traced_def)

section \<open>Runs and their records\<close>

text \<open>\<open>m'\<close> behaves as \<open>m\<close>, and records events that the result and \<open>P\<close> allow.\<close>

definition records ::
  "('a result \<Rightarrow> 'u api_event list \<Rightarrow> bool) \<Rightarrow> (('w, 'u) traced_world, 'a) eff \<Rightarrow> ('w, 'a) eff \<Rightarrow> bool" where
  "records P m' m \<longleftrightarrow> (\<forall>w l. \<exists>es. m' (w, l) = (fst (m w), (snd (m w), l @ es)) \<and> P (fst (m w)) es)"

named_theorems records_intros \<open>calls that record what their specification allows\<close>

abbreviation silent :: "'a result \<Rightarrow> 'u api_event list \<Rightarrow> bool" where
  "silent \<equiv> \<lambda>r es. es = []"

lemma recordsD: "records P m' m \<Longrightarrow> m' (w, l) = (r, (w', l')) \<Longrightarrow> m w = (r, w') \<and> (\<exists>es. l' = l @ es \<and> P r es)"
  unfolding records_def by (metis prod.collapse prod.inject)

lemma records_mono: "records P m' m \<Longrightarrow> (\<And>r es. P r es \<Longrightarrow> Q r es) \<Longrightarrow> records Q m' m"
  unfolding records_def by blast

lemma records_lift: "P r [] \<Longrightarrow> records P (lift_result r) (lift_result r)"
  by (simp add: records_def)

lemma records_silent_lift [records_intros]: "records silent (lift_result r) (lift_result r)"
  by (simp add: records_def)

lemma records_untraced [records_intros]: "records silent (untraced m) m"
  by (simp add: records_def untraced_def split_beta)

lemma records_traced_as: "(\<And>r. P r [event r]) \<Longrightarrow> records P (traced_as event m) m"
  by (simp add: records_def traced_as_def split_beta)

lemma records_bind:
  assumes "records P m' m" and "\<And>x. records (Q x) (f' x) (f x)"
    and "\<And>e es. P (Err e) es \<Longrightarrow> R (Err e) es" "\<And>p es. P (Panic p) es \<Longrightarrow> R (Panic p) es"
    and "\<And>x es1 r es2. P (Ok x) es1 \<Longrightarrow> Q x r es2 \<Longrightarrow> R r (es1 @ es2)"
  shows "records R (bind_eff m' f') (bind_eff m f)"
  unfolding records_def
proof (intro allI)
  fix w l
  from assms(1) obtain es1 where one: "m' (w, l) = (fst (m w), (snd (m w), l @ es1))" "P (fst (m w)) es1"
    unfolding records_def by blast
  show "\<exists>es. bind_eff m' f' (w, l) = (fst (bind_eff m f w), (snd (bind_eff m f w), l @ es)) \<and>
      R (fst (bind_eff m f w)) es"
  proof (cases "fst (m w)")
    case (Ok x)
    from assms(2) [of x] obtain es2 where "f' x (snd (m w), l @ es1) =
        (fst (f x (snd (m w))), (snd (f x (snd (m w))), (l @ es1) @ es2))" "Q x (fst (f x (snd (m w)))) es2"
      unfolding records_def by blast
    with one Ok assms(5) [of x es1] show ?thesis
      by (intro exI [of _ "es1 @ es2"]) (simp add: bind_eff_def split_beta)
  qed (use one assms(3,4) in \<open>auto simp: bind_eff_def split_beta\<close>)
qed

lemma records_silent_bind [records_intros]:
  assumes "records silent m' m" "\<And>x. records silent (f' x) (f x)"
  shows "records silent (bind_eff m' f') (bind_eff m f)"
  by (rule records_bind [OF assms]) simp_all

lemma records_silent_fold [records_intros]:
  "(\<And>x s. records silent (f' x s) (f x s)) \<Longrightarrow> records silent (fold_eff f' xs s) (fold_eff f xs s)"
  by (induction xs arbitrary: s) (auto intro!: records_intros)

text \<open>After a silent call, the events are those of the rest.\<close>

lemma records_after_silent:
  assumes "records silent m' m" "\<And>x. records P (f' x) (f x)" and "\<And>e. P (Err e) []" "\<And>p. P (Panic p) []"
  shows "records P (bind_eff m' f') (bind_eff m f)"
  by (rule records_bind [OF assms(1,2)]) (simp_all add: assms(3,4))

text \<open>A run ends at the first call that fails.\<close>

definition stops_at_failure :: "'a result \<Rightarrow> 'u api_event list \<Rightarrow> bool" where
  "stops_at_failure r es \<longleftrightarrow> (\<forall>e \<in> set (butlast es). event_ok e) \<and> (is_ok r \<longrightarrow> (\<forall>e \<in> set es. event_ok e))"

lemma stops_at_failure_Nil [simp]: "stops_at_failure r []"
  by (simp add: stops_at_failure_def)

lemma stops_at_failure_single [simp]: "stops_at_failure r [e] \<longleftrightarrow> (is_ok r \<longrightarrow> event_ok e)"
  by (simp add: stops_at_failure_def)

lemma stops_at_failure_append:
  "stops_at_failure (Ok x) es1 \<Longrightarrow> stops_at_failure r es2 \<Longrightarrow> stops_at_failure r (es1 @ es2)"
  by (auto simp: stops_at_failure_def butlast_append)

text \<open>One event for every element of a list, up to the first failure.\<close>

definition loop_protocol ::
  "('a \<Rightarrow> 'u api_event \<Rightarrow> bool) \<Rightarrow> 'a list \<Rightarrow> unit result \<Rightarrow> 'u api_event list \<Rightarrow> bool" where
  "loop_protocol event xs r es \<longleftrightarrow>
     stops_at_failure r es \<and> list_all2 event (take (length es) xs) es \<and> (is_ok r \<longrightarrow> length es = length xs)"

lemma for_each_records:
  assumes "\<And>x. records (loop_protocol event [x]) (f' x) (f x)"
  shows "records (loop_protocol event xs) (for_each xs f') (for_each xs f)"
proof (induction xs)
  case Nil
  show ?case by (auto simp: loop_protocol_def simp del: lift_result_simps intro!: records_lift)
next
  case (Cons x xs)
  have first: "loop_protocol event (x # xs) r es" if "loop_protocol event [x] r es" "\<not> is_ok r" for r es
    using that by (cases es) (auto simp: loop_protocol_def stops_at_failure_def take_Cons')
  have both: "loop_protocol event (x # xs) r (es1 @ es2)"
    if "loop_protocol event [x] (Ok u) es1" "loop_protocol event xs r es2" for u r es1 es2
    using that stops_at_failure_append [of u es1 r es2]
    by (cases es1) (auto simp: loop_protocol_def)
  show ?case unfolding for_each.simps by (rule records_bind [OF assms Cons.IH]) (auto intro: first both)
qed

section \<open>The calls of a refresh\<close>

text \<open>A listed object that the refresh deletes, and what it finds to be kept of those it lists.\<close>

definition unwanted :: "('w, 'u) env \<Rightarrow> owner \<Rightarrow> 'u object_list \<Rightarrow> string fset \<Rightarrow> 'u unstructured \<Rightarrow> bool" where
  "unwanted env parent lst ids u \<longleftrightarrow>
     owned_by_parent env (us_meta u) parent \<and>
     (case ol_identity lst (Unstructured u) of Ok i \<Rightarrow> i |\<notin>| ids | _ \<Rightarrow> False)"

definition keep_known ::
  "('w, 'u) env \<Rightarrow> owner \<Rightarrow> 'u object_list \<Rightarrow> string fset \<Rightarrow> 'u unstructured \<Rightarrow>
   (string, 'u unstructured) fmap \<Rightarrow> (string, 'u unstructured) fmap" where
  "keep_known env parent lst ids u ex =
     (if owned_by_parent env (us_meta u) parent
      then (case ol_identity lst (Unstructured u) of Ok i \<Rightarrow> if i |\<in>| ids then fmupd i u ex else ex | _ \<Rightarrow> ex)
      else ex)"

definition deletes :: "'u unstructured list \<Rightarrow> 'u api_event list \<Rightarrow> bool" where
  "deletes us es \<longleftrightarrow> list_all2 (\<lambda>u e. \<exists>reply. e = Deleted u reply) us es"

text \<open>The write of a desired object: the object that names it, and the function that mutates what is there.\<close>

definition writes_item ::
  "('w, 'u) env \<Rightarrow> owner \<Rightarrow> 'u object_list \<Rightarrow> (string, 'u unstructured) fmap \<Rightarrow> client_object \<Rightarrow>
      'u api_event \<Rightarrow> bool" where
  "writes_item env parent lst ex x e \<longleftrightarrow>
     (\<exists>name reply. item_name env parent lst ex x = Ok name \<and>
        e = Wrote (map_obj_meta (\<lambda>m. m\<lparr>meta_namespace := meta_namespace (ow_meta parent),
            meta_name := name\<rparr>) (zero_of_type x))
          (refresh_mutate env parent x) reply)"

text \<open>
  The events of a refresh: it lists, deletes the unwanted objects of the reply in their order, and
  only when all of them are gone writes the desired ones in theirs; it ends at the first failure.
\<close>

definition refresh_protocol ::
  "('w, 'u) env \<Rightarrow> owner \<Rightarrow> 'u object_list \<Rightarrow> unit result \<Rightarrow> 'u api_event list \<Rightarrow> bool" where
  "refresh_protocol env parent lst r es \<longleftrightarrow>
     stops_at_failure r es \<and>
     (es = [] \<and> \<not> is_ok r \<or>
      (\<exists>ids reply dels writes. map_results (\<lambda>obj. ol_identity lst (Typed obj)) (ol_items lst) = Ok ids \<and>
         es = Listed (ol_gvk lst) (in_namespace (meta_namespace (ow_meta parent))) reply # dels @ writes \<and>
         (case reply of
            Ok objs \<Rightarrow>
              (\<exists>us. deletes us dels \<and> prefix us (filter (unwanted env parent lst (fset_of_list ids)) objs) \<and>
                 (writes \<noteq> [] \<or> is_ok r \<longrightarrow> us = filter (unwanted env parent lst (fset_of_list ids)) objs)) \<and>
              list_all2 (writes_item env parent lst (fold (keep_known env parent lst (fset_of_list ids))
                  objs fmempty))
                (take (length writes) (ol_items lst)) writes \<and>
              (is_ok r \<longrightarrow> length writes = length (ol_items lst))
          | _ \<Rightarrow> dels = [] \<and> writes = [])))"

definition deletion_protocol ::
  "('w, 'u) env \<Rightarrow> owner \<Rightarrow> 'u object_list \<Rightarrow> string fset \<Rightarrow> 'u unstructured list \<Rightarrow> (string, 'u unstructured) fmap \<Rightarrow>
   (string, 'u unstructured) fmap result \<Rightarrow> 'u api_event list \<Rightarrow> bool" where
  "deletion_protocol env parent lst ids objs ex r es \<longleftrightarrow>
     stops_at_failure r es \<and>
     (\<exists>us. deletes us es \<and> prefix us (filter (unwanted env parent lst ids) objs) \<and>
        (\<forall>ex'. r = Ok ex' \<longrightarrow> us = filter (unwanted env parent lst ids) objs \<and>
            ex' = fold (keep_known env parent lst ids) objs ex))"

lemma deletion_step:
  "records (\<lambda>r es. deletion_protocol env parent lst ids [u] ex r es)
     (handle_existing_step (traced env) parent lst ids u ex) (handle_existing_step env parent lst ids u ex)"
proof (cases "owned_by_parent env (us_meta u) parent")
  case False
  then show ?thesis
    by (auto simp: handle_existing_step_def owned_by_parent_def deletion_protocol_def deletes_def
        unwanted_def keep_known_def
        simp del: lift_result_simps intro!: records_lift)
next
  case True
  have owned: "owned_by_parent (traced env) (us_meta u) parent" using True by (simp add: owned_by_parent_def)
  show ?thesis
  proof (cases "ol_identity lst (Unstructured u)")
    case (Ok i)
    show ?thesis
    proof (cases "i |\<in>| ids")
      case True
      with Ok owned \<open>owned_by_parent env (us_meta u) parent\<close> show ?thesis
        by (auto simp: handle_existing_step_def deletion_protocol_def deletes_def unwanted_def keep_known_def
            simp del: lift_result_simps intro!: records_lift)
    next
      case False
      have del: "records (\<lambda>r es. es = [Deleted u r]) (env_delete_unstructured (traced env) u)
          (env_delete_unstructured env u)"
        by (simp add: traced_def records_traced_as)
      have keep: "records (\<lambda>r es. r = Ok ex \<and> es = []) (return ex) (return ex)" by (rule records_lift) simp
      have "deletion_protocol env parent lst ids [u] ex r [Deleted u q]"
          if "is_ok r \<longrightarrow> r = Ok ex \<and> is_ok q" for r q
        using that Ok False True
        by (auto simp: deletion_protocol_def deletes_def unwanted_def keep_known_def intro!: exI [of _ "[u]"])
      then have "records (deletion_protocol env parent lst ids [u] ex)
          (bind_eff (env_delete_unstructured (traced env) u) (\<lambda>_. return ex))
          (bind_eff (env_delete_unstructured env u) (\<lambda>_. return ex))"
        by (intro records_bind [OF del keep]) auto
      with Ok False owned True show ?thesis by (simp add: handle_existing_step_def)
    qed
  qed (use owned True in \<open>auto simp: handle_existing_step_def deletion_protocol_def deletes_def
      unwanted_def keep_known_def
        simp del: lift_result_simps intro!: records_lift\<close>)
qed

lemma filter_head: "filter P (x # xs) = filter P [x] @ filter P xs"
  by simp

lemma deletion_protocol_Cons:
  assumes "deletion_protocol env parent lst ids [u] ex (Ok ex1) es1"
      "deletion_protocol env parent lst ids objs ex1 r es2"
  shows "deletion_protocol env parent lst ids (u # objs) ex r (es1 @ es2)"
proof -
  let ?P = "unwanted env parent lst ids"
  from assms obtain us where us: "deletes us es2" "prefix us (filter ?P objs)"
    "\<forall>ex'. r = Ok ex' \<longrightarrow> us = filter ?P objs \<and> ex' = fold (keep_known env parent lst ids) objs ex1"
    unfolding deletion_protocol_def by blast
  from assms(1) have one: "deletes (filter ?P [u]) es1" "ex1 = keep_known env parent lst ids u ex"
    by (auto simp: deletion_protocol_def)
  have "deletes (filter ?P [u] @ us) (es1 @ es2)"
    using one(1) us(1) unfolding deletes_def by (rule list_all2_appendI)
  moreover have "stops_at_failure r (es1 @ es2)"
    using assms unfolding deletion_protocol_def by (blast intro: stops_at_failure_append)
  moreover have "prefix (filter ?P [u] @ us) (filter ?P (u # objs))"
    unfolding filter_head [of ?P u objs] using us(2) by (simp only: same_prefix_prefix)
  ultimately show ?thesis
    unfolding deletion_protocol_def using us(3) one(2) filter_head [of ?P u objs] by (metis fold_simps(2))
qed

lemma deletion_protocol_failed:
  assumes "deletion_protocol env parent lst ids [u] ex r es" "\<not> is_ok r" "\<not> is_ok r'"
  shows "deletion_protocol env parent lst ids (u # objs) ex r' es"
proof -
  let ?P = "unwanted env parent lst ids"
  from assms(1) obtain us where "deletes us es" "prefix us (filter ?P [u])"
    unfolding deletion_protocol_def by blast
  moreover from this(2) have "prefix us (filter ?P (u # objs))"
    unfolding filter_head [of ?P u objs] by (rule prefix_prefix)
  ultimately show ?thesis using assms unfolding deletion_protocol_def stops_at_failure_def
    by (metis is_ok_simps(1))
qed

lemma deletions:
  "records (deletion_protocol env parent lst ids objs ex)
     (fold_eff (handle_existing_step (traced env) parent lst ids) objs ex)
     (fold_eff (handle_existing_step env parent lst ids) objs ex)"
proof (induction objs arbitrary: ex)
  case Nil
  show ?case by (auto simp: deletion_protocol_def deletes_def simp del: lift_result_simps intro!: records_lift)
next
  case (Cons u objs)
  show ?case unfolding fold_eff.simps
    by (rule records_bind [OF deletion_step Cons.IH])
      (auto intro: deletion_protocol_Cons elim: deletion_protocol_failed)
qed

text \<open>The events up to the last deletion, and what is then known to exist.\<close>

definition existing_protocol ::
  "('w, 'u) env \<Rightarrow> owner \<Rightarrow> 'u object_list \<Rightarrow> (string, 'u unstructured) fmap result \<Rightarrow> 'u api_event list \<Rightarrow>
      bool" where
  "existing_protocol env parent lst r es \<longleftrightarrow>
     (es = [] \<and> \<not> is_ok r \<or>
      (\<exists>ids reply dels. map_results (\<lambda>obj. ol_identity lst (Typed obj)) (ol_items lst) = Ok ids \<and>
         es = Listed (ol_gvk lst) (in_namespace (meta_namespace (ow_meta parent))) reply # dels \<and>
         (case reply of
            Ok objs \<Rightarrow> deletion_protocol env parent lst (fset_of_list ids) objs fmempty r dels
          | _ \<Rightarrow> dels = [] \<and> \<not> is_ok r)))"

lemma handle_existing_records:
  "records (existing_protocol env parent lst) (handle_existing (traced env) parent lst)
      (handle_existing env parent lst)"
proof -
  let ?ns = "in_namespace (meta_namespace (ow_meta parent))"
  have ids: "records (\<lambda>r es. r = map_results (\<lambda>obj. ol_identity lst (Typed obj)) (ol_items lst) \<and> es = [])
      (lift_result (map_results (\<lambda>obj. ol_identity lst (Typed obj)) (ol_items lst)))
      (lift_result (map_results (\<lambda>obj. ol_identity lst (Typed obj)) (ol_items lst)))"
    by (rule records_lift) simp
  have list: "records (\<lambda>r es. es = [Listed (ol_gvk lst) ?ns r])
      (env_list_unstructured (traced env) (ol_gvk lst) ?ns) (env_list_unstructured env (ol_gvk lst) ?ns)"
    by (simp add: traced_def records_traced_as)
  show ?thesis unfolding handle_existing_def
    by (rule records_bind [OF ids], rule records_bind [where R = "\<lambda>r es. \<exists>reply dels.
          es = Listed (ol_gvk lst) ?ns reply # dels \<and>
          (case reply of Ok objs \<Rightarrow> deletion_protocol env parent lst (fset_of_list ids) objs fmempty r dels
           | _ \<Rightarrow> dels = [] \<and> \<not> is_ok r)" for ids, OF list deletions])
      (auto simp: existing_protocol_def)
qed

text \<open>The writes, each under the name the refresh chooses.\<close>

abbreviation write_protocol where
  "write_protocol env parent lst ex \<equiv> loop_protocol (writes_item env parent lst ex)"

lemma refresh_mutate_traced [simp]: "refresh_mutate (traced env) = refresh_mutate env"
  by (intro ext) (simp add: refresh_mutate_def)

lemma refresh_item_named:
  "refresh_item env parent lst ex x = bind_eff (lift_result (item_name env parent lst ex x)) (\<lambda>name.
     env_create_or_update env
       (map_obj_meta (\<lambda>m. m\<lparr>meta_namespace := meta_namespace (ow_meta parent), meta_name := name\<rparr>)
           (zero_of_type x))
       (refresh_mutate env parent x))"
  unfolding refresh_item_def item_name_def by (cases "ol_identity lst (Typed x)") simp_all

lemma item_records:
  "records (write_protocol env parent lst ex [x]) (refresh_item (traced env) parent lst ex x)
      (refresh_item env parent lst ex x)"
proof -
  have name: "item_name (traced env) parent lst ex x = item_name env parent lst ex x"
    by (simp add: item_name_def)
  show ?thesis
  proof (cases "item_name env parent lst ex x")
    case (Ok name)
    let ?z = "map_obj_meta (\<lambda>m. m\<lparr>meta_namespace := meta_namespace (ow_meta parent), meta_name := name\<rparr>)
        (zero_of_type x)"
    have "records (write_protocol env parent lst ex [x])
        (env_create_or_update (traced env) ?z (refresh_mutate env parent x)) (env_create_or_update env
            ?z (refresh_mutate env parent x))"
      by (auto simp: traced_def loop_protocol_def writes_item_def Ok intro!: records_traced_as)
    then show ?thesis by (simp add: refresh_item_named name Ok)
  qed (simp_all add: refresh_item_named name loop_protocol_def records_lift del: lift_result_simps)
qed

lemma writes_record:
  "records (write_protocol env parent lst ex xs)
     (for_each xs (refresh_item (traced env) parent lst ex)) (for_each xs (refresh_item env parent lst ex))"
  by (rule for_each_records [OF item_records])

lemma existing_protocol_written:
  assumes "existing_protocol env parent lst (Ok ex) es1" "write_protocol env parent lst ex (ol_items lst) r es2"
  shows "refresh_protocol env parent lst r (es1 @ es2)"
proof -
  from assms(1) obtain ids reply dels
      where ids: "map_results (\<lambda>obj. ol_identity lst (Typed obj)) (ol_items lst) = Ok ids"
    and es1: "es1 = Listed (ol_gvk lst) (in_namespace (meta_namespace (ow_meta parent))) reply # dels"
    and reply: "case reply of Ok objs \<Rightarrow> deletion_protocol env parent lst (fset_of_list ids) objs fmempty
        (Ok ex) dels
      | _ \<Rightarrow> dels = [] \<and> \<not> is_ok (Ok ex)"
    unfolding existing_protocol_def by auto
  from reply obtain objs where objs: "reply = Ok objs"
    "deletion_protocol env parent lst (fset_of_list ids) objs fmempty (Ok ex) dels" by (cases reply) auto
  then have dels: "deletes (filter (unwanted env parent lst (fset_of_list ids)) objs) dels"
    "ex = fold (keep_known env parent lst (fset_of_list ids)) objs fmempty"
      by (auto simp: deletion_protocol_def)
  have "stops_at_failure (Ok ex) es1" using objs by (auto simp: es1 deletion_protocol_def stops_at_failure_def)
  with assms(2) have "stops_at_failure r (es1 @ es2)" unfolding loop_protocol_def
    by (blast intro: stops_at_failure_append)
  with assms(2) ids dels objs(1) show ?thesis by (auto simp: refresh_protocol_def es1 loop_protocol_def)
qed

lemma existing_protocol_failed:
  assumes "existing_protocol env parent lst r es" "\<not> is_ok r" "\<not> is_ok r'"
  shows "refresh_protocol env parent lst r' es"
proof (cases "es = []")
  case False
  with assms(1) obtain ids reply dels
      where ids: "map_results (\<lambda>obj. ol_identity lst (Typed obj)) (ol_items lst) = Ok ids"
    and es: "es = Listed (ol_gvk lst) (in_namespace (meta_namespace (ow_meta parent))) reply # dels"
    and reply: "case reply of Ok objs \<Rightarrow> deletion_protocol env parent lst (fset_of_list ids) objs fmempty r dels
      | _ \<Rightarrow> dels = [] \<and> \<not> is_ok r"
    unfolding existing_protocol_def by auto
  have "stops_at_failure r' es \<and> (case reply of Ok objs \<Rightarrow> \<exists>us. deletes us dels \<and>
      prefix us (filter (unwanted env parent lst (fset_of_list ids)) objs) | _ \<Rightarrow> dels = [])"
    using reply assms(2,3) by (cases reply) (auto simp: es deletion_protocol_def stops_at_failure_def)
  with ids assms(3) show ?thesis
    unfolding refresh_protocol_def es
    by (intro conjI disjI2 exI [of _ ids] exI [of _ reply] exI [of _ dels] exI [of _ "[]"]) (auto split:
        result.splits)
qed (use assms(3) in \<open>simp add: refresh_protocol_def\<close>)

lemma refresh_records:
  "records (refresh_protocol env parent lst) (refresh (traced env) parent lst) (refresh env parent lst)"
  unfolding refresh_def
  by (rule records_bind [OF handle_existing_records writes_record])
    (auto intro: existing_protocol_written elim: existing_protocol_failed)

text \<open>What is written is a desired object, and after a success every desired object has been.\<close>

lemma refresh_protocol_parts:
  assumes "refresh_protocol env parent lst r es" "es \<noteq> [] \<or> is_ok r"
  obtains g opts reply us dels ex writes where "es = Listed g opts reply # dels @ writes" "deletes us dels"
    "list_all2 (writes_item env parent lst ex) (take (length writes) (ol_items lst)) writes"
    "is_ok r \<Longrightarrow> length writes = length (ol_items lst)"
proof -
  from assms obtain ids reply dels writes
      where es: "es = Listed (ol_gvk lst) (in_namespace (meta_namespace (ow_meta parent))) reply # dels
          @ writes"
    and stops: "stops_at_failure r es"
    and rest: "case reply of
      Ok objs \<Rightarrow>
        (\<exists>us. deletes us dels \<and> prefix us (filter (unwanted env parent lst (fset_of_list ids)) objs) \<and>
           (writes \<noteq> [] \<or> is_ok r \<longrightarrow> us = filter (unwanted env parent lst (fset_of_list ids)) objs)) \<and>
        list_all2 (writes_item env parent lst (fold (keep_known env parent lst (fset_of_list ids)) objs
            fmempty))
          (take (length writes) (ol_items lst)) writes \<and>
        (is_ok r \<longrightarrow> length writes = length (ol_items lst))
    | _ \<Rightarrow> dels = [] \<and> writes = []"
    unfolding refresh_protocol_def by blast
  show thesis
  proof (cases "is_ok reply")
    case True
    then obtain objs where objs: "reply = Ok objs" by (cases reply) auto
    from rest [unfolded objs result.case] obtain us where "deletes us dels" by blast
    from that [OF es this] rest [unfolded objs result.case] show ?thesis by blast
  next
    case False
    have "\<not> is_ok r" using stops False by (auto simp: stops_at_failure_def es)
    moreover have "dels = []" "writes = []" using rest False by (cases reply; simp)+
    ultimately show ?thesis using that [OF es, of "[]"] by (simp add: deletes_def)
  qed
qed

lemma refresh_protocol_wrote:
  assumes "refresh_protocol env parent lst r es" "Wrote c f q \<in> set es"
  shows "\<exists>x \<in> set (ol_items lst). resource_of c = resource_of x \<and> f = refresh_mutate env parent x \<and>
    meta_namespace (obj_meta c) = meta_namespace (ow_meta parent)"
proof -
  from assms(2) have "es \<noteq> [] \<or> is_ok r" by auto
  from assms(1) this obtain g opts reply us dels ex writes where es: "es = Listed g opts reply # dels @ writes"
    and dels: "deletes us dels"
      and writes: "list_all2 (writes_item env parent lst ex) (take (length writes) (ol_items lst)) writes"
    by (rule refresh_protocol_parts)
  from dels have "Wrote c f q \<notin> set dels" unfolding deletes_def by (induction rule: list_all2_induct) auto
  with assms(2) es have "Wrote c f q \<in> set writes" by auto
  from list_all2_right [OF writes this] obtain x where
    "x \<in> set (take (length writes) (ol_items lst))" "writes_item env parent lst ex x (Wrote c f q)" by blast
  then show ?thesis by (auto simp: writes_item_def dest: in_set_takeD)
qed

text \<open>The existing object with an identity is the last one listed of the parent with it.\<close>

definition listed_as ::
  "('w, 'u) env \<Rightarrow> owner \<Rightarrow> 'u object_list \<Rightarrow> string \<Rightarrow> 'u unstructured list \<Rightarrow> 'u unstructured list" where
  "listed_as env parent lst i us =
     filter (\<lambda>u. owned_by_parent env (us_meta u) parent \<and> ol_identity lst (Unstructured u) = Ok i) us"

lemma keep_known_lookup:
  "i |\<in>| ids \<Longrightarrow> fmlookup (fold (keep_known env parent lst ids) us ex) i =
     (if listed_as env parent lst i us = [] then fmlookup ex i else Some
         (last (listed_as env parent lst i us)))"
proof (induction us arbitrary: ex)
  case (Cons u us)
  have "fmlookup (keep_known env parent lst ids u ex) i =
      (if owned_by_parent env (us_meta u) parent \<and> ol_identity lst (Unstructured u) = Ok i then Some u
       else fmlookup ex i)"
    using Cons.prems by (auto simp: keep_known_def split: result.split)
  with Cons.IH [OF Cons.prems] show ?case by (auto simp: listed_as_def)
qed (simp add: listed_as_def)

text \<open>So each desired object has been written under the name of that one, or under its default name.\<close>

lemma refresh_protocol_all_written:
  assumes "refresh_protocol env parent lst r es" "is_ok r" "x \<in> set (ol_items lst)"
      "ol_identity lst (Typed x) = Ok i"
  obtains us name c where
    "Listed (ol_gvk lst) (in_namespace (meta_namespace (ow_meta parent))) (Ok us) \<in> set es"
    "(if listed_as env parent lst i us = [] then default_name env parent lst x
      else Ok (meta_name (us_meta (last (listed_as env parent lst i us))))) = Ok name"
    "Wrote c (refresh_mutate env parent x) (Ok ()) \<in> set es" "resource_of c = resource_of x"
    "meta_key (obj_meta c) = NN (meta_namespace (ow_meta parent)) name"
proof -
  let ?ns = "meta_namespace (ow_meta parent)"
  from assms(1,2) have ok: "\<forall>e \<in> set es. event_ok e" by (simp add: refresh_protocol_def stops_at_failure_def)
  from assms(1) obtain ids reply dels writes
    where ids: "map_results (\<lambda>obj. ol_identity lst (Typed obj)) (ol_items lst) = Ok ids"
      and es: "es = Listed (ol_gvk lst) (in_namespace ?ns) reply # dels @ writes"
      and rest: "case reply of
        Ok objs \<Rightarrow> (\<exists>us. deletes us dels \<and> prefix us (filter (unwanted env parent lst (fset_of_list ids)) objs) \<and>
             (writes \<noteq> [] \<or> is_ok r \<longrightarrow> us = filter (unwanted env parent lst (fset_of_list ids)) objs)) \<and>
          list_all2 (writes_item env parent lst (fold (keep_known env parent lst (fset_of_list ids))
            objs fmempty)) (take (length writes) (ol_items lst)) writes \<and>
          (is_ok r \<longrightarrow> length writes = length (ol_items lst))
      | _ \<Rightarrow> dels = [] \<and> writes = []"
    unfolding refresh_protocol_def using assms(2) by blast
  from ok es obtain us where reply: "reply = Ok us" by (cases reply) auto
  let ?ex = "fold (keep_known env parent lst (fset_of_list ids)) us fmempty"
  have "length writes = length (ol_items lst)"
    "list_all2 (writes_item env parent lst ?ex) (take (length writes) (ol_items lst)) writes"
    using rest [unfolded reply result.case] assms(2) by blast+
  then have "list_all2 (writes_item env parent lst ?ex) (ol_items lst) writes"
    by (simp only: take_all order_refl)
  from list_all2_left [OF this assms(3)] obtain e where
    e: "e \<in> set writes" "writes_item env parent lst ?ex x e" by blast
  then obtain name q where name: "item_name env parent lst ?ex x = Ok name"
    and e_eq: "e = Wrote (map_obj_meta (\<lambda>m. m\<lparr>meta_namespace := ?ns, meta_name := name\<rparr>) (zero_of_type x))
      (refresh_mutate env parent x) q"
    by (auto simp: writes_item_def)
  define c where "c = map_obj_meta (\<lambda>m. m\<lparr>meta_namespace := ?ns, meta_name := name\<rparr>) (zero_of_type x)"
  have c: "e = Wrote c (refresh_mutate env parent x) q" "resource_of c = resource_of x"
    "meta_key (obj_meta c) = NN ?ns name"
    using e_eq by (simp_all add: c_def meta_key_def)
  have "i |\<in>| fset_of_list ids"
    using assms(3,4) desired_ids [OF ids] by (auto simp: desired_identity_def)
  from keep_known_lookup [OF this, of env parent lst us fmempty] name assms(4)
  have "(if listed_as env parent lst i us = [] then default_name env parent lst x
      else Ok (meta_name (us_meta (last (listed_as env parent lst i us))))) = Ok name"
    by (auto simp: item_name_def default_name_def refresh_name_def split: if_splits)
  moreover have "Wrote c (refresh_mutate env parent x) (Ok ()) \<in> set es"
  proof -
    have "e \<in> set es" using e(1) es by simp
    with ok have "event_ok e" by blast
    with \<open>e \<in> set es\<close> c(1) show ?thesis by (cases q) auto
  qed
  ultimately show thesis using that es reply c by auto
qed

section \<open>The calls of an update of a fork\<close>

lemma traced_reads [simp]:
  "api_get (env_forks (traced env)) k = untraced (api_get (env_forks env) k)"
  "api_get (env_fork_managers (traced env)) k = untraced (api_get (env_fork_managers env) k)"
  "api_list (env_services (traced env)) opts = untraced (api_list (env_services env) opts)"
  "api_list (env_deployments (traced env)) opts = untraced (api_list (env_deployments env) opts)"
  by (simp_all add: traced_def untraced_api_def)

lemma build_app_silent: "records silent (build_app (traced env) ord fork) (build_app env ord fork)"
proof -
  have "records silent (collect_deployments (traced env) fork svc ms) (collect_deployments env fork svc
      ms)" for svc ms
    by (auto simp: collect_deployments_def list_deployments_routable_from_svc_def routable_from_def
        simp del: lift_result_simps intro!: records_intros split: option.split)
  moreover have "records silent (fork_target_services (traced env) fork) (fork_target_services env fork)"
    by (auto simp: fork_target_services_def simp del: lift_result_simps intro!: records_intros split:
        option.split)
  ultimately show ?thesis
    by (auto simp: build_app_def get_fork_header_key_def existing_forked_services_def
        simp del: lift_result_simps intro!: records_intros split: prod.split)
qed

lemma generate_app_lists_traced [simp]: "generate_app_lists (traced env) = generate_app_lists env"
proof -
  have "vsconfig_identity (traced env) x = vsconfig_identity env x" for x
    by (cases "(env, x)" rule: vsconfig_identity.cases) auto
  then have "vsconfig_identity (traced env) = vsconfig_identity env" by blast
  then show ?thesis by (intro ext) (simp add: generate_app_lists_def generate_vsconfigs_def)
qed

text \<open>One refresh after the other, the next one only after a success.\<close>

fun lists_protocol ::
  "('w, 'u) env \<Rightarrow> owner \<Rightarrow> 'u object_list list \<Rightarrow> unit result \<Rightarrow> 'u api_event list \<Rightarrow> bool" where
  "lists_protocol env parent [] r es = (es = [] \<and> r = Ok ())"
| "lists_protocol env parent (lst # lsts) r es =
     (\<not> is_ok r \<and> refresh_protocol env parent lst r es \<or>
      (\<exists>es1 es2. refresh_protocol env parent lst (Ok ()) es1 \<and> lists_protocol env parent lsts r es2 \<and>
          es = es1 @ es2))"

lemma lists_record:
  "records (lists_protocol env parent lsts) (for_each lsts (refresh (traced env) parent))
      (for_each lsts (refresh env parent))"
proof (induction lsts)
  case (Cons lst lsts)
  show ?case unfolding for_each.simps by (rule records_bind [OF refresh_records Cons.IH]) auto
qed (auto simp del: lift_result_simps intro: records_lift)

definition fork_protocol ::
  "('w, 'u) env \<Rightarrow> string order \<Rightarrow> fork \<Rightarrow> unit result \<Rightarrow> 'u api_event list \<Rightarrow> bool" where
  "fork_protocol env ord fork r es \<longleftrightarrow>
     es = [] \<or> (\<exists>a lsts. generate_app_lists env ord a = Ok lsts \<and>
         lists_protocol env (fork_owner fork) lsts r es)"

lemma found_fork_records:
  "records (fork_protocol env ord fork)
     (bind_eff (build_app (traced env) ord fork)
         (\<lambda>app. bind_eff (lift_result (generate_app_lists (traced env) ord app))
       (\<lambda>lsts. for_each lsts (refresh (traced env) (fork_owner fork)))))
     (bind_eff (build_app env ord fork) (\<lambda>app. bind_eff (lift_result (generate_app_lists env ord app))
       (\<lambda>lsts. for_each lsts (refresh env (fork_owner fork)))))"
proof (rule records_after_silent [OF build_app_silent])
  fix a
  show "records (fork_protocol env ord fork)
      (bind_eff (lift_result (generate_app_lists (traced env) ord a))
          (\<lambda>lsts. for_each lsts (refresh (traced env) (fork_owner fork))))
      (bind_eff (lift_result (generate_app_lists env ord a))
          (\<lambda>lsts. for_each lsts (refresh env (fork_owner fork))))"
  proof (cases "generate_app_lists env ord a")
    case (Ok lsts)
    have "records (fork_protocol env ord fork) (for_each lsts (refresh (traced env) (fork_owner fork)))
        (for_each lsts (refresh env (fork_owner fork)))"
      by (rule records_mono [OF lists_record]) (use Ok in \<open>auto simp: fork_protocol_def\<close>)
    then show ?thesis by (simp add: Ok)
  qed (simp_all add: fork_protocol_def records_lift del: lift_result_simps)
qed (simp_all add: fork_protocol_def)

text \<open>An update makes no calls, or those for the fork that it has read.\<close>

lemma microservice_update_calls:
  assumes "microservice_update (traced env) ord q (w, []) = (r, (w', es))"
  shows "microservice_update env ord q w = (r, w')"
    and "es = [] \<or> (\<exists>fork w0. api_get (env_forks env) q w = (Ok fork, w0) \<and> fork_protocol env ord fork r es)"
proof -
  obtain res w1 where get: "api_get (env_forks env) q w = (res, w1)" by (cases "api_get (env_forks env) q w")
  have "microservice_update env ord q w = (r, w') \<and>
    (es = [] \<or> (\<exists>fork w0. api_get (env_forks env) q w = (Ok fork, w0) \<and> fork_protocol env ord fork r es))"
  proof (cases res)
    case (Ok fork)
    with get assms recordsD [OF found_fork_records, of env ord fork w1 "[]" r w' es] show ?thesis
      by (simp add: microservice_update_def untraced_def)
  next
    case (Err e)
    with get assms show ?thesis by (cases e) (simp_all add: microservice_update_def untraced_def)
  qed (use get assms in \<open>simp add: microservice_update_def untraced_def\<close>)
  then show "microservice_update env ord q w = (r, w')"
    "es = [] \<or> (\<exists>fork w0. api_get (env_forks env) q w = (Ok fork, w0) \<and>
        fork_protocol env ord fork r es)" by auto
qed

text \<open>So a route is only written when the copy it leads to has been.\<close>

lemma lists_protocol_skip:
  assumes "lists_protocol env p (lst # lsts) r es" and "e \<in> set es"
    and "\<And>q es1. refresh_protocol env p lst q es1 \<Longrightarrow> e \<notin> set es1"
  obtains es1 es2 where "es = es1 @ es2" "refresh_protocol env p lst (Ok ()) es1"
      "lists_protocol env p lsts r es2"
    "e \<notin> set es1" "e \<in> set es2"
proof -
  from assms(1,3) assms(2) obtain es1 es2 where "refresh_protocol env p lst (Ok ()) es1"
      "lists_protocol env p lsts r es2"
    "es = es1 @ es2" by (metis lists_protocol.simps(2))
  with that assms(2,3) show ?thesis by (metis Un_iff set_append)
qed

lemma generate_deployment_copies_resource:
  assumes "generate_deployment_copies ord a = Ok dcs" and "x \<in> set (ol_items dcs)"
  shows "resource_of x = RDeploymentCopy"
proof -
  have "list_all2 (\<lambda>_ x. resource_of x = RDeploymentCopy) (app_deployments a) (ol_items dcs)"
    using assms(1) by (auto simp: generate_deployment_copies_def result_simps map_results_eq_Ok elim!:
        list_all2_mono)
  with assms(2) show ?thesis by (blast dest: list_all2_right)
qed

lemma fork_protocol_routes:
  fixes env :: "('w, 'u) env"
  assumes "fork_protocol env ord fork r (pre @ Wrote c f reply # post)" "resource_of c = RVSConfig"
    and "range_order ord"
  obtains a svc us c' where "svc \<in> set (app_services a)"
    "f = refresh_mutate env (fork_owner fork) (OVSConfig (build_vsconfig svc (app_fork a) (app_fork_header a)))"
    "meta_namespace (obj_meta c) = meta_namespace (fork_meta fork)"
    "Listed service_list_gvk (in_namespace (meta_namespace (fork_meta fork))) (Ok us) \<in> set pre"
    "Wrote c' (refresh_mutate env (fork_owner fork) (OService (labelled_service_copy ord a svc)))
        (Ok ()) \<in> set pre"
    "resource_of c' = RService" "meta_namespace (obj_meta c') = meta_namespace (fork_meta fork)"
    "meta_name (obj_meta c') =
      (let copies = filter (\<lambda>u. owned_by_parent env (us_meta u) (fork_owner fork) \<and>
         original_name (meta_labels (us_meta u)) = meta_name (svc_meta svc)) us
       in if copies = [] then take 63 (service_name svc (app_fork a)) else meta_name (us_meta (last copies)))"
proof -
  let ?e = "Wrote c f reply"
  from assms(1) obtain a dcs where dcs: "generate_deployment_copies ord a = Ok dcs"
    and events: "lists_protocol env (fork_owner fork) [dcs, generate_services ord a,
        generate_vsconfigs env a] r (pre @ ?e # post)"
    by (auto simp: fork_protocol_def generate_app_lists_def result_simps)
  have absent: "?e \<notin> set es" if "\<forall>x \<in> set (ol_items lst). resource_of x \<noteq> RVSConfig"
    "refresh_protocol env (fork_owner fork) lst q es" for lst q es
    using refresh_protocol_wrote [OF that(2)] that(1) assms(2) by metis
  have no_dc: "\<forall>x \<in> set (ol_items dcs). resource_of x \<noteq> RVSConfig"
    using generate_deployment_copies_resource [OF dcs] by auto
  have no_svc: "\<forall>x \<in> set (ol_items (generate_services ord a :: 'u object_list)). resource_of x \<noteq> RVSConfig"
    by (auto simp: generate_services_def)
  obtain es1 rest where one: "pre @ ?e # post = es1 @ rest" "?e \<notin> set es1" "?e \<in> set rest"
    and rest: "lists_protocol env (fork_owner fork) [generate_services ord a, generate_vsconfigs env a] r rest"
    by (rule lists_protocol_skip [OF events _ absent [OF no_dc]]) auto
  obtain es2 es3 where two: "rest = es2 @ es3" "?e \<notin> set es2" "?e \<in> set es3"
    and es2: "refresh_protocol env (fork_owner fork) (generate_services ord a) (Ok ()) es2"
    and es3: "lists_protocol env (fork_owner fork) [generate_vsconfigs env a] r es3"
    by (rule lists_protocol_skip [OF rest one(3) absent [OF no_svc]]) auto
  have before: "set es2 \<subseteq> set pre"
    using one two by (auto simp: append_eq_append_conv2 append_eq_Cons_conv Cons_eq_append_conv)
  from es3 obtain q where vs: "refresh_protocol env (fork_owner fork) (generate_vsconfigs env a) q es3" by auto
  from refresh_protocol_wrote [OF vs two(3)] obtain svc where svc: "svc \<in> set (app_services a)"
    "f = refresh_mutate env (fork_owner fork) (OVSConfig (build_vsconfig svc (app_fork a) (app_fork_header a)))"
    and ns: "meta_namespace (obj_meta c) = meta_namespace (fork_meta fork)"
    by (auto simp: generate_vsconfigs_def fork_owner_def)
  let ?lst = "generate_services ord a :: 'u object_list" and ?x = "OService (labelled_service_copy ord a svc)"
  have x: "?x \<in> set (ol_items ?lst)" using svc(1) by (simp add: generate_services_def)
  have id: "ol_identity ?lst obj = Ok (original_name (meta_labels (any_meta obj)))" for obj
    by (simp add: generate_services_def original_name_def)
  have ident: "ol_identity ?lst (Typed ?x) = Ok (meta_name (svc_meta svc))"
    using labelled_service_copy_original [OF assms(3)] by (simp add: id)
  have default: "default_name env (fork_owner fork) ?lst ?x = Ok (take 63 (service_name svc (app_fork a)))"
    by (subst default_name_short [OF ident]) simp_all
  from refresh_protocol_all_written [OF es2 _ x ident] obtain us name c' where
    "Listed service_list_gvk (in_namespace (meta_namespace (fork_meta fork))) (Ok us) \<in> set es2"
    "(if listed_as env (fork_owner fork) ?lst (meta_name (svc_meta svc)) us = []
      then default_name env (fork_owner fork) ?lst ?x
      else Ok (meta_name (us_meta (last (listed_as env (fork_owner fork) ?lst (meta_name (svc_meta svc))
          us))))) =
      Ok name"
    "Wrote c' (refresh_mutate env (fork_owner fork) ?x) (Ok ()) \<in> set es2" "resource_of c' = RService"
    "meta_key (obj_meta c') = NN (meta_namespace (fork_meta fork)) name"
    by (auto simp: generate_services_def fork_owner_def)
  note written = this
  let ?copies = "filter (\<lambda>u. owned_by_parent env (us_meta u) (fork_owner fork) \<and>
    original_name (meta_labels (us_meta u)) = meta_name (svc_meta svc)) us"
  have "listed_as env (fork_owner fork) ?lst (meta_name (svc_meta svc)) us = ?copies"
    by (simp add: listed_as_def id)
  with written(2) default have "name = (if ?copies = [] then take 63 (service_name svc (app_fork a))
      else meta_name (us_meta (last ?copies)))" by (simp split: if_splits)
  with written(5) have name: "meta_namespace (obj_meta c') = meta_namespace (fork_meta fork)"
    "meta_name (obj_meta c') = (let copies = ?copies in if copies =
        [] then take 63 (service_name svc (app_fork a))
      else meta_name (us_meta (last copies)))" by (simp_all add: meta_key_def)
  show thesis
    by (rule that [OF svc ns subsetD [OF before written(1)] subsetD [OF before written(3)] written(4) name])
qed

section \<open>The types of the calls\<close>

text \<open>
  The calls of a refresh of one resource: the first lists one kind in the namespace of the parent, each
  further one deletes an object that was listed and that the parent owns, or writes an object of the
  resource there, from a desired object of the same type.
\<close>

definition typed_calls :: "('w, 'u) env \<Rightarrow> owner \<Rightarrow> gvk \<Rightarrow> resource \<Rightarrow> 'u api_event list \<Rightarrow> bool" where
  "typed_calls env parent g r es \<longleftrightarrow>
     es = [] \<or>
     (\<exists>reply calls. es = Listed g (in_namespace (meta_namespace (ow_meta parent))) reply # calls \<and>
        (\<forall>e \<in> set calls.
           (\<exists>u q us. e = Deleted u q \<and> reply = Ok us \<and> u \<in> set us \<and> owned_by_parent env (us_meta u) parent) \<or>
           (\<exists>x c q. e = Wrote c (refresh_mutate env parent x) q \<and> resource_of x = r \<and> resource_of c = r \<and>
              meta_namespace (obj_meta c) = meta_namespace (ow_meta parent))))"

lemma refresh_protocol_typed:
  assumes "refresh_protocol env parent lst q es" and "\<forall>x \<in> set (ol_items lst). resource_of x = r"
  shows "typed_calls env parent (ol_gvk lst) r es"
proof (cases "es = []")
  case False
  with assms(1) obtain ids reply dels writes
    where es: "es = Listed (ol_gvk lst) (in_namespace (meta_namespace (ow_meta parent))) reply # dels @ writes"
      and rest: "case reply of
        Ok objs \<Rightarrow> (\<exists>us. deletes us dels \<and> prefix us (filter (unwanted env parent lst (fset_of_list ids)) objs) \<and>
             (writes \<noteq> [] \<or> is_ok q \<longrightarrow> us = filter (unwanted env parent lst (fset_of_list ids)) objs)) \<and>
          list_all2 (writes_item env parent lst (fold (keep_known env parent lst (fset_of_list ids))
            objs fmempty)) (take (length writes) (ol_items lst)) writes \<and>
          (is_ok q \<longrightarrow> length writes = length (ol_items lst))
      | _ \<Rightarrow> dels = [] \<and> writes = []"
    unfolding refresh_protocol_def by blast
  have "\<exists>u q us. e = Deleted u q \<and> reply = Ok us \<and> u \<in> set us \<and> owned_by_parent env (us_meta u) parent"
    if e: "e \<in> set dels" for e
  proof (cases reply)
    case (Ok objs)
    from rest [unfolded Ok result.case] obtain us where us: "deletes us dels"
      "prefix us (filter (unwanted env parent lst (fset_of_list ids)) objs)" by blast
    from list_all2_right [OF us(1) [unfolded deletes_def] e] obtain u q' where "u \<in> set us" "e = Deleted u q'"
      by blast
    with set_mono_prefix [OF us(2)] Ok show ?thesis by (auto simp: unwanted_def)
  qed (use rest e in simp_all)
  moreover have "\<exists>x c q. e = Wrote c (refresh_mutate env parent x) q \<and> resource_of x = r \<and> resource_of c = r \<and>
      meta_namespace (obj_meta c) = meta_namespace (ow_meta parent)" if e: "e \<in> set writes" for e
  proof (cases reply)
    case (Ok objs)
    from rest [unfolded Ok result.case] have "list_all2 (writes_item env parent lst
        (fold (keep_known env parent lst (fset_of_list ids)) objs fmempty))
            (take (length writes) (ol_items lst)) writes"
      by blast
    from list_all2_right [OF this e] obtain x name q' where x: "x \<in> set (take (length writes) (ol_items lst))"
      "e = Wrote (map_obj_meta (\<lambda>m. m\<lparr>meta_namespace := meta_namespace (ow_meta parent), meta_name := name\<rparr>)
        (zero_of_type x)) (refresh_mutate env parent x) q'"
      unfolding writes_item_def by blast
    with assms(2) have "resource_of x = r" by (blast dest: in_set_takeD)
    then show ?thesis by (intro exI conjI) (rule x(2), simp_all)
  qed (use rest e in simp_all)
  ultimately show ?thesis unfolding typed_calls_def es by auto
qed (simp add: typed_calls_def)

lemma lists_protocol_typed:
  assumes "lists_protocol env parent lsts q es"
    and "list_all2 (\<lambda>l (g, r). ol_gvk l = g \<and> (\<forall>x \<in> set (ol_items l). resource_of x = r)) lsts kinds"
  shows "\<exists>ess. es = concat ess \<and> list_all2 (\<lambda>(g, r) es. typed_calls env parent g r es) kinds ess"
  using assms(2,1)
proof (induction lsts kinds arbitrary: es rule: list_all2_induct)
  case (Cons l lsts gr kinds)
  obtain g r where gr: "gr = (g, r)" by (cases gr)
  note typed = refresh_protocol_typed [where lst = l and r = r]
  from Cons.prems consider "refresh_protocol env parent l q es"
    | es1 es2 where "refresh_protocol env parent l (Ok ()) es1" "lists_protocol env parent lsts q es2"
        "es = es1 @ es2"
    by auto
  then show ?case
  proof cases
    case 1
    have "list_all2 (\<lambda>(g, r) es. typed_calls env parent g r es) kinds (replicate (length kinds) [])"
      by (auto simp: list_all2_conv_all_nth typed_calls_def)
    with typed [OF 1] Cons.hyps(1) gr show ?thesis
      by (intro exI [of _ "es # replicate (length kinds) []"]) auto
  next
    case 2
    from Cons.IH [OF 2(2)] obtain ess where "es2 = concat ess"
      "list_all2 (\<lambda>(g, r) es. typed_calls env parent g r es) kinds ess" by blast
    with typed [OF 2(1)] Cons.hyps(1) gr 2(3) show ?thesis by (intro exI [of _ "es1 # ess"]) auto
  qed
qed auto

end
