(* ===== verification/MappingTrace.thy ===== *)
theory MappingTrace
  imports CallTrace
begin

text \<open>
  The calls on Mappings that the update of a manager makes, in their order, whatever the API server
  replies: it lists the Mappings labelled with the manager's name, writes every desired one, and
  only then deletes those of the list that are not desired.
\<close>

section \<open>The loops without their state\<close>

text \<open>
  The loops of the update carry the set of Mappings to delete. Nothing in them depends on it, so
  the writes are a loop of their own, over the pairs of identifiers and upstreams.
\<close>

lemma fold_eff_append: "fold_eff f (xs @ ys) = (\<lambda>s. bind_eff (fold_eff f xs s) (fold_eff f ys))"
  by (induction xs) (auto simp: bind_eff_assoc simp del: lift_result_simps)

lemma fold_eff_map: "fold_eff f (map g xs) = fold_eff (\<lambda>x. f (g x)) xs"
  by (induction xs) (auto simp del: lift_result_simps)

lemma fold_eff_product:
  "fold_eff (\<lambda>i. fold_eff (g i) us) is = fold_eff (\<lambda>(i, u). g i u) (List.product is us)"
  by (induction "is") (auto simp: fold_eff_append fold_eff_map simp del: lift_result_simps)

lemma fold_eff_for_each:
  "fold_eff (\<lambda>x s. bind_eff (m x) (\<lambda>_. return (h x s))) xs s = bind_eff (for_each xs m)
      (\<lambda>_. return (fold h xs s))"
proof (induction xs arbitrary: s)
  case (Cons x xs)
  then show ?case by (simp add: bind_eff_assoc del: lift_result_simps)
qed (simp del: lift_result_simps)

lemma fold_removed_slugs: "fold (\<lambda>x c. c |-| {|k x|}) xs c = c |-| fset_of_list (map k xs)"
  by (induction xs arbitrary: c) auto

type_synonym mapping_pair = "string \<times> upstream"

definition pair_slug :: "fork_manager \<Rightarrow> mapping_pair \<Rightarrow> namespaced_name" where
  "pair_slug fm = (\<lambda>(i, u). mapping_slug fm i u)"

definition pair_mutate ::
  "('w, 'u) env \<Rightarrow> string order \<Rightarrow> namespaced_name \<Rightarrow> fork_manager \<Rightarrow> fork list \<Rightarrow> mapping_pair \<Rightarrow> mapping \<Rightarrow>
      mapping result" where
  "pair_mutate env ord slug fm forks = (\<lambda>(i, u). mapping_mutate env ord slug fm u i (forks_of forks i))"

definition write_pair ::
  "('w, 'u) env \<Rightarrow> string order \<Rightarrow> namespaced_name \<Rightarrow> fork_manager \<Rightarrow> fork list \<Rightarrow> mapping_pair \<Rightarrow>
      ('w, unit) eff" where
  "write_pair env ord slug fm forks p =
     api_create_or_update (env_mappings env) (named_mapping (pair_slug fm p)) (pair_mutate env ord slug
         fm forks p)"

definition mapping_pairs :: "string order \<Rightarrow> fork_manager \<Rightarrow> fork list \<Rightarrow> mapping_pair list" where
  "mapping_pairs ord fm forks = List.product (ord (fmdom (group_forks_by_identifier forks)))
      (fm_upstreams (fm_spec fm))"

lemma update_identifiers_flat:
  "fold_eff (update_identifier env ord slug fm (group_forks_by_identifier forks))
     (ord (fmdom (group_forks_by_identifier forks))) c =
   bind_eff (for_each (mapping_pairs ord fm forks) (write_pair env ord slug fm forks))
     (\<lambda>_. return (c |-| fset_of_list (map (pair_slug fm) (mapping_pairs ord fm forks))))"
proof -
  have "update_identifier env ord slug fm (group_forks_by_identifier forks) =
      (\<lambda>i. fold_eff (\<lambda>u c. bind_eff (write_pair env ord slug fm forks (i, u))
          (\<lambda>_. return (c |-| {|pair_slug fm (i, u)|})))
         (fm_upstreams (fm_spec fm)))"
    by (intro ext) (simp add: update_identifier_def update_upstream_def [abs_def] write_pair_def
        pair_slug_def pair_mutate_def
        mapping_slug_def group_forks_list forks_of_def Let_def del: lift_result_simps)
  then show ?thesis
    by (simp only: fold_eff_product mapping_pairs_def case_prod_unfold prod.collapse fold_eff_for_each
        fold_removed_slugs)
qed

section \<open>The protocol\<close>

definition mapping_wrote ::
  "('w, 'u) env \<Rightarrow> string order \<Rightarrow> namespaced_name \<Rightarrow> fork_manager \<Rightarrow> fork list \<Rightarrow> mapping_pair \<Rightarrow>
      'u api_event \<Rightarrow> bool" where
  "mapping_wrote env ord slug fm forks p e \<longleftrightarrow>
     (\<exists>reply. e = MappingWrote (pair_slug fm p) (pair_mutate env ord slug fm forks p) reply)"

definition mapping_deleted :: "namespaced_name \<Rightarrow> 'u api_event \<Rightarrow> bool" where
  "mapping_deleted k e \<longleftrightarrow> (\<exists>reply. e = MappingDeleted k reply)"

text \<open>The Mappings to delete: those listed that no pair wants.\<close>

definition unwanted_mappings :: "string order \<Rightarrow> fork_manager \<Rightarrow> fork list \<Rightarrow> mapping list \<Rightarrow>
    namespaced_name fset" where
  "unwanted_mappings ord fm forks mps =
     fset_of_list (map (\<lambda>mp. meta_key (mp_meta mp)) mps) |-| fset_of_list
         (map (pair_slug fm) (mapping_pairs ord fm forks))"

text \<open>The part of the update that touches Mappings, given the manager and the forks.\<close>

definition mapping_writes_and_deletes ::
  "('w, 'u) env \<Rightarrow> string order \<Rightarrow> namespaced_name order \<Rightarrow> namespaced_name \<Rightarrow> fork_manager \<Rightarrow> fork list \<Rightarrow>
   mapping list \<Rightarrow> ('w, unit) eff" where
  "mapping_writes_and_deletes env ord nn_ord slug fm forks mps =
     bind_eff (for_each (mapping_pairs ord fm forks) (write_pair env ord slug fm forks)) (\<lambda>_.
     for_each (nn_ord (unwanted_mappings ord fm forks mps)) (\<lambda>k. api_delete (env_mappings env)
         (named_mapping k)))"

definition labelled_with :: "('w, 'u) env \<Rightarrow> requirement \<Rightarrow> list_options" where
  "labelled_with env req =
     \<lparr>lo_selector = Some (env_selector_add env (env_labels_everything env) req), lo_namespace = ''''\<rparr>"

lemma mapping_update_flat:
  "mapping_update env ord nn_ord slug =
     bind_eff (api_get (env_fork_managers env) slug) (\<lambda>fm.
     bind_eff (api_list (env_forks env) no_options) (\<lambda>forks.
     bind_eff (lift_result (env_new_requirement env manager_label_key ''='' [nn_name slug])) (\<lambda>req.
     bind_eff (api_list (env_mappings env) (labelled_with env req))
       (mapping_writes_and_deletes env ord nn_ord slug fm forks))))"
  by (simp add: mapping_update_def Let_def update_identifiers_flat bind_eff_assoc
      mapping_writes_and_deletes_def [abs_def]
      unwanted_mappings_def labelled_with_def del: lift_result_simps)

definition writes_deletes_protocol ::
  "('w, 'u) env \<Rightarrow> string order \<Rightarrow> namespaced_name order \<Rightarrow> namespaced_name \<Rightarrow> fork_manager \<Rightarrow> fork list \<Rightarrow>
   mapping list \<Rightarrow> unit result \<Rightarrow> 'u api_event list \<Rightarrow> bool" where
  "writes_deletes_protocol env ord nn_ord slug fm forks mps r es \<longleftrightarrow>
     \<not> is_ok r \<and> loop_protocol (mapping_wrote env ord slug fm forks) (mapping_pairs ord fm forks) r es \<or>
     (\<exists>writes dels. es = writes @ dels \<and>
        loop_protocol (mapping_wrote env ord slug fm forks) (mapping_pairs ord fm forks) (Ok ()) writes \<and>
        loop_protocol mapping_deleted (nn_ord (unwanted_mappings ord fm forks mps)) r dels)"

text \<open>All events: the list of the labelled Mappings, then the writes and deletes.\<close>

definition mapping_protocol ::
  "('w, 'u) env \<Rightarrow> string order \<Rightarrow> namespaced_name order \<Rightarrow> namespaced_name \<Rightarrow> fork_manager \<Rightarrow> fork list \<Rightarrow>
   unit result \<Rightarrow> 'u api_event list \<Rightarrow> bool" where
  "mapping_protocol env ord nn_ord slug fm forks r es \<longleftrightarrow>
     es = [] \<and> \<not> is_ok r \<or>
     (\<exists>req reply rest. env_new_requirement env manager_label_key ''='' [nn_name slug] = Ok req \<and>
        es = MappingsListed (labelled_with env req) reply # rest \<and>
        (case reply of Ok mps \<Rightarrow> writes_deletes_protocol env ord nn_ord slug fm forks mps r rest
         | _ \<Rightarrow> rest = [] \<and> \<not> is_ok r))"

lemma meta_key_named_mapping [simp]: "meta_key (mp_meta (named_mapping k)) = k"
  by (simp add: named_mapping_def meta_key_def)

lemma traced_mapping_calls:
  "api_list (env_mappings (traced env)) opts = traced_as (MappingsListed opts)
      (api_list (env_mappings env) opts)"
  "api_delete (env_mappings (traced env)) (named_mapping k) =
     traced_as (MappingDeleted k) (api_delete (env_mappings env) (named_mapping k))"
  "api_create_or_update (env_mappings (traced env)) (named_mapping k) f =
     traced_as (MappingWrote k f) (api_create_or_update (env_mappings env) (named_mapping k) f)"
  by (simp_all add: traced_def traced_mappings_def)

lemma pair_mutate_traced [simp]: "pair_mutate (traced env) ord = pair_mutate env ord"
proof -
  have "apply_options_to_mapping (traced env) ord = apply_options_to_mapping env ord"
    by (intro ext) (simp add: apply_options_to_mapping_def traced_def cong: option.case_cong)
  then have "desired_mapping_spec (traced env) ord fm u i fs = desired_mapping_spec env ord fm u i fs"
      for fm u i fs
    by (simp add: desired_mapping_spec_def)
  then show ?thesis by (intro ext) (simp add: pair_mutate_def mapping_mutate_def split: prod.split)
qed

lemma writes_deletes_record:
  "records (writes_deletes_protocol env ord nn_ord slug fm forks mps)
     (mapping_writes_and_deletes (traced env) ord nn_ord slug fm forks mps)
     (mapping_writes_and_deletes env ord nn_ord slug fm forks mps)"
proof -
  have wrote: "records (loop_protocol (mapping_wrote env ord slug fm forks) [p])
      (write_pair (traced env) ord slug fm forks p) (write_pair env ord slug fm forks p)" for p
    by (auto simp: write_pair_def traced_mapping_calls loop_protocol_def mapping_wrote_def intro!:
        records_traced_as)
  have del: "records (loop_protocol mapping_deleted [k])
      (api_delete (env_mappings (traced env)) (named_mapping k)) (api_delete (env_mappings env)
          (named_mapping k))" for k
    by (auto simp: traced_mapping_calls loop_protocol_def mapping_deleted_def intro!: records_traced_as)
  show ?thesis
    unfolding mapping_writes_and_deletes_def
    by (rule records_bind [OF for_each_records [OF wrote] for_each_records [OF del]])
      (auto simp: writes_deletes_protocol_def)
qed

lemma mapping_listed_records:
  "records (mapping_protocol env ord nn_ord slug fm forks)
     (bind_eff (lift_result (env_new_requirement (traced env) manager_label_key ''='' [nn_name slug])) (\<lambda>req.
      bind_eff (api_list (env_mappings (traced env)) (labelled_with (traced env) req))
        (mapping_writes_and_deletes (traced env) ord nn_ord slug fm forks)))
     (bind_eff (lift_result (env_new_requirement env manager_label_key ''='' [nn_name slug])) (\<lambda>req.
      bind_eff (api_list (env_mappings env) (labelled_with env req))
        (mapping_writes_and_deletes env ord nn_ord slug fm forks)))"
proof -
  have same: "labelled_with (traced env) = labelled_with env" by (intro ext) (simp add: labelled_with_def)
  have list: "records (\<lambda>r es. es = [MappingsListed opts r])
      (api_list (env_mappings (traced env)) opts) (api_list (env_mappings env) opts)" for opts
    by (simp add: traced_mapping_calls records_traced_as)
  show ?thesis
  proof (cases "env_new_requirement env manager_label_key ''='' [nn_name slug]")
    case (Ok req)
    then show ?thesis
      by (simp add: same) (rule records_bind [OF list writes_deletes_record], auto simp: mapping_protocol_def)
  qed (simp_all add: mapping_protocol_def records_lift del: lift_result_simps)
qed

lemma mapping_update_protocol:
  assumes "mapping_update (traced env) ord nn_ord slug (w, []) = (r, (w', es))"
  shows "mapping_update env ord nn_ord slug w = (r, w') \<and>
    (es = [] \<and> \<not> is_ok r \<or> (\<exists>fm forks. manager_inputs env slug w fm forks \<and>
        mapping_protocol env ord nn_ord slug fm forks r es))"
proof -
  let ?rest = "\<lambda>env fm forks. bind_eff (lift_result (env_new_requirement env manager_label_key ''=''
      [nn_name slug])) (\<lambda>req.
      bind_eff (api_list (env_mappings env) (labelled_with env req))
        (mapping_writes_and_deletes env ord nn_ord slug fm forks))"
  have reads: "api_list (env_forks (traced env)) opts = untraced (api_list (env_forks env) opts)" for opts
    by (simp add: traced_def untraced_api_def)
  obtain r1 w1 where get: "api_get (env_fork_managers env) slug w = (r1, w1)" by fastforce
  obtain r2 w2 where list: "api_list (env_forks env) no_options w1 = (r2, w2)" by fastforce
  show ?thesis
  proof (cases "\<exists>fm forks. r1 = Ok fm \<and> r2 = Ok forks")
    case True
    then obtain fm forks where ok: "r1 = Ok fm" "r2 = Ok forks" by blast
    then have "?rest (traced env) fm forks (w2, []) = (r, (w', es))"
      using assms get list
        by (simp add: mapping_update_flat reads untraced_def bind_eff_def del: lift_result_simps)
    from recordsD [OF mapping_listed_records this] get list ok show ?thesis
      by (auto simp: mapping_update_flat bind_eff_def manager_inputs_def simp del: lift_result_simps)
  next
    case False
    then show ?thesis
      using assms get list
      by (cases r1; cases r2) (auto simp: mapping_update_flat reads untraced_def bind_eff_def simp del:
          lift_result_simps)
  qed
qed

section \<open>Deletes come last\<close>

lemma mapping_pairs_set: "range_order ord \<Longrightarrow> set (mapping_pairs ord fm forks) = identifiers forks \<times> set
    (fm_upstreams (fm_spec fm))"
  by (simp add: mapping_pairs_def group_forks_dom identifiers_def)

lemma unwanted_mappings_set:
  assumes "range_order ord"
  shows "fset (unwanted_mappings ord fm forks mps) = (\<lambda>mp. meta_key (mp_meta mp)) ` set mps -
      desired_slugs fm forks"
proof -
  have "pair_slug fm ` set (mapping_pairs ord fm forks) = desired_slugs fm forks"
    by (auto simp: mapping_pairs_set [OF assms] pair_slug_def desired_slugs_def image_iff)
  then show ?thesis by (simp add: unwanted_mappings_def fset_of_list.rep_eq)
qed

lemma written_all_succeeded:
  assumes "loop_protocol (mapping_wrote env ord slug fm forks) ps (Ok ()) es" and "p \<in> set ps"
  shows "MappingWrote (pair_slug fm p) (pair_mutate env ord slug fm forks p) (Ok ()) \<in> set es"
proof -
  from assms(1) have "list_all2 (mapping_wrote env ord slug fm forks) ps es" and ok: "\<forall>e \<in> set es. event_ok e"
    by (auto simp: loop_protocol_def stops_at_failure_def)
  with assms(2) obtain e where e: "e \<in> set es" "mapping_wrote env ord slug fm forks p e"
    by (metis in_set_conv_nth list_all2_conv_all_nth)
  then obtain reply where reply: "e = MappingWrote (pair_slug fm p) (pair_mutate env ord slug fm forks p) reply"
    by (auto simp: mapping_wrote_def)
  have "event_ok e" using ok e(1) by blast
  with e(1) show ?thesis by (cases reply) (auto simp: reply)
qed

lemma writes_deletes_last:
  assumes "writes_deletes_protocol env ord nn_ord slug fm forks mps r (before @ MappingDeleted k q # later)"
    and "range_order ord" "range_order nn_ord"
  shows "k \<notin> desired_slugs fm forks" and "\<exists>mp \<in> set mps. meta_key (mp_meta mp) = k"
    and "i \<in> identifiers forks \<Longrightarrow> u \<in> set (fm_upstreams (fm_spec fm)) \<Longrightarrow>
      MappingWrote (mapping_slug fm i u) (mapping_mutate env ord slug fm u i (forks_of forks i)) (Ok ())
          \<in> set before"
proof -
  let ?wrote = "mapping_wrote env ord slug fm forks" and ?e = "MappingDeleted k q"
  have no_write: "?e \<notin> set es" if "loop_protocol ?wrote ps r es" for ps r es
    using that list_all2_right [of ?wrote _ es ?e] by (auto simp: loop_protocol_def mapping_wrote_def)
  with assms(1) obtain writes dels where split: "before @ ?e # later = writes @ dels"
    and wrote: "loop_protocol ?wrote (mapping_pairs ord fm forks) (Ok ()) writes"
    and del: "loop_protocol mapping_deleted (nn_ord (unwanted_mappings ord fm forks mps)) r dels"
    unfolding writes_deletes_protocol_def by (metis in_set_conv_decomp)
  from no_write [OF wrote] have absent: "?e \<notin> set writes" .
  with split have "?e \<in> set dels" by (metis Un_iff in_set_conv_decomp set_append)
  with del have "k \<in> set (nn_ord (unwanted_mappings ord fm forks mps))"
    using list_all2_right [of mapping_deleted _ dels ?e]
      by (auto simp: loop_protocol_def mapping_deleted_def dest: in_set_takeD)
  with assms(3) have k: "k \<in> fset (unwanted_mappings ord fm forks mps)" by simp
  show "k \<notin> desired_slugs fm forks" "\<exists>mp \<in> set mps. meta_key (mp_meta mp) = k"
    using k unfolding unwanted_mappings_set [OF assms(2)] by auto
  have "set writes \<subseteq> set before"
    using split absent by (auto simp: append_eq_append_conv2 append_eq_Cons_conv Cons_eq_append_conv)
  then show "MappingWrote (mapping_slug fm i u) (mapping_mutate env ord slug fm u i (forks_of forks i))
      (Ok ()) \<in> set before"
    if "i \<in> identifiers forks" "u \<in> set (fm_upstreams (fm_spec fm))"
    using written_all_succeeded [OF wrote, of "(i, u)"] that mapping_pairs_set [OF assms(2), of fm forks]
    by (auto simp: pair_slug_def pair_mutate_def)
qed

end
