(* ===== verification/TraceProperties.thy ===== *)
theory TraceProperties
  imports Fixtures MappingTrace
begin

text \<open>
  Properties of the calls that are made, in their order, whatever the API server replies and
  whoever else writes to it in between: no law of the server is assumed.
\<close>

text \<open>
  C17. Whatever else happens to the cluster while it runs, a refresh lists the objects first; deletes, in
  the order of the list, exactly those of the parent whose identity is not wanted; begins to write
  only when all of them are gone; writes the desired objects in their order, each under the name of
  the existing object with its identity; and stops at the first call that fails.
\<close>

theorem refresh_call_protocol:
  assumes "refresh (traced env) parent lst (w, []) = (r, (w', es))"
  shows "refresh env parent lst w = (r, w') \<and> refresh_protocol env parent lst r es"
  using recordsD [OF refresh_records assms] by auto

theorem refresh_call_protocol_witness:
  "\<exists>w' e1 u e3. refresh (traced store_env) (service_owner some_service) (build_virtual_service store_env
      some_lister) (vs_world, []) =
       (Ok (), (w', [e1, Deleted u (Ok ()), e3])) \<and> meta_name (us_meta u) = ''old'' \<and>
     refresh_protocol store_env (service_owner some_service) (build_virtual_service store_env
         some_lister) (Ok ())
       [e1, Deleted u (Ok ()), e3]"
proof -
  let ?run = "refresh (traced store_env) (service_owner some_service) (build_virtual_service store_env
      some_lister) (vs_world, [])"
  have run: "is_ok (fst ?run)" "length (snd (snd ?run)) = 3"
    "(case snd (snd ?run) ! 1 of Deleted u q \<Rightarrow> is_ok q \<and> meta_name (us_meta u) = ''old'' | _ \<Rightarrow> False)"
      by code_simp+
  from returned [OF run(1)] obtain w' es where es: "?run = (Ok (), (w', es))" by auto
  with run(2) obtain e1 e2 e3 where three: "es = [e1, e2, e3]" by (auto simp: numeral_3_eq_3 length_Suc_conv)
  with run(3) es obtain u q where u: "e2 = Deleted u q" "is_ok q" "meta_name (us_meta u) = ''old''"
    by (auto split: api_event.splits)
  then have "?run = (Ok (), (w', [e1, Deleted u (Ok ()), e3]))" using es three by (cases q) auto
  from this refresh_call_protocol [OF this] u(3) show ?thesis by blast
qed

text \<open>
  C12. No request is routed to a copy that is not there: whatever the API server replies and
  whatever others write in between, the update of a fork writes a VSConfig only after the write of
  the Service it routes to has succeeded, in the same namespace and under the name it routes to. That
  name differs in two cases only: it is cut when it is longer than 63 bytes, and when the listing of
  Services has shown copies of the original that the fork owns already, the last of them keeps its name.
\<close>

theorem routes_follow_copies:
  assumes "microservice_update (traced env) ord q (w, []) = (r, (w', before @ Wrote c f reply # later))"
    and "resource_of c = RVSConfig" and "range_order ord"
  shows "microservice_update env ord q w = (r, w') \<and>
    (\<exists>fork w0 v s us c'. api_get (env_forks env) q w = (Ok fork, w0) \<and>
       f = refresh_mutate env (fork_owner fork) (OVSConfig v) \<and>
       meta_name (svc_meta s) = vsc_service (vsc_spec v) \<and>
       Listed \<lparr>gvk_group = '''', gvk_version = ''v1'', gvk_kind = ''ServiceList''\<rparr>
         (in_namespace (meta_namespace (obj_meta c))) (Ok us) \<in> set before \<and>
       Wrote c' (refresh_mutate env (fork_owner fork) (OService s)) (Ok ()) \<in> set before \<and>
       resource_of c' = RService \<and> meta_namespace (obj_meta c') = meta_namespace (obj_meta c) \<and>
       meta_name (obj_meta c') =
         (let copies = filter (\<lambda>u. owned_by_parent env (us_meta u) (fork_owner fork) \<and>
            original_name (meta_labels (us_meta u)) = vsc_host (vsc_spec v)) us
          in if copies = [] then take 63 (vsc_service (vsc_spec v)) else meta_name (us_meta (last copies))))"
proof -
  from microservice_update_calls(2) [OF assms(1)] obtain fork w0 where
    get: "api_get (env_forks env) q w = (Ok fork, w0)"
    and protocol: "fork_protocol env ord fork r (before @ Wrote c f reply # later)" by auto
  show ?thesis
  proof (rule fork_protocol_routes [OF protocol assms(2,3)])
    fix a svc us c'
    let ?v = "build_vsconfig svc (app_fork a) (app_fork_header a)" and ?s = "labelled_service_copy ord a svc"
    have v: "vsc_service (vsc_spec ?v) = service_name svc (app_fork a)"
      "vsc_host (vsc_spec ?v) = meta_name (svc_meta svc)" by (simp_all add: build_vsconfig_def)
    assume f: "f = refresh_mutate env (fork_owner fork) (OVSConfig ?v)"
      and c: "meta_namespace (obj_meta c) = meta_namespace (fork_meta fork)"
      and listed: "Listed service_list_gvk (in_namespace (meta_namespace (fork_meta fork))) (Ok us) \<in>
          set before"
      and c': "Wrote c' (refresh_mutate env (fork_owner fork) (OService ?s)) (Ok ()) \<in> set before"
      "resource_of c' = RService" "meta_namespace (obj_meta c') = meta_namespace (fork_meta fork)"
      "meta_name (obj_meta c') =
        (let copies = filter (\<lambda>u. owned_by_parent env (us_meta u) (fork_owner fork) \<and>
           original_name (meta_labels (us_meta u)) = meta_name (svc_meta svc)) us
         in if copies = [] then take 63 (service_name svc (app_fork a)) else meta_name (us_meta (last copies)))"
    have "meta_name (svc_meta ?s) = vsc_service (vsc_spec ?v)" by (simp add: v)
    from microservice_update_calls(1) [OF assms(1)] get f this listed [folded c, unfolded service_list_gvk_def]
      c'(1,2) c'(3) [folded c] c'(4) [folded v]
    show ?thesis by (intro conjI exI)
  qed
qed

text \<open>In the start world the fork owns nothing yet, so the Service is written under the name routed to.\<close>

theorem routes_follow_copies_witness:
  "\<exists>w' before c f later. microservice_update (traced store_env) name_order some_fork_key (start_world, []) =
       (Ok (), (w', before @ Wrote c f (Ok ()) # later)) \<and> resource_of c = RVSConfig \<and>
     (\<exists>fork v c' f'. f = refresh_mutate store_env (fork_owner fork) (OVSConfig v) \<and> resource_of c' = RService \<and>
        Wrote c' f' (Ok ()) \<in> set before \<and> meta_name (obj_meta c') = take 63 (vsc_service (vsc_spec v)))"
proof -
  let ?run = "microservice_update (traced store_env) name_order some_fork_key (start_world, [])"
  have "(case ?run of (Ok _, (_, es)) \<Rightarrow> (case last es of Wrote c _ (Ok _) \<Rightarrow>
      resource_of c = RVSConfig | _ \<Rightarrow> False) \<and> es \<noteq> [] \<and>
      list_all (\<lambda>e. case e of Listed _ _ (Ok us) \<Rightarrow> list_all (\<lambda>u. meta_owner_refs (us_meta u) = []) us |
          _ \<Rightarrow> True) es
    | _ \<Rightarrow> False)" by code_simp
  then obtain w' es c f where run: "?run = (Ok (), (w', es))" and es: "last es = Wrote c f (Ok ())" "es \<noteq> []"
    and c: "resource_of c = RVSConfig"
    and unowned: "\<forall>e \<in> set es. case e of Listed _ _ (Ok us) \<Rightarrow> \<forall>u \<in> set us. meta_owner_refs (us_meta u) =
        [] | _ \<Rightarrow> True"
    by (auto split: prod.splits result.splits api_event.splits simp: list_all_iff)
  from es have split: "es = butlast es @ Wrote c f (Ok ()) # []" by (metis append_butlast_last_id)
  with run have run': "?run = (Ok (), (w', butlast es @ Wrote c f (Ok ()) # []))" by simp
  from routes_follow_copies [OF this c range_orders(1)] obtain fork v s us c' where
    f: "f = refresh_mutate store_env (fork_owner fork) (OVSConfig v)" and
    listed: "Listed \<lparr>gvk_group = '''', gvk_version = ''v1'', gvk_kind = ''ServiceList''\<rparr>
      (in_namespace (meta_namespace (obj_meta c))) (Ok us) \<in> set (butlast es)"
    and c': "Wrote c' (refresh_mutate store_env (fork_owner fork) (OService s)) (Ok ()) \<in> set (butlast es)"
      "resource_of c' = RService"
      "meta_name (obj_meta c') =
         (let copies = filter (\<lambda>u. owned_by_parent store_env (us_meta u) (fork_owner fork) \<and>
            original_name (meta_labels (us_meta u)) = vsc_host (vsc_spec v)) us
          in if copies = [] then take 63 (vsc_service (vsc_spec v)) else meta_name (us_meta (last copies)))"
    by blast
  from unowned in_set_butlastD [OF listed] have "\<forall>u \<in> set us. meta_owner_refs (us_meta u) = []" by fastforce
  then have "filter (\<lambda>u. owned_by_parent store_env (us_meta u) (fork_owner fork) \<and>
      original_name (meta_labels (us_meta u)) = vsc_host (vsc_spec v)) us = []"
    by (auto simp: owned_by_parent_def filter_empty_conv)
  with c'(3) have "meta_name (obj_meta c') = take 63 (vsc_service (vsc_spec v))"
    by (simp only: Let_def if_True simp_thms)
  with run' c f c'(1,2) show ?thesis by blast
qed

text \<open>
  C22. The calls of an update are well typed: those for the fork that it read come in three groups, for
  DeploymentCopies, Services and VSConfigs in this order, each of which lists one kind in the namespace of
  the fork, and then deletes only listed objects of the fork and writes only objects of the
  resource of that kind in the namespace of the fork, made from a desired object of the same type.
\<close>

theorem update_calls_typed:
  fixes env :: "('w, 'u) env"
  assumes "microservice_update (traced env) ord q (w, []) = (r, (w', e # es))"
  shows "microservice_update env ord q w = (r, w') \<and>
    (\<exists>fork w0 es1 es2 es3. api_get (env_forks env) q w = (Ok fork, w0) \<and> e # es = es1 @ es2 @ es3 \<and>
       typed_calls env (fork_owner fork) \<lparr>gvk_group = ''duplication.k8s.wantedly.com'',
           gvk_version = ''v1beta1'',
         gvk_kind = ''DeploymentCopyList''\<rparr> RDeploymentCopy es1 \<and>
       typed_calls env (fork_owner fork) \<lparr>gvk_group = '''', gvk_version = ''v1'', gvk_kind = ''ServiceList''\<rparr>
         RService es2 \<and>
       typed_calls env (fork_owner fork) \<lparr>gvk_group = ''fork.k8s.wantedly.com'', gvk_version = ''v1beta1'',
         gvk_kind = ''VSConfigList''\<rparr> RVSConfig es3)"
proof -
  from microservice_update_calls(2) [OF assms] obtain fork w0 a dcs where
    get: "api_get (env_forks env) q w = (Ok fork, w0)" and dcs: "generate_deployment_copies ord a = Ok dcs"
    and calls: "lists_protocol env (fork_owner fork) [dcs, generate_services ord a,
        generate_vsconfigs env a] r (e # es)"
    by (auto simp: fork_protocol_def generate_app_lists_def result_simps)
  have "list_all2 (\<lambda>l (g, r). ol_gvk l = g \<and> (\<forall>x \<in> set (ol_items l). resource_of x = r))
      [dcs, generate_services ord a :: 'u object_list, generate_vsconfigs env a]
      [(deployment_copy_list_gvk, RDeploymentCopy), (service_list_gvk, RService),
          (vsconfig_list_gvk, RVSConfig)]"
    using generate_deployment_copies_resource [OF dcs] dcs
    by (auto simp: generate_services_def generate_vsconfigs_def generate_deployment_copies_def result_simps)
  from lists_protocol_typed [OF calls this] obtain es1 es2 es3 where "e # es = es1 @ es2 @ es3"
    "typed_calls env (fork_owner fork) deployment_copy_list_gvk RDeploymentCopy es1"
    "typed_calls env (fork_owner fork) service_list_gvk RService es2"
    "typed_calls env (fork_owner fork) vsconfig_list_gvk RVSConfig es3"
    by (auto simp: list_all2_Cons1)
  with get microservice_update_calls(1) [OF assms] show ?thesis
    unfolding deployment_copy_list_gvk_def service_list_gvk_def vsconfig_list_gvk_def
        fork_group_kind_def by blast
qed

theorem update_calls_typed_witness:
  "\<exists>w' es es1 es2 es3. microservice_update (traced store_env) name_order some_fork_key (start_world, []) =
       (Ok (), (w', es)) \<and> es = es1 @ es2 @ es3 \<and> length es = 6 \<and>
     typed_calls store_env (fork_owner some_fork) \<lparr>gvk_group = '''', gvk_version = ''v1'',
         gvk_kind = ''ServiceList''\<rparr>
         RService es2"
proof -
  let ?run = "microservice_update (traced store_env) name_order some_fork_key (start_world, [])"
  have "case ?run of (Ok _, (_, es)) \<Rightarrow> length es = 6 | _ \<Rightarrow> False" by code_simp
  then obtain w' calls where calls: "?run = (Ok (), (w', calls))" "length calls = 6"
    by (auto split: prod.splits result.splits)
  then obtain e es where run: "?run = (Ok (), (w', e # es))" and len: "length (e # es) = 6"
    by (cases calls) auto
  have get: "api_get (env_forks store_env) some_fork_key start_world = (Ok some_fork, start_world)"
    by (simp add: store_read_get_def start_world_def world_def stored_forks_def meta_key_def
        full_fork_def gen_fork_def Let_def)
  from update_calls_typed [OF run] run len show ?thesis unfolding get by blast
qed

text \<open>
  C21. A Mapping is deleted only after every desired Mapping has been written, never a desired one, and
  only when the API server listed it with the manager's label: whatever the API server replies and
  whoever else writes in between, the deletes of an update do not cut off a fork that is kept.
\<close>

theorem mappings_deleted_last:
  assumes "mapping_update (traced env) ord nn_ord slug (w, []) = (r, (w', before @ MappingDeleted k q # later))"
    and "range_order ord" "range_order nn_ord"
  shows "\<exists>fm forks req mps rest. mapping_update env ord nn_ord slug w = (r, w') \<and>
      manager_inputs env slug w fm forks \<and>
    env_new_requirement env manager_label_key ''='' [nn_name slug] = Ok req \<and>
    before = MappingsListed (labelled_with env req) (Ok mps) # rest \<and>
    (\<exists>mp \<in> set mps. meta_key (mp_meta mp) = k) \<and> k \<notin> desired_slugs fm forks \<and>
    (\<forall>i \<in> identifiers forks. \<forall>u \<in> set (fm_upstreams (fm_spec fm)).
       MappingWrote (mapping_slug fm i u) (mapping_mutate env ord slug fm u i (forks_of forks i))
           (Ok ()) \<in> set before)"
proof -
  let ?e = "MappingDeleted k q"
  from mapping_update_protocol [OF assms(1)] obtain fm forks
      where run: "mapping_update env ord nn_ord slug w = (r, w')"
    and inputs: "manager_inputs env slug w fm forks"
    and protocol: "mapping_protocol env ord nn_ord slug fm forks r (before @ ?e # later)" by auto
  from protocol obtain req reply events
      where req: "env_new_requirement env manager_label_key ''='' [nn_name slug] = Ok req"
    and events: "before @ ?e # later = MappingsListed (labelled_with env req) reply # events"
    and reply: "case reply of Ok mps \<Rightarrow> writes_deletes_protocol env ord nn_ord slug fm forks mps r events
      | _ \<Rightarrow> events = [] \<and> \<not> is_ok r"
    unfolding mapping_protocol_def by auto
  from events obtain rest where rest: "before = MappingsListed (labelled_with env req) reply # rest"
    "events = rest @ ?e # later" by (cases before) auto
  with reply obtain mps where mps: "reply = Ok mps"
    "writes_deletes_protocol env ord nn_ord slug fm forks mps r (rest @ ?e # later)" by (cases reply) auto
  from writes_deletes_last [OF mps(2) assms(2,3)] run inputs req rest(1) mps(1) show ?thesis by fastforce
qed

theorem mappings_deleted_last_witness:
  "\<exists>w' before k later m. mapping_update (traced store_env) name_order slug_order default_slug
      (mapping_world, []) =
       (Ok (), (w', before @ MappingDeleted k (Ok ()) # later)) \<and>
           k \<notin> desired_slugs gen_fork_manager [typed_plain_fork] \<and>
     MappingWrote (NN ''ambassador'' ''sandbox-example-com-some-id'') m (Ok ()) \<in> set before"
proof -
  let ?run = "mapping_update (traced store_env) name_order slug_order default_slug (mapping_world, [])"
  let ?u = "\<lparr>us_host = ''sandbox.example.com'', us_original = '''', us_host_rewrite = ''''\<rparr>"
  have "(case ?run of (Ok _, (_, es)) \<Rightarrow> es \<noteq> [] \<and> (case last es of MappingDeleted k (Ok _) \<Rightarrow> True | _ \<Rightarrow>
      False) | _ \<Rightarrow> False)"
    by code_simp
  then obtain w' es k where "?run = (Ok (), (w', es))" and es: "last es = MappingDeleted k (Ok ())" "es \<noteq> []"
    by (auto split: prod.splits result.splits api_event.splits)
  moreover from es have "es = butlast es @ MappingDeleted k (Ok ()) # []" by (metis append_butlast_last_id)
  ultimately have run: "?run = (Ok (), (w', butlast es @ MappingDeleted k (Ok ()) # []))" by simp
  from mappings_deleted_last [OF run range_orders] obtain fm forks where
    inputs: "manager_inputs store_env default_slug mapping_world fm forks" and k: "k \<notin> desired_slugs fm forks"
    and wrote: "\<forall>i \<in> identifiers forks. \<forall>u \<in> set (fm_upstreams (fm_spec fm)). MappingWrote (mapping_slug fm i u)
      (mapping_mutate store_env name_order default_slug fm u i (forks_of forks i)) (Ok ()) \<in> set
          (butlast es)" by blast
  have same: "fm = gen_fork_manager" "forks = [typed_plain_fork]"
    using inputs mapping_world_inputs by (auto simp: manager_inputs_def)
  have "''some-id'' \<in> identifiers [typed_plain_fork]" "?u \<in> set (fm_upstreams (fm_spec gen_fork_manager))"
    by (simp_all add: identifiers_def gen_fork_manager_def)
  moreover have "mapping_slug gen_fork_manager ''some-id'' ?u =
      NN ''ambassador'' ''sandbox-example-com-some-id''"
    by (simp add: mapping_slug_def mapping_key_dots gen_fork_manager_def)
  ultimately show ?thesis using run k wrote unfolding same by metis
qed

end
