(* ===== verification/LongNames.thy ===== *)
theory LongNames
  imports CallTrace ForkRouting
begin

text \<open>
  What becomes of copies whose names are longer than the 63 bytes that \<^verbatim>\<open>pkg/refresh/refresh.go\<close> allows:
  DeploymentCopies, which are identified by their full names, and Services, which are looked up by them.
\<close>

section \<open>Lists whose identity is the full name\<close>

definition identified_by_name :: "'u object_list \<Rightarrow> bool" where
  "identified_by_name lst \<longleftrightarrow>
     ol_identity lst = (\<lambda>obj. Ok (meta_name (any_meta obj))) \<and>
         (\<forall>x \<in> set (ol_items lst). meta_name (obj_meta x) \<noteq> '''')"

lemma default_name_cut:
  assumes "identified_by_name lst" "meta_name (obj_meta x) \<noteq> ''''"
  shows "default_name env parent lst x = Ok (take 63 (meta_name (obj_meta x)))"
  by (subst default_name_short) (use assms in \<open>simp_all add: identified_by_name_def\<close>)

lemma item_name_cut:
  "identified_by_name lst \<Longrightarrow> y \<in> set (ol_items lst) \<Longrightarrow>
   default_name env parent lst y = Ok (take 63 (meta_name (obj_meta y)))"
  by (rule default_name_cut) (simp_all add: identified_by_name_def)

context refresher
begin

text \<open>What a refresh leaves is named as the refresher names things.\<close>

lemma named_after_refresh:
  assumes "identified_by_name lst" "well_named env parent lst (objs w r)" "refresh env parent lst w = (res, w')"
  shows "well_named env parent lst (objs w' r)"
  unfolding well_named_def
proof (intro allI impI)
  fix k x y
  assume x: "objs w' r k = Some x" "in_parent_namespace parent k" "owned_by_parent env (obj_meta x) parent"
    and y: "y \<in> set (ol_items lst)" "ol_identity lst (Typed y) = ol_identity lst (Typed x)"
  show "default_name env parent lst y = Ok (meta_name (obj_meta x))"
  proof (cases "objs w' r k = objs w r k")
    case True
    with x have "objs w r k = Some x" by simp
    with assms(2) x(2,3) y show ?thesis unfolding well_named_def by blast
  next
    case False
    from refresh_writes_default [OF assms(3,2) this x(1)] obtain z name where
      z: "z \<in> set (ol_items lst)" "default_name env parent lst z = Ok name"
          "written env scheme parent name z x" by blast
    from z(2) item_name_cut [OF assms(1) z(1), of env parent] have
        "name = take 63 (meta_name (obj_meta z))" by simp
    with z(3) have "length (meta_name (obj_meta x)) \<le> 63" by (simp add: written_def)
    moreover have "meta_name (obj_meta y) = meta_name (obj_meta x)"
      using assms(1) y(2) by (simp add: identified_by_name_def)
    ultimately show ?thesis using item_name_cut [OF assms(1) y(1)] by simp
  qed
qed

text \<open>The calls of a refresh that succeeds, with the reply to its listing.\<close>

lemma refresh_calls:
  assumes "refresh (traced env) parent lst (w, []) = (Ok u, (w', calls))"
  obtains ids us w1 dels writes where
    "map_results (\<lambda>obj. ol_identity lst (Typed obj)) (ol_items lst) = Ok ids"
    "env_list_unstructured env (resource_list_gvk r) (in_namespace (meta_namespace (ow_meta parent))) w
        = (Ok us, w1)"
    "calls = Listed (resource_list_gvk r) (in_namespace (meta_namespace (ow_meta parent))) (Ok us) #
        dels @ writes"
    "deletes (filter (unwanted env parent lst (fset_of_list ids)) us) dels"
        "\<forall>e \<in> set (dels @ writes). event_ok e"
    "list_all2 (writes_item env parent lst (fold (keep_known env parent lst (fset_of_list ids)) us fmempty))
      (ol_items lst) writes"
proof -
  let ?g = "resource_list_gvk r" and ?ns = "in_namespace (meta_namespace (ow_meta parent))"
  from assms obtain ids us v ex v2
      where ids: "map_results (\<lambda>obj. ol_identity lst (Typed obj)) (ol_items lst) = Ok ids"
    and list: "env_list_unstructured (traced env) ?g ?ns (w, []) = (Ok us, v)"
    and dels: "fold_eff (handle_existing_step (traced env) parent lst (fset_of_list ids)) us fmempty v =
        (Ok ex, v2)"
    and writes: "for_each (ol_items lst) (refresh_item (traced env) parent lst ex) v2 = (Ok u, (w', calls))"
    by (auto simp: refresh_def handle_existing_def eff_simps list_gvk)
  from list obtain w1 where w1: "env_list_unstructured env ?g ?ns w = (Ok us, w1)"
      "v = (w1, [Listed ?g ?ns (Ok us)])"
    by (auto simp: traced_def traced_as_def split: prod.splits)
  obtain w2 l2 where v2: "v2 = (w2, l2)" by (cases v2)
  from recordsD [OF deletions dels [unfolded w1(2) v2]] obtain ds where
    l2: "l2 = Listed ?g ?ns (Ok us) # ds"
      and ds: "deletion_protocol env parent lst (fset_of_list ids) us fmempty (Ok ex) ds"
    by auto
  from recordsD [OF writes_record writes [unfolded v2]] obtain ws where
    calls: "calls = l2 @ ws" and ws: "write_protocol env parent lst ex (ol_items lst) (Ok u) ws" by auto
  from ds have "deletes (filter (unwanted env parent lst (fset_of_list ids)) us) ds" "\<forall>e \<in> set ds. event_ok e"
    "ex = fold (keep_known env parent lst (fset_of_list ids)) us fmempty"
    by (auto simp: deletion_protocol_def stops_at_failure_def)
  moreover from this ws have "\<forall>e \<in> set (ds @ ws). event_ok e"
    by (auto simp: loop_protocol_def stops_at_failure_def)
  moreover from ws have "list_all2 (writes_item env parent lst ex) (ol_items lst) ws"
    by (auto simp: loop_protocol_def)
  ultimately show thesis using that [OF ids w1(1), of ds ws] calls l2 by simp
qed

text \<open>The stored object with the cut name is listed, and not wanted.\<close>

lemma cut_name_unwanted:
  assumes "identified_by_name lst" "inj_on (default_name env parent lst) (set (ol_items lst))"
    and x: "x \<in> set (ol_items lst)" "63 < length (meta_name (obj_meta x))"
    and s: "objs w r (NN (meta_namespace (ow_meta parent)) (take 63 (meta_name (obj_meta x)))) = Some s"
      "owned_by_parent env (obj_meta s) parent"
    and ids: "map_results (\<lambda>obj. ol_identity lst (Typed obj)) (ol_items lst) = Ok ids"
    and list: "env_list_unstructured env (resource_list_gvk r)
        (in_namespace (meta_namespace (ow_meta parent))) w = (Ok us, w1)"
  obtains d where "d \<in> set (filter (unwanted env parent lst (fset_of_list ids)) us)"
    "meta_key (us_meta d) = NN (meta_namespace (ow_meta parent)) (take 63 (meta_name (obj_meta x)))"
proof -
  have id: "ol_identity lst obj = Ok (meta_name (any_meta obj))" for obj using assms(1)
    by (simp add: identified_by_name_def)
  note cut = item_name_cut [OF assms(1), where env = env and parent = parent]
  from list_complete [OF list s(1)] obtain d where d: "d \<in> set us"
    "meta_key (us_meta d) = NN (meta_namespace (ow_meta parent)) (take 63 (meta_name (obj_meta x)))" by auto
  from list_sound [OF list d(1)] d(2) s(1) have "us_meta d = obj_meta s" by (auto dest: represents_meta)
  moreover have "take 63 (meta_name (obj_meta x)) |\<notin>| fset_of_list ids"
  proof
    assume "take 63 (meta_name (obj_meta x)) |\<in>| fset_of_list ids"
    with desired_ids [OF ids] obtain y
        where y: "y \<in> set (ol_items lst)" "meta_name (obj_meta y) = take 63 (meta_name (obj_meta x))"
      by (auto simp: desired_identity_def id)
    with cut [OF y(1)] cut [OF x(1)] have "default_name env parent lst y = default_name env parent lst
        x" by simp
    with assms(2) x(1) y(1) have "y = x" by (metis inj_onD)
    from arg_cong [OF y(2), of length] x(2) show False unfolding \<open>y = x\<close> by simp
  qed
  ultimately show thesis using d s(2) by (intro that [OF _ d(2)]) (auto simp: unwanted_def id meta_key_def)
qed

text \<open>And no object of the parent has the full name, so the desired object gets the cut one again.\<close>

lemma long_name_unlisted:
  assumes "identified_by_name lst" "well_named env parent lst (objs w r)"
    and x: "x \<in> set (ol_items lst)" "63 < length (meta_name (obj_meta x))"
    and list: "env_list_unstructured env (resource_list_gvk r)
        (in_namespace (meta_namespace (ow_meta parent))) w = (Ok us, w1)"
  shows "listed_as env parent lst (meta_name (obj_meta x)) us = []"
  unfolding listed_as_def filter_empty_conv
proof (intro ballI notI)
  fix v
  assume v: "v \<in> set us"
    and "owned_by_parent env (us_meta v) parent \<and> ol_identity lst (Unstructured v) =
        Ok (meta_name (obj_meta x))"
  then have owned: "owned_by_parent env (us_meta v) parent" "meta_name (us_meta v) = meta_name (obj_meta x)"
    using assms(1) by (simp_all add: identified_by_name_def)
  from list_sound [OF list v] obtain z where z: "objs w r (meta_key (us_meta v)) = Some z"
      "us_meta v = obj_meta z"
    "meta_namespace (ow_meta parent) = '''' \<or> meta_namespace (us_meta v) = meta_namespace (ow_meta parent)"
    by (auto dest: represents_meta)
  then have "in_parent_namespace parent (meta_key (us_meta v))"
    by (auto simp: in_parent_namespace_def meta_key_def)
  moreover have "ol_identity lst (Typed x) = ol_identity lst (Typed z)"
    using assms(1) owned(2) z(2) by (simp add: identified_by_name_def)
  ultimately have "default_name env parent lst x = Ok (meta_name (obj_meta x))"
    using assms(2) z(1,2) owned x(1) unfolding well_named_def by metis
  with item_name_cut [OF assms(1) x(1), of env parent] have "take 63 (meta_name (obj_meta x)) =
      meta_name (obj_meta x)"
    by (metis result.inject(1))
  from arg_cong [OF this, of length] x(2) show False by simp
qed

text \<open>
  An object that is stored under the cut name of a desired one is not recognised: it is deleted, and made again
  under the same name.
\<close>

lemma long_named_made_again:
  assumes run: "refresh (traced env) parent lst (w, []) = (Ok u, (w', calls))"
    and lst: "identified_by_name lst" "inj_on (default_name env parent lst) (set (ol_items lst))"
    and named: "well_named env parent lst (objs w r)"
    and x: "x \<in> set (ol_items lst)" "63 < length (meta_name (obj_meta x))"
    and s: "objs w r (NN (meta_namespace (ow_meta parent)) (take 63 (meta_name (obj_meta x)))) = Some s"
      "owned_by_parent env (obj_meta s) parent"
  shows "\<exists>pre d mid c post. calls = pre @ Deleted d (Ok ()) # mid @
      Wrote c (refresh_mutate env parent x) (Ok ()) # post \<and>
    meta_key (us_meta d) = NN (meta_namespace (ow_meta parent)) (take 63 (meta_name (obj_meta x))) \<and>
    meta_key (obj_meta c) = NN (meta_namespace (ow_meta parent)) (take 63 (meta_name (obj_meta x)))"
  using run
proof (rule refresh_calls)
  let ?ns = "meta_namespace (ow_meta parent)" and ?n = "meta_name (obj_meta x)"
  fix ids us w1 dels writes
  let ?ex = "fold (keep_known env parent lst (fset_of_list ids)) us fmempty"
  assume ids: "map_results (\<lambda>obj. ol_identity lst (Typed obj)) (ol_items lst) = Ok ids"
    and list: "env_list_unstructured env (resource_list_gvk r) (in_namespace ?ns) w = (Ok us, w1)"
    and calls: "calls = Listed (resource_list_gvk r) (in_namespace ?ns) (Ok us) # dels @ writes"
    and dels: "deletes (filter (unwanted env parent lst (fset_of_list ids)) us) dels"
    and ok: "\<forall>e \<in> set (dels @ writes). event_ok e"
    and writes: "list_all2 (writes_item env parent lst ?ex) (ol_items lst) writes"
  from cut_name_unwanted [OF lst x s ids list] obtain d where
    d: "d \<in> set (filter (unwanted env parent lst (fset_of_list ids)) us)"
        "meta_key (us_meta d) = NN ?ns (take 63 ?n)" .
  from list_all2_left [OF dels [unfolded deletes_def] d(1)] obtain q where q: "Deleted d q \<in> set dels" by blast
  from ok have ok: "\<forall>e \<in> set dels. event_ok e" "\<forall>e \<in> set writes. event_ok e" by simp_all
  from ok(1) q have "event_ok (Deleted d q)" by blast
  with q have deleted: "Deleted d (Ok ()) \<in> set dels" by (cases q) simp_all
  have "?n |\<in>| fset_of_list ids"
    using desired_ids [OF ids] x(1) lst(1) by (auto simp: desired_identity_def identified_by_name_def)
  from keep_known_lookup [OF this, of env parent lst us fmempty] long_name_unlisted [OF lst(1) named x
      list] have "fmlookup ?ex ?n = None" by simp
  then have "item_name env parent lst ?ex x = Ok (take 63 ?n)"
    using lst(1) x(1) by (simp add: item_name_def refresh_name_def identified_by_name_def Let_def)
  moreover from list_all2_left [OF writes x(1)] obtain e where
    e: "e \<in> set writes" "writes_item env parent lst ?ex x e" by blast
  ultimately obtain c q' where c: "e = Wrote c (refresh_mutate env parent x) q'"
      "meta_key (obj_meta c) = NN ?ns (take 63 ?n)"
    by (auto simp: writes_item_def meta_key_def)
  from ok(2) e(1) have "event_ok e" by blast
  with c(1) e(1) have written: "Wrote c (refresh_mutate env parent x) (Ok ()) \<in> set writes"
    by (cases q') simp_all
  from split_list [OF deleted] split_list [OF written] obtain a1 a2 b1 b2 where
    "dels = a1 @ Deleted d (Ok ()) # a2" "writes = b1 @ Wrote c (refresh_mutate env parent x) (Ok ()) #
        b2" by blast
  then have "calls = (Listed (resource_list_gvk r) (in_namespace ?ns) (Ok us) # a1) @ Deleted d (Ok ()) #
      (a2 @ b1) @ Wrote c (refresh_mutate env parent x) (Ok ()) # b2"
    by (simp add: calls)
  with d(2) c(2) show ?thesis by blast
qed

end

section \<open>Copies of services with long names\<close>

text \<open>The copies of different services keep different names when they are cut.\<close>

definition cut_names_apart :: "app \<Rightarrow> bool" where
  "cut_names_apart a \<longleftrightarrow> inj_on (\<lambda>s. take 63 (service_name s (app_fork a))) (set (app_services a))"

lemma cut_service_names:
  fixes env :: "('w, 'u) env"
  shows "default_name env parent (generate_services ord a) (OService (labelled_service_copy ord a s)) =
      Ok (take 63 (service_name s (app_fork a)))"
    and "default_name env parent (generate_vsconfigs env a)
      (OVSConfig (build_vsconfig s (app_fork a) (app_fork_header a))) =
          Ok (take 63 (service_name s (app_fork a)))"
proof -
  show "default_name env parent (generate_services ord a) (OService (labelled_service_copy ord a s)) =
      Ok (take 63 (service_name s (app_fork a)))"
    by (subst default_name_short) (simp_all add: generate_services_def)
  show "default_name env parent (generate_vsconfigs env a)
      (OVSConfig (build_vsconfig s (app_fork a) (app_fork_header a))) =
          Ok (take 63 (service_name s (app_fork a)))"
    by (subst default_name_short) (simp_all add: generate_vsconfigs_def)
qed

lemma cut_names_inj:
  fixes env :: "('w, 'u) env"
  assumes "cut_names_apart a"
  shows "inj_on (default_name env parent (generate_services ord a))
      (set (ol_items (generate_services ord a :: 'u object_list)))"
    and "inj_on (default_name env parent (generate_vsconfigs env a))
        (set (ol_items (generate_vsconfigs env a)))"
proof -
  have same: "s = t" if "s \<in> set (app_services a)" "t \<in> set (app_services a)"
    "take 63 (service_name s (app_fork a)) = take 63 (service_name t (app_fork a))" for s t
    using assms that unfolding cut_names_apart_def by (metis inj_onD)
  show "inj_on (default_name env parent (generate_services ord a))
      (set (ol_items (generate_services ord a :: 'u object_list)))"
  proof (rule inj_onI)
    fix x y
    assume "x \<in> set (ol_items (generate_services ord a :: 'u object_list))"
      "y \<in> set (ol_items (generate_services ord a :: 'u object_list))"
    then obtain s t where "s \<in> set (app_services a)" "x = OService (labelled_service_copy ord a s)"
      "t \<in> set (app_services a)" "y = OService (labelled_service_copy ord a t)"
        by (auto simp: generate_services_def)
    then show "x = y" if "default_name env parent (generate_services ord a) x = default_name env parent
        (generate_services ord a) y"
      using same [of s t] that by (simp add: cut_service_names)
  qed
  show "inj_on (default_name env parent (generate_vsconfigs env a)) (set (ol_items (generate_vsconfigs env a)))"
  proof (rule inj_onI)
    fix x y
    assume "x \<in> set (ol_items (generate_vsconfigs env a))" "y \<in> set (ol_items (generate_vsconfigs env a))"
    then obtain s t where "s \<in> set (app_services a)"
        "x = OVSConfig (build_vsconfig s (app_fork a) (app_fork_header a))"
      "t \<in> set (app_services a)" "y = OVSConfig (build_vsconfig t (app_fork a) (app_fork_header a))"
      by (auto simp: generate_vsconfigs_def)
    then show "x = y" if "default_name env parent (generate_vsconfigs env a) x = default_name env parent
        (generate_vsconfigs env a) y"
      using same [of s t] that by (simp add: cut_service_names)
  qed
qed

context routed_cluster
begin

text \<open>The update realises its Services and VSConfigs under the cut names, and writes no Service under a
    longer one.\<close>

lemma cut_names_update:
  assumes "microservice_update env ord q w = (Ok u, w')" and "range_order ord"
    and "api_get (env_forks env) q w = (Ok fork, w0)" "build_app env ord fork w0 = (Ok a, w1)"
    and "cut_names_apart a"
    and "well_named env (fork_owner fork) (generate_services ord a) (objs w RService)"
    and "well_named env (fork_owner fork) (generate_vsconfigs env a) (objs w RVSConfig)"
  shows "realised env scheme (fork_owner fork) (generate_services ord a) (objs w' RService)"
    and "realised env scheme (fork_owner fork) (generate_vsconfigs env a) (objs w' RVSConfig)"
    and "63 < length (nn_name k) \<Longrightarrow> objs w RService k = None \<Longrightarrow> objs w' RService k = None"
proof -
  have fork: "frks w q = Some fork" by (rule fork_get [OF assms(3)])
  note ns = fork_namespace [OF fork] and a = build_app_reads(1) [OF assms(4)]
  from microservice_update_loop [OF assms(1) fork] assms(3,4) obtain dcs where
    dcs: "generate_deployment_copies ord a = Ok dcs" and w1: "objs w1 = objs w"
    and loop: "for_each [dcs, generate_services ord a, generate_vsconfigs env a]
        (refresh env (fork_owner fork)) w1 = (Ok u, w')"
    by (metis Pair_inject result.inject(1))
  have refreshers: "list_all2 (\<lambda>l r. refresher env scheme objs l r (fork_owner fork))
      [dcs, generate_services ord a, generate_vsconfigs env a] fork_resources"
    by (rule app_lists_refreshers [where a = a, OF _ assms(2)]) (simp_all add: generate_app_lists_def
        dcs fork_typed [OF fork])
  have apart: "distinct fork_resources" by (simp add: fork_resources_def)
  note services = services_stable [OF object_cluster_axioms ns [THEN conjunct2, THEN conjunct2], of ord a]
    and configs = vsconfigs_stable [OF object_cluster_axioms ns [THEN conjunct2, THEN conjunct2], of a]
  from refresh_lists_run [OF refreshers apart loop, of "generate_services ord a" RService] obtain v v' where
    v: "refresh env (fork_owner fork) (generate_services ord a) v = (Ok (), v')"
        "objs v RService = objs w RService"
      "objs v' RService = objs w' RService" by (auto simp: fork_resources_def w1)
  from stable_refresher.refresh_realises [OF services v(1)] v(2,3) assms(6) cut_names_inj(1)
      [OF assms(5), of env "fork_owner fork" ord]
  show "realised env scheme (fork_owner fork) (generate_services ord a) (objs w' RService)" by simp
  from refresh_lists_run [OF refreshers apart loop, of "generate_vsconfigs env a" RVSConfig] obtain x x' where
    x: "refresh env (fork_owner fork) (generate_vsconfigs env a) x = (Ok (), x')"
        "objs x RVSConfig = objs w RVSConfig"
      "objs x' RVSConfig = objs w' RVSConfig" by (auto simp: fork_resources_def w1)
  from stable_refresher.refresh_realises [OF configs x(1)] x(2,3) assms(7) cut_names_inj(2)
      [OF assms(5), of env "fork_owner fork"]
  show "realised env scheme (fork_owner fork) (generate_vsconfigs env a) (objs w' RVSConfig)" by simp
  show "objs w' RService k = None" if long: "63 < length (nn_name k)" and none: "objs w RService k = None"
  proof (rule ccontr)
    assume "objs w' RService k \<noteq> None"
    then obtain y where y: "objs w' RService k = Some y" by auto
    from refresher.refresh_writes_default [OF stable_refresher.axioms(1) [OF services] v(1), of k y]
        v(2,3) assms(6) y none
    obtain s name where "s \<in> set (app_services a)" "k = NN (meta_namespace (ow_meta (fork_owner fork))) name"
      "default_name env (fork_owner fork) (generate_services ord a)
          (OService (labelled_service_copy ord a s)) = Ok name"
      by (auto simp: generate_services_def)
    with long show False by (auto simp: cut_service_names)
  qed
qed

lemma cut_names_stored:
  assumes "realised env scheme (fork_owner fork) (generate_services ord a) (objs w RService)"
    and "realised env scheme (fork_owner fork) (generate_vsconfigs env a) (objs w RVSConfig)"
    and "app_fork a = fork" "s \<in> set (app_services a)"
    and "k = NN (meta_namespace (fork_meta fork)) (take 63 (service_name s fork))"
  obtains c v where "objs w RService k = Some (OService c)"
    "ss_selector (svc_spec c) = ss_selector (svc_spec (labelled_service_copy ord a s))"
    "objs w RVSConfig k = Some (OVSConfig v)"
        "vsc_spec v = vsc_spec (build_vsconfig s fork (app_fork_header a))"
proof -
  have "OService (labelled_service_copy ord a s) \<in> set (ol_items (generate_services ord a :: 'u object_list))"
    using assms(4) by (simp add: generate_services_def)
  with assms(1) cut_service_names(1) [of env "fork_owner fork" ord a s, unfolded assms(3)] obtain x where
    x: "objs w RService k = Some x" "written env scheme (fork_owner fork) (take 63 (service_name s fork))
      (OService (labelled_service_copy ord a s)) x"
    unfolding realised_def by (fastforce simp: fork_owner_def assms(5))
  have "OVSConfig (build_vsconfig s fork (app_fork_header a)) \<in> set (ol_items (generate_vsconfigs env a))"
    using assms(4) by (simp add: generate_vsconfigs_def assms(3))
  with assms(2) cut_service_names(2) [of env "fork_owner fork" a s, unfolded assms(3)] obtain y where
    y: "objs w RVSConfig k = Some y" "written env scheme (fork_owner fork) (take 63 (service_name s fork))
      (OVSConfig (build_vsconfig s fork (app_fork_header a))) y"
    unfolding realised_def by (fastforce simp: fork_owner_def assms(5))
  from x y that show thesis by (cases x; cases y) (auto simp: written_def service_spec_persisted_def)
qed

text \<open>The VSConfigs that a request can meet then are the fork's, and route to the full name.\<close>

lemma cut_names_configs:
  assumes "realised env scheme (fork_owner fork) (generate_vsconfigs env a) (objs w RVSConfig)"
      "app_fork a = fork"
    and "objs w RVSConfig k = Some (OVSConfig v)" "nn_namespace k = meta_namespace (fork_meta fork)"
    and "owned_by_parent env (vsc_meta v) (fork_owner fork)"
  shows "vsc_service (vsc_spec v) = sprintf_dash (vsc_host (vsc_spec v)) (meta_name (fork_meta fork))"
proof -
  have "in_parent_namespace (fork_owner fork) k" using assms(4)
    by (simp add: in_parent_namespace_def fork_owner_def)
  with assms(1,3,5) obtain x where x: "x \<in> set (ol_items (generate_vsconfigs env a))"
    "default_name env (fork_owner fork) (generate_vsconfigs env a) x = Ok (meta_name (vsc_meta v))"
    "ol_identity (generate_vsconfigs env a) (Typed x) = ol_identity (generate_vsconfigs env a)
        (Typed (OVSConfig v))"
    unfolding realised_def by fastforce
  have k: "k = NN (meta_namespace (fork_meta fork)) (meta_name (vsc_meta v))"
    using view_vsconfig [OF assms(3)] assms(4) by (cases k) (auto simp: meta_key_def)
  from assms(1) x(1,2) have "written env scheme (fork_owner fork) (meta_name (vsc_meta v)) x (OVSConfig v)"
    unfolding realised_def using assms(3) by (fastforce simp: k fork_owner_def)
  moreover from x(1) obtain t where "x = OVSConfig (build_vsconfig t fork (app_fork_header a))"
    by (auto simp: generate_vsconfigs_def assms(2))
  ultimately show ?thesis by (auto simp: written_def build_vsconfig_def service_name_def)
qed

lemma cut_names_met:
  assumes "microservice_update env ord q w = (Ok u, w')" "range_order ord" "frks w q = Some fork"
    and "realised env scheme (fork_owner fork) (generate_vsconfigs env a) (objs w' RVSConfig)"
        "app_fork a = fork"
    and "nn_namespace k = meta_namespace (fork_meta fork)"
    and "\<forall>v \<in> configs_route objs k w hs. owned_by_parent env (vsc_meta v) (fork_owner fork)"
    and "v \<in> configs_route objs k w' hs"
  shows "vsc_service (vsc_spec v) = sprintf_dash (nn_name k) (meta_name (fork_meta fork))"
proof -
  from assms(6,8) obtain k' where k': "objs w' RVSConfig k' = Some (OVSConfig v)"
    "nn_namespace k' = meta_namespace (fork_meta fork)" "vsc_host (vsc_spec v) = nn_name k"
    by (auto simp: configs_route_def)
  have "owned_by_parent env (vsc_meta v) (fork_owner fork)"
  proof (cases "objs w' RVSConfig k' = objs w RVSConfig k'")
    case True
    with assms(6-8) k' show ?thesis by (auto simp: configs_route_def)
  next
    case False
    from microservice_update_frame [OF assms(1,2) this] assms(3) k'(1) show ?thesis
      by (auto simp: owned_change_def)
  qed
  from cut_names_configs [OF assms(4,5) k'(1,2) this] k'(3) show ?thesis by simp
qed

text \<open>So requests for the fork go to a name that no Service has.\<close>

lemma long_service_requests:
  assumes update: "microservice_update env ord q w = (Ok u, w')" and ord: "range_order ord"
    and build: "api_get (env_forks env) q w = (Ok fork, w0)" "build_app env ord fork w0 = (Ok a, w1)"
    and names: "cut_names_apart a"
      "well_named env (fork_owner fork) (generate_services ord a) (objs w RService)"
      "well_named env (fork_owner fork) (generate_vsconfigs env a) (objs w RVSConfig)"
    and s: "s \<in> set (app_services a)" "k = NN (meta_namespace (fork_meta fork)) (meta_name (svc_meta s))"
      "meta_namespace (fork_meta fork) \<noteq> ''''" "meta_name (svc_meta s) \<noteq> ''''"
          "length (meta_name (svc_meta s)) \<le> 63"
      "routes_named objs k w"
    and hs: "spec_identifier (fork_spec fork) \<noteq> ''''"
      "fmlookup hs (app_fork_header a) = Some (spec_identifier (fork_spec fork))"
      "\<forall>v \<in> configs_route objs k w hs. owned_by_parent env (vsc_meta v) (fork_owner fork)"
    and reconcile: "reconcile_vsconfig env (NN (meta_namespace (fork_meta fork))
        (take 63 (service_name s fork))) w' = (Ok u', w'')"
  shows "routed rx objs k w'' hs (service_name s fork)"
    and "\<exists>c. objs w'' RService (NN (meta_namespace (fork_meta fork)) (take 63 (service_name s fork))) =
        Some (OService c) \<and>
      ss_selector (svc_spec c) = ss_selector (svc_spec (labelled_service_copy ord a s))"
    and "63 < length (service_name s fork) \<Longrightarrow>
      objs w RService (NN (meta_namespace (fork_meta fork)) (service_name s fork)) = None \<Longrightarrow>
      objs w'' RService (NN (meta_namespace (fork_meta fork)) (service_name s fork)) = None"
proof -
  note a = build_app_reads(1) [OF build(2)] and fork = fork_get [OF build(1)]
    and updated = cut_names_update [OF update ord build names]
  from cut_names_stored [OF updated(1,2) a s(1) refl] obtain c cfg where
    c: "objs w' RService (NN (meta_namespace (fork_meta fork)) (take 63 (service_name s fork))) =
        Some (OService c)"
      "ss_selector (svc_spec c) = ss_selector (svc_spec (labelled_service_copy ord a s))"
    and cfg: "objs w' RVSConfig (NN (meta_namespace (fork_meta fork)) (take 63 (service_name s fork))) =
        Some (OVSConfig cfg)"
      "vsc_spec cfg = vsc_spec (build_vsconfig s fork (app_fork_header a))" .
  note frame = vsconfig_reconcile_frame [OF reconcile cfg(1)]
  have "objs w' RVirtualService k' = objs w RVirtualService k'" for k'
    using microservice_update_frame [OF update ord, of RVirtualService k'] by (auto simp: fork_resources_def)
  then have routes: "routes_named objs k w'" using s(6) by (simp only: routes_named_def)
  have "cfg \<in> configs_route objs k w' hs"
    using cfg hs(1,2) s(2) by (auto simp: configs_route_def requests_def build_vsconfig_def)
  moreover have "vsc_service (vsc_spec v) = service_name s fork" if "v \<in> configs_route objs k w' hs" for v
    using cut_names_met [OF update ord fork updated(2) a _ hs(3) that] s(2) by (simp add: service_name_def)
  ultimately show "routed rx objs k w'' hs (service_name s fork)"
    using vsconfig_reconcile_routes(1) [OF reconcile cfg(1) _ routes, of hs "service_name s fork" rx]
        s(2-5) cfg(2)
    by (auto simp: build_vsconfig_def)
  show "\<exists>c. objs w'' RService (NN (meta_namespace (fork_meta fork)) (take 63 (service_name s fork))) =
      Some (OService c) \<and>
      ss_selector (svc_spec c) = ss_selector (svc_spec (labelled_service_copy ord a s))"
    using c by (simp add: frame)
  show "objs w'' RService (NN (meta_namespace (fork_meta fork)) (service_name s fork)) = None"
    if "63 < length (service_name s fork)"
        "objs w RService (NN (meta_namespace (fork_meta fork)) (service_name s fork)) = None"
    using updated(3) that by (simp add: frame)
qed

end

end
