(* ===== verification/LongNameProperties.thy ===== *)
theory LongNameProperties
  imports Fixtures LongNames
begin

text \<open>
  What happens to copies whose generated names are longer than 63 bytes (\<^verbatim>\<open>pkg/refresh/refresh.go\<close>,
  lines 84 to 86):
  theorems on behaviour that is not intended.
\<close>

section \<open>DeploymentCopies with long names\<close>

text \<open>
  C33. A DeploymentCopy whose generated name is longer than 63 bytes is not recognised once it
  is stored, because its stored name is cut and its identity is the full one. After a first successful
  refresh it is stored under the cut name; the next refresh makes a call that deletes this object and then
  one that writes it again under the same key, after which it is stored as before, and so on: the condition
  on the names of existing objects holds again. The cut names have to differ from each other.
\<close>

theorem long_copies_made_again:
  assumes "object_cluster env scheme objs" and "ow_gvk parent = scheme (ow_go_type parent)"
    and "range_order ord" and "generate_deployment_copies ord a = Ok lst"
    and "inj_on (default_name env parent lst) (set (ol_items lst))"
    and "well_named env parent lst (objs w RDeploymentCopy)"
    and "x \<in> set (ol_items lst)" and "63 < length (meta_name (obj_meta x))"
    and "refresh env parent lst w = (Ok u, w1)"
    and "refresh (traced env) parent lst (w1, []) = (Ok u', (w2, calls))"
  shows "\<exists>k s s' pre d mid c post. k = NN (meta_namespace (ow_meta parent)) (take 63 (meta_name (obj_meta x))) \<and>
    objs w1 RDeploymentCopy k = Some s \<and> written env scheme parent (nn_name k) x s \<and>
    calls = pre @ Deleted d (Ok ()) # mid @ Wrote c (refresh_mutate env parent x) (Ok ()) # post \<and>
    meta_key (us_meta d) = k \<and> meta_key (obj_meta c) = k \<and>
    refresh env parent lst w1 = (Ok u', w2) \<and>
    objs w2 RDeploymentCopy k = Some s' \<and> written env scheme parent (nn_name k) x s' \<and>
    well_named env parent lst (objs w2 RDeploymentCopy)"
proof -
  let ?k = "NN (meta_namespace (ow_meta parent)) (take 63 (meta_name (obj_meta x)))"
  have lst: "identified_by_name lst"
    using deployment_copies_items [OF assms(4,3)] assms(4)
    by (fastforce simp: identified_by_name_def generate_deployment_copies_def result_simps)
  have r: "refresher env scheme objs lst RDeploymentCopy parent"
    by (intro refresher.intro refresher_axioms.intro assms(1,2) deployment_copies_contract [OF assms(4,3)])
  have again: "refresh env parent lst w1 = (Ok u', w2)" using recordsD [OF refresh_records assms(10)] by simp
  have stored: "\<exists>s. objs v' RDeploymentCopy ?k = Some s \<and> written env scheme parent (nn_name ?k) x s"
    if "refresh env parent lst v = (Ok q, v')" "well_named env parent lst (objs v RDeploymentCopy)" for v v' q
    using refresher.refresh_stores_default [OF r that assms(5,7)] item_name_cut [OF lst assms(7), of env
        parent] by auto
  note named = refresher.named_after_refresh [OF r lst]
  from stored [OF assms(9,6)] obtain s where
    s: "objs w1 RDeploymentCopy ?k = Some s" "written env scheme parent (nn_name ?k) x s" by blast
  from refresher.long_named_made_again [OF r assms(10) lst assms(5) named [OF assms(6,9)] assms(7,8) s(1)
      written_owned [OF s(2) assms(2)]]
  obtain pre d mid c post where
    calls: "calls = pre @ Deleted d (Ok ()) # mid @ Wrote c (refresh_mutate env parent x) (Ok ()) # post"
      "meta_key (us_meta d) = ?k" "meta_key (obj_meta c) = ?k" by blast
  from stored [OF again named [OF assms(6,9)]] obtain s' where
    "objs w2 RDeploymentCopy ?k = Some s'" "written env scheme parent (nn_name ?k) x s'" by blast
  with s calls again named [OF named [OF assms(6,9)] again] show ?thesis by blast
qed

definition long_app :: app where
  "long_app = \<lparr>app_services = [], app_deployments = [gen_deployment (replicate 60 CHR ''w'') fmempty],
     app_existing_copied_services = fmempty, app_deploy_name_to_service_names = fmempty,
     app_fork_header = ''fork-identifier'', app_fork = some_fork\<rparr>"

definition long_copy :: client_object where
  "long_copy = (case build_deployment_copy name_order (gen_deployment (replicate 60 CHR ''w'') fmempty)
      some_fork [] of
     Ok c \<Rightarrow> ODeploymentCopy c | _ \<Rightarrow> OService some_service)"

lemma long_copy_eq:
  "\<exists>c. build_deployment_copy name_order (gen_deployment (replicate 60 CHR ''w'') fmempty) some_fork [] = Ok c \<and>
     long_copy = ODeploymentCopy c \<and>
     dc_meta c = object_meta_of (replicate 60 CHR ''w'' @ ''-some-fork'') ''some-namespace''"
proof -
  have "build_deployment_copy name_order (gen_deployment (replicate 60 CHR ''w'') fmempty) some_fork []
      \<noteq> Panic p" for p
    by (simp add: build_deployment_copy_Panic full_fork_def Let_def)
  then obtain c where c: "build_deployment_copy name_order (gen_deployment (replicate 60 CHR ''w'')
      fmempty) some_fork [] = Ok c"
    by (cases "build_deployment_copy name_order (gen_deployment (replicate 60 CHR ''w'') fmempty) some_fork []")
      (auto simp: build_deployment_copy_not_Err)
  moreover from build_deployment_copy_Ok(1) [OF c range_orders(1)]
  have "dc_meta c = object_meta_of (replicate 60 CHR ''w'' @ ''-some-fork'') ''some-namespace''"
    by (simp add: gen_deployment_def full_fork_def Let_def gen_fork_def sprintf_dash_def)
  ultimately show ?thesis by (simp add: long_copy_def)
qed

lemma long_list:
  obtains lst :: "client_object object_list" where "generate_deployment_copies name_order long_app = Ok lst"
    and "ol_items lst = [long_copy]"
proof -
  have "app_deploy_name_to_service_names long_app = fmempty" "app_fork long_app = some_fork"
    "app_deployments long_app = [gen_deployment (replicate 60 CHR ''w'') fmempty]"
    by (simp_all add: long_app_def)
  with long_copy_eq that show thesis
    by (auto simp: generate_deployment_copies_def lookup_list_def)
qed

theorem long_copies_made_again_witness:
  "\<exists>(lst :: client_object object_list) w1 w2 pre d mid c post. generate_deployment_copies name_order
      long_app = Ok lst \<and>
     refresh store_env (fork_owner some_fork) lst (world [] [] []) = (Ok (), w1) \<and>
     refresh (traced store_env) (fork_owner some_fork) lst (w1, []) =
       (Ok (), (w2, pre @ Deleted d (Ok ()) # mid @
           Wrote c (refresh_mutate store_env (fork_owner some_fork) long_copy) (Ok ()) # post)) \<and>
     meta_key (us_meta d) = NN ''some-namespace'' (replicate 60 CHR ''w'' @ ''-so'') \<and>
     meta_key (obj_meta c) = NN ''some-namespace'' (replicate 60 CHR ''w'' @ ''-so'')"
proof (rule long_list)
  fix lst :: "client_object object_list"
  assume lst: "generate_deployment_copies name_order long_app = Ok lst" "ol_items lst = [long_copy]"
  have "ol_identity lst = (\<lambda>obj. Ok (meta_name (any_meta obj)))" "ol_gvk lst = deployment_copy_list_gvk"
    using lst(1) by (auto simp: generate_deployment_copies_def result_simps)
  then have eq: "lst = \<lparr>ol_items = [long_copy], ol_gvk = deployment_copy_list_gvk,
      ol_identity = (\<lambda>obj. Ok (meta_name (any_meta obj)))\<rparr>" using lst(2) by simp
  let ?w = "world [] [] []"
  have "is_ok (fst (refresh store_env (fork_owner some_fork) \<lparr>ol_items = [long_copy],
      ol_gvk = deployment_copy_list_gvk, ol_identity = (\<lambda>obj. Ok (meta_name (any_meta obj)))\<rparr> ?w))"
    by code_simp
  from returned [OF this [folded eq]] obtain w1
      where run: "refresh store_env (fork_owner some_fork) lst ?w = (Ok (), w1)" by auto
  have "is_ok (fst (refresh (traced store_env) (fork_owner some_fork) \<lparr>ol_items = [long_copy],
      ol_gvk = deployment_copy_list_gvk, ol_identity = (\<lambda>obj. Ok (meta_name (any_meta obj)))\<rparr>
      (snd (refresh store_env (fork_owner some_fork) \<lparr>ol_items = [long_copy],
      ol_gvk = deployment_copy_list_gvk, ol_identity = (\<lambda>obj. Ok (meta_name (any_meta obj)))\<rparr> ?w), [])))"
    by code_simp
  from returned [OF this [folded eq]] run obtain w2 calls where
    again: "refresh (traced store_env) (fork_owner some_fork) lst (w1, []) = (Ok (), (w2, calls))" by auto
  obtain c where c: "long_copy = ODeploymentCopy c"
    "dc_meta c = object_meta_of (replicate 60 CHR ''w'' @ ''-some-fork'') ''some-namespace''"
    using long_copy_eq by blast
  have kind: "ow_gvk (fork_owner some_fork) = store_scheme (ow_go_type (fork_owner some_fork))"
    by (simp add: fork_owner_def)
  have inj: "inj_on (default_name store_env (fork_owner some_fork) lst) (set (ol_items lst))" by (simp add: lst)
  have named: "well_named store_env (fork_owner some_fork) lst (store_objs ?w RDeploymentCopy)"
    by (simp add: well_named_def)
  have x: "long_copy \<in> set (ol_items lst)" "63 < length (meta_name (obj_meta long_copy))"
    by (simp_all add: lst c)
  have key: "NN (meta_namespace (ow_meta (fork_owner some_fork))) (take 63 (meta_name (obj_meta long_copy))) =
      NN ''some-namespace'' (replicate 60 CHR ''w'' @ ''-so'')"
    by (simp add: c fork_owner_def full_fork_def Let_def gen_fork_def)
  from long_copies_made_again [OF store.object_cluster_axioms kind range_orders(1) lst(1) inj named x run again]
  show ?thesis unfolding key using lst(1) run again by blast
qed

section \<open>Services with long names\<close>

text \<open>
  C34. A forked service whose name is longer than 63 bytes cannot be reached: after the update of the fork
  and the reconcile of the VSConfig made for it, requests with the header of the fork are routed
  to the full name, and no Service has that name, as none had before; the copy that selects the pods of the
  fork is stored under the first 63 bytes of it. The cut names of the copies have to differ, existing
  objects carry the names the program gives them, and only VSConfigs of the fork ask for the header.
\<close>

theorem long_service_name_unroutable:
  assumes "routed_cluster env scheme objs maps frks deps mgrs" and "range_order ord"
    and "microservice_update env ord q w = (Ok u, w1)"
    and "api_get (env_forks env) q w = (Ok fork, w0)" "build_app env ord fork w0 = (Ok a, v)"
    and "s \<in> set (app_services a)" "63 < length (service_name s fork)"
    and "cut_names_apart a" "well_named env (fork_owner fork) (generate_services ord a) (objs w RService)"
    and "well_named env (fork_owner fork) (generate_vsconfigs env a) (objs w RVSConfig)"
    and "objs w RService (NN (meta_namespace (fork_meta fork)) (service_name s fork)) = None"
    and "meta_namespace (fork_meta fork) \<noteq> ''''" "meta_name (svc_meta s) \<noteq> ''''"
        "length (meta_name (svc_meta s)) \<le> 63"
    and "routes_named objs (NN (meta_namespace (fork_meta fork)) (meta_name (svc_meta s))) w"
    and "spec_identifier (fork_spec fork) \<noteq> ''''"
    and "fmlookup hs (app_fork_header a) = Some (spec_identifier (fork_spec fork))"
    and "\<forall>v \<in> configs_route objs (NN (meta_namespace (fork_meta fork)) (meta_name (svc_meta s))) w hs.
      owned_by_parent env (vsc_meta v) (fork_owner fork)"
    and "reconcile_vsconfig env (NN (meta_namespace (fork_meta fork)) (take 63 (service_name s fork)))
        w1 = (Ok u', w2)"
  shows "routed rx objs (NN (meta_namespace (fork_meta fork)) (meta_name (svc_meta s))) w2 hs
      (service_name s fork) \<and>
    objs w2 RService (NN (meta_namespace (fork_meta fork)) (service_name s fork)) = None \<and>
    (\<exists>c. objs w2 RService (NN (meta_namespace (fork_meta fork)) (take 63 (service_name s fork))) =
        Some (OService c) \<and>
       ss_selector (svc_spec c) = ss_selector (svc_spec (labelled_service_copy ord a s)))"
  using routed_cluster.long_service_requests [OF assms(1), OF assms(3,2,4,5,8-10,6) refl assms(12-19)]
      assms(7,11)
  by blast

text \<open>A fork with a name of 55 bytes, and a service with one of 12.\<close>

definition long_fork :: fork where
  "long_fork = full_fork (replicate 55 CHR ''f'') None"

definition long_world :: store where
  "long_world = world [long_fork] [OService (gen_service ''some-service'')] []"

lemma long_fork_simps [simp]:
  "meta_namespace (fork_meta long_fork) = ''some-namespace''" "meta_name (fork_meta long_fork) =
      replicate 55 CHR ''f''"
  "spec_identifier (fork_spec long_fork) = replicate 55 CHR ''f''"
  by (simp_all only: long_fork_def full_fork_simps object_meta_of_def object_meta.simps)

lemma long_world_objects:
  "store_objs long_world r k = Some x \<longleftrightarrow> r = RService \<and> k = some_service_key \<and>
      x = OService (gen_service ''some-service'')"
  by (auto simp: long_world_def object_key_def meta_key_def gen_service_def)

lemma long_world_named: "well_named store_env (fork_owner long_fork) lst (store_objs long_world r)"
  by (auto simp: well_named_def long_world_objects gen_service_def owned_by_parent_def)

theorem long_service_name_unroutable_witness:
  "\<exists>w1 w2. microservice_update store_env name_order (NN ''some-namespace'' (replicate 55 CHR ''f''))
      long_world = (Ok (), w1) \<and>
     reconcile_vsconfig store_env (NN ''some-namespace'' (''some-service-'' @ replicate 50 CHR ''f''))
         w1 = (Ok (), w2) \<and>
     routed (\<lambda>_ _. False) store_objs some_service_key w2 (fmupd ''fork-identifier''
         (replicate 55 CHR ''f'') fmempty)
       (''some-service-'' @ replicate 55 CHR ''f'') \<and>
     store_objs w2 RService (NN ''some-namespace'' (''some-service-'' @ replicate 55 CHR ''f'')) = None"
proof -
  let ?q = "NN ''some-namespace'' (replicate 55 CHR ''f'')"
    and ?k = "NN ''some-namespace'' (''some-service-'' @ replicate 50 CHR ''f'')"
  let ?hs = "fmupd ''fork-identifier'' (replicate 55 CHR ''f'') fmempty"
  have "is_ok (fst (microservice_update store_env name_order ?q long_world))" by code_simp
  from returned [OF this] obtain w1 where run: "microservice_update store_env name_order ?q long_world =
      (Ok (), w1)" by auto
  have "is_ok (fst (reconcile_vsconfig store_env ?k (snd (microservice_update store_env name_order ?q
      long_world))))" by code_simp
  from returned [OF this] run obtain w2
      where reconciled: "reconcile_vsconfig store_env ?k w1 = (Ok (), w2)" by auto
  have get: "api_get (env_forks store_env) ?q long_world = (Ok long_fork, long_world)"
    by (simp add: store_read_get_def long_world_def world_def stored_forks_def meta_key_def)
      (simp add: long_fork_def full_fork_def gen_fork_def Let_def)
  have "(case fst (build_app store_env name_order long_fork long_world) of
      Ok a \<Rightarrow> map (\<lambda>s. meta_name (svc_meta s)) (app_services a) = [''some-service''] \<and>
          app_fork_header a = ''fork-identifier''
    | _ \<Rightarrow> False)" by code_simp
  then obtain a v where build: "build_app store_env name_order long_fork long_world = (Ok a, v)"
    and names: "map (\<lambda>s. meta_name (svc_meta s)) (app_services a) = [''some-service'']"
    and header: "app_fork_header a = ''fork-identifier''"
    by (cases "build_app store_env name_order long_fork long_world") (auto split: result.splits)
  from names obtain s where s: "app_services a = [s]" "meta_name (svc_meta s) = ''some-service''" by auto
  have long: "service_name s long_fork = ''some-service-'' @ replicate 55 CHR ''f''"
    by (simp add: service_name_def sprintf_dash_def s(2) del: replicate.simps)
  have cut: "take 63 (service_name s long_fork) = ''some-service-'' @ replicate 50 CHR ''f''"
    by (simp add: long)
  have "routed (\<lambda>_ _. False) store_objs (NN (meta_namespace (fork_meta long_fork))
      (meta_name (svc_meta s))) w2 ?hs
      (service_name s long_fork) \<and>
    store_objs w2 RService (NN (meta_namespace (fork_meta long_fork)) (service_name s long_fork)) = None"
  proof -
    have "store_objs long_world RService (NN (meta_namespace (fork_meta long_fork))
        (service_name s long_fork)) = None"
      by (auto simp: long_world_objects long simp flip: not_Some_eq)
    moreover have "cut_names_apart a" by (simp add: cut_names_apart_def s(1))
    moreover have "routes_named store_objs k long_world" "configs_route store_objs k long_world ?hs = {}" for k
      by (auto simp: routes_named_def configs_route_def long_world_objects)
    ultimately show ?thesis
      using long_service_name_unroutable [OF store.routed_cluster_axioms range_orders(1) run get build,
          of s ?hs "()" w2 "\<lambda>_ _. False"]
        s header reconciled [folded cut] long_world_named long by auto
  qed
  with run reconciled s(2) long show ?thesis by auto
qed

end
