(* ===== verification/GoMemory.thy ===== *)
theory GoMemory
  imports Prelude
begin

text \<open>
  Memory of a Go program, for the code whose point is what it shares: cells at addresses,
  pointers, slices and maps that refer to cells, and copying. A type that can be copied has a
  view, the value it stands for in a memory, and a footprint, the addresses that the view
  depends on; \<open>copyable\<close> says that a copy has the same view and a fresh footprint. Pointers, slices,
  maps and structs of copyable parts are copyable, so each type of the program needs one line.
\<close>

section \<open>Cells\<close>

text \<open>
  A memory is the list of the cells allocated so far, of which none is ever freed while it can
  be reached; what a cell holds is a parameter. A pointer that does not lead to a cell of its
  type cannot be made in Go, and is a panic here.
\<close>

type_synonym addr = nat
type_synonym 'c memory = "'c list"

definition cell_at :: "'c memory \<Rightarrow> addr \<Rightarrow> 'c option" where
  "cell_at m a = (if a < length m then Some (m ! a) else None)"

definition peek :: "('c \<Rightarrow> 't option) \<Rightarrow> 'c memory \<Rightarrow> addr \<Rightarrow> 't option" where
  "peek sel m a = Option.bind (cell_at m a) sel"

definition alloc :: "'c \<Rightarrow> ('c memory, addr) eff" where
  "alloc c m = (Ok (length m), m @ [c])"

definition load :: "('c \<Rightarrow> 't option) \<Rightarrow> addr \<Rightarrow> ('c memory, 't) eff" where
  "load sel a m = (case peek sel m a of Some x \<Rightarrow> (Ok x, m) | None \<Rightarrow> (Panic NilDereference, m))"

definition store_cell :: "addr \<Rightarrow> 'c \<Rightarrow> ('c memory, unit) eff" where
  "store_cell a c m = (Ok (), m[a := c])"

text \<open>A memory in which everything allocated before is as it was.\<close>

definition extends :: "'c memory \<Rightarrow> 'c memory \<Rightarrow> bool" where
  "extends m m' \<longleftrightarrow> take (length m) m' = m"

definition same_cells :: "addr set \<Rightarrow> 'c memory \<Rightarrow> 'c memory \<Rightarrow> bool" where
  "same_cells S m m' \<longleftrightarrow> (\<forall>a \<in> S. cell_at m' a = cell_at m a)"

lemma extends_length: "extends m m' \<Longrightarrow> length m \<le> length m'"
  unfolding extends_def by (metis length_take min.cobounded1)

lemma extends_cell: "extends m m' \<Longrightarrow> a < length m \<Longrightarrow> cell_at m' a = cell_at m a"
  using extends_length [of m m'] by (auto simp: extends_def cell_at_def) (metis nth_take)

lemma extends_same: "extends m m' \<Longrightarrow> S \<subseteq> {..<length m} \<Longrightarrow> same_cells S m m'"
  by (auto simp: same_cells_def extends_cell)

lemma extends_refl [simp]: "extends m m"
  by (simp add: extends_def)

lemma extends_trans: "extends m m1 \<Longrightarrow> extends m1 m2 \<Longrightarrow> extends m m2"
  using extends_length [of m m1] unfolding extends_def by (metis min.absorb1 take_take)

lemma extends_append [simp]: "extends m (m @ cs)"
  by (simp add: extends_def)

lemma extends_write: "extends m m' \<Longrightarrow> length m \<le> a \<Longrightarrow> extends m (m'[a := c])"
  by (simp add: extends_def take_update_cancel)

lemma peek_same: "same_cells S m m' \<Longrightarrow> a \<in> S \<Longrightarrow> peek sel m' a = peek sel m a"
  by (simp add: same_cells_def peek_def)

lemma same_cells_subset: "same_cells S m m' \<Longrightarrow> T \<subseteq> S \<Longrightarrow> same_cells T m m'"
  by (auto simp: same_cells_def)

lemma peek_allocated: "peek sel m a = Some x \<Longrightarrow> a < length m"
  by (auto simp: peek_def cell_at_def split: if_splits)

lemma peek_extends: "peek sel m a = Some x \<Longrightarrow> extends m m' \<Longrightarrow> peek sel m' a = Some x"
  using peek_allocated [of sel m a x] by (simp add: peek_def extends_cell)

lemma peek_written [simp]: "a < length m \<Longrightarrow> peek sel (m[a := c]) a = sel c"
  by (simp add: peek_def cell_at_def)

lemma cell_at_write: "a \<noteq> b \<Longrightarrow> cell_at (m[b := c]) a = cell_at m a"
  by (simp add: cell_at_def)

lemma same_cells_write: "b \<notin> S \<Longrightarrow> same_cells S m (m[b := c])"
  by (metis same_cells_def cell_at_write)

section \<open>Copyable types\<close>

text \<open>
  A private copy has the value of the original, which is where it was, and no cell in common with
  it: whatever is written to the cells of one, the other keeps its value.

  \<open>view m x\<close> is the value of \<open>x\<close>, if all its pointers lead to cells of their types, and \<open>reach m x\<close>
  the cells it is made of. Copying writes to no cell that was there before.
\<close>

definition private_copy ::
  "('c memory \<Rightarrow> 't \<Rightarrow> 'v option) \<Rightarrow> ('c memory \<Rightarrow> 't \<Rightarrow> addr set) \<Rightarrow> 'c memory \<Rightarrow> 't \<Rightarrow> 'c memory \<Rightarrow> 't \<Rightarrow> bool" where
  "private_copy view reach m x m' y \<longleftrightarrow>
     extends m m' \<and> view m' x = view m x \<and> view m' y = view m x \<and> reach m' x \<inter> reach m' y = {} \<and>
     (\<forall>m''. same_cells (- reach m' y) m' m'' \<longrightarrow> view m'' x = view m x) \<and>
     (\<forall>m''. same_cells (- reach m' x) m' m'' \<longrightarrow> view m'' y = view m x)"

locale copyable =
  fixes view :: "'c memory \<Rightarrow> 't \<Rightarrow> 'v option"
    and reach :: "'c memory \<Rightarrow> 't \<Rightarrow> addr set"
    and copy :: "'t \<Rightarrow> ('c memory, 't) eff"
  assumes frame: "same_cells (reach m x) m m' \<Longrightarrow> view m' x = view m x \<and> reach m' x = reach m x"
    and closed: "view m x = Some v \<Longrightarrow> reach m x \<subseteq> {..<length m}"
    and copied: "view m x = Some v \<Longrightarrow> \<exists>y m'. copy x m = (Ok y, m') \<and> extends m m' \<and>
      view m' y = Some v \<and> reach m' y \<subseteq> {length m..<length m'}"
begin

lemma later_view:
  assumes "view m x = Some v" "extends m m'"
  shows "view m' x = Some v" "reach m' x = reach m x"
  using frame [OF extends_same [OF assms(2) closed [OF assms(1)]]] assms(1) by simp_all

lemma unwritten_view:
  assumes "view m x = Some v" "b \<notin> reach m x"
  shows "view (m[b := c]) x = Some v" "reach (m[b := c]) x = reach m x"
  using frame [OF same_cells_write [OF assms(2), of m c]] assms(1) by simp_all

text \<open>A copy is private: neither of the two sees what is written to the other.\<close>

lemma copy_private:
  assumes "view m x = Some v"
  shows "\<exists>y m'. copy x m = (Ok y, m') \<and> private_copy view reach m x m' y"
proof -
  from copied [OF assms] obtain y m' where copy: "copy x m = (Ok y, m')" "extends m m'" "view m' y = Some v"
    "reach m' y \<subseteq> {length m..<length m'}" by blast
  note orig = later_view [OF assms copy(2)]
  have disj: "reach m' x \<inter> reach m' y = {}" using orig(2) closed [OF assms] copy(4) by fastforce
  have "view m'' x = Some v" if "same_cells (- reach m' y) m' m''" for m''
    using frame [OF same_cells_subset [OF that, of "reach m' x"]] disj orig(1) by auto
  moreover have "view m'' y = Some v" if "same_cells (- reach m' x) m' m''" for m''
    using frame [OF same_cells_subset [OF that, of "reach m' y"]] disj copy(3) by auto
  ultimately show ?thesis using copy orig disj assms by (auto simp: private_copy_def)
qed

end

section \<open>Values without pointers\<close>

lemma copyable_plain: "copyable (\<lambda>_. Some) (\<lambda>_ _. {}) (\<lambda>x. return x)"
  by standard auto

section \<open>Pairs and structs\<close>

definition pair_view :: "('c memory \<Rightarrow> 's \<Rightarrow> 'v option) \<Rightarrow> ('c memory \<Rightarrow> 't \<Rightarrow> 'w option) \<Rightarrow> 'c memory \<Rightarrow>
    's \<times> 't \<Rightarrow> ('v \<times> 'w) option" where
  "pair_view v1 v2 m p = Option.bind (v1 m (fst p)) (\<lambda>a. map_option (Pair a) (v2 m (snd p)))"

definition pair_reach :: "('c memory \<Rightarrow> 's \<Rightarrow> addr set) \<Rightarrow> ('c memory \<Rightarrow> 't \<Rightarrow> addr set) \<Rightarrow> 'c memory \<Rightarrow>
    's \<times> 't \<Rightarrow> addr set" where
  "pair_reach r1 r2 m p = r1 m (fst p) \<union> r2 m (snd p)"

definition pair_copy :: "('s \<Rightarrow> ('c memory, 's) eff) \<Rightarrow> ('t \<Rightarrow> ('c memory, 't) eff) \<Rightarrow> 's \<times> 't \<Rightarrow>
    ('c memory, 's \<times> 't) eff" where
  "pair_copy c1 c2 p = bind_eff (c1 (fst p)) (\<lambda>x. bind_eff (c2 (snd p)) (\<lambda>y. return (x, y)))"

lemma pair_view_Some:
  "pair_view v1 v2 m p = Some q \<longleftrightarrow> v1 m (fst p) = Some (fst q) \<and> v2 m (snd p) = Some (snd q)"
  by (cases q) (auto simp: pair_view_def bind_eq_Some_conv)

lemma copyable_pair:
  assumes "copyable v1 r1 c1" "copyable v2 r2 c2"
  shows "copyable (pair_view v1 v2) (pair_reach r1 r2) (pair_copy c1 c2)"
proof
  fix m p m'
  assume "same_cells (pair_reach r1 r2 m p) m m'"
  then have "same_cells (r1 m (fst p)) m m'" "same_cells (r2 m (snd p)) m m'"
    by (auto simp: pair_reach_def intro: same_cells_subset)
  then show "pair_view v1 v2 m' p = pair_view v1 v2 m p \<and> pair_reach r1 r2 m' p = pair_reach r1 r2 m p"
    using copyable.frame [OF assms(1)] copyable.frame [OF assms(2)] by (simp add: pair_view_def pair_reach_def)
next
  fix m p q
  assume view: "pair_view v1 v2 m p = Some q"
  then have views: "v1 m (fst p) = Some (fst q)" "v2 m (snd p) = Some (snd q)" by (simp_all add: pair_view_Some)
  show "pair_reach r1 r2 m p \<subseteq> {..<length m}"
    using copyable.closed [OF assms(1) views(1)] copyable.closed [OF assms(2) views(2)]
      by (simp add: pair_reach_def)
  from copyable.copied [OF assms(1) views(1)] obtain x m1 where one: "c1 (fst p) m = (Ok x, m1)" "extends m m1"
    "v1 m1 x = Some (fst q)" "r1 m1 x \<subseteq> {length m..<length m1}" by blast
  note views(2) [THEN copyable.later_view(1) [OF assms(2)], OF one(2)]
  from copyable.copied [OF assms(2) this] obtain y m' where two: "c2 (snd p) m1 = (Ok y, m')" "extends m1 m'"
    "v2 m' y = Some (snd q)" "r2 m' y \<subseteq> {length m1..<length m'}" by blast
  note later = copyable.later_view [OF assms(1) one(3) two(2)]
  have "pair_reach r1 r2 m' (x, y) \<subseteq> {length m..<length m'}"
    using one(4) two(4) extends_length [OF one(2)] extends_length [OF two(2)] later(2)
    by (fastforce simp: pair_reach_def)
  moreover have "pair_copy c1 c2 p m = (Ok (x, y), m')" using one(1) two(1)
    by (simp add: pair_copy_def bind_eff_def)
  ultimately show "\<exists>y m'. pair_copy c1 c2 p m = (Ok y, m') \<and> extends m m' \<and> pair_view v1 v2 m' y = Some q \<and>
      pair_reach r1 r2 m' y \<subseteq> {length m..<length m'}"
    using extends_trans [OF one(2) two(2)] later(1) two(3) by (auto simp: pair_view_Some)
qed

text \<open>
  A struct is copied by copying some of its fields, \<open>get s\<close>, and leaving the others as they are; its
  value is built from the values of these fields and from the others.
\<close>

definition struct_view :: "('s \<Rightarrow> 't) \<Rightarrow> ('s \<Rightarrow> 'v \<Rightarrow> 'w) \<Rightarrow> ('c memory \<Rightarrow> 't \<Rightarrow> 'v option) \<Rightarrow> 'c memory \<Rightarrow> 's \<Rightarrow>
    'w option" where
  "struct_view get build view m s = map_option (build s) (view m (get s))"

definition struct_reach :: "('s \<Rightarrow> 't) \<Rightarrow> ('c memory \<Rightarrow> 't \<Rightarrow> addr set) \<Rightarrow> 'c memory \<Rightarrow> 's \<Rightarrow> addr set" where
  "struct_reach get reach m s = reach m (get s)"

lemma copyable_struct:
  assumes "copyable view reach copy" and "\<And>s t. get (put t s) = t" and "\<And>s t. build (put t s) = build s"
    and "\<And>s. into s = bind_eff (copy (get s)) (\<lambda>t. return (put t s))"
  shows "copyable (struct_view get build view) (struct_reach get reach) into"
proof
  fix m s m'
  assume "same_cells (struct_reach get reach m s) m m'"
  from copyable.frame [OF assms(1) this [unfolded struct_reach_def]]
  show "struct_view get build view m' s = struct_view get build view m s \<and>
      struct_reach get reach m' s = struct_reach get reach m s" by (simp add: struct_view_def struct_reach_def)
next
  fix m s w
  assume "struct_view get build view m s = Some w"
  then obtain v where v: "view m (get s) = Some v" "w = build s v" by (auto simp: struct_view_def)
  show "struct_reach get reach m s \<subseteq> {..<length m}"
    using copyable.closed [OF assms(1) v(1)] by (simp add: struct_reach_def)
  from copyable.copied [OF assms(1) v(1)] obtain t m' where
    "copy (get s) m = (Ok t, m')" "extends m m'" "view m' t = Some v"
        "reach m' t \<subseteq> {length m..<length m'}" by blast
  then show "\<exists>y m'. into s m = (Ok y, m') \<and> extends m m' \<and> struct_view get build view m' y = Some w \<and>
      struct_reach get reach m' y \<subseteq> {length m..<length m'}"
    by (auto simp: assms(2-4) v(2) struct_view_def struct_reach_def bind_eff_def)
qed

section \<open>Pointers\<close>

text \<open>
  \<open>out := new(T); in.DeepCopyInto(out)\<close> for a pointer \<open>in\<close> that is not nil: a zeroed cell, into which
  the copy of the struct is written.
\<close>

definition new_copy ::
  "('t \<Rightarrow> 'c) \<Rightarrow> ('c \<Rightarrow> 't option) \<Rightarrow> 'c \<Rightarrow> ('t \<Rightarrow> ('c memory, 't) eff) \<Rightarrow> addr \<Rightarrow> ('c memory, addr) eff" where
  "new_copy mk sel zero into a =
     bind_eff (alloc zero) (\<lambda>b. bind_eff (load sel a) (\<lambda>x. bind_eff (into x) (\<lambda>y.
     bind_eff (store_cell b (mk y)) (\<lambda>_. return b))))"

definition cell_view :: "('c \<Rightarrow> 't option) \<Rightarrow> ('c memory \<Rightarrow> 't \<Rightarrow> 'v option) \<Rightarrow> 'c memory \<Rightarrow> addr \<Rightarrow> 'v option" where
  "cell_view sel view m a = Option.bind (peek sel m a) (view m)"

definition cell_reach :: "('c \<Rightarrow> 't option) \<Rightarrow> ('c memory \<Rightarrow> 't \<Rightarrow> addr set) \<Rightarrow> 'c memory \<Rightarrow> addr \<Rightarrow> addr set" where
  "cell_reach sel reach m a = insert a (case peek sel m a of None \<Rightarrow> {} | Some x \<Rightarrow> reach m x)"

lemma cell_view_Some: "cell_view sel view m a = Some v \<longleftrightarrow> (\<exists>x. peek sel m a = Some x \<and> view m x = Some v)"
  by (auto simp: cell_view_def bind_eq_Some_conv)

text \<open>
  A cell that is allocated before what it refers to is copied, and filled afterwards: the copy is
  still there, and new.
\<close>

lemma copyable_filled:
  assumes "copyable view reach into" and "view m x = Some v"
  obtains y m2 where "into x (m @ [zero]) = (Ok y, m2)" "length m < length m2"
    "\<And>c. extends m (m2[length m := c])" "\<And>c. view (m2[length m := c]) y = Some v"
    "\<And>c. reach (m2[length m := c]) y \<subseteq> {length m..<length m2}"
proof -
  have m1: "extends m (m @ [zero])" "length (m @ [zero]) = Suc (length m)" by simp_all
  from copyable.later_view(1) [OF assms m1(1)] have "view (m @ [zero]) x = Some v" .
  from copyable.copied [OF assms(1) this] obtain y m2 where y: "into x (m @ [zero]) = (Ok y, m2)"
      "extends (m @ [zero]) m2"
    "view m2 y = Some v" "reach m2 y \<subseteq> {length (m @ [zero])..<length m2}" by blast
  have out: "length m \<notin> reach m2 y" using y(4) by auto
  show ?thesis
  proof (rule that [OF y(1)])
    show "length m < length m2" using extends_length [OF y(2)] by simp
    show "extends m (m2[length m := c])" for c using extends_write [OF extends_trans [OF m1(1) y(2)]] by simp
    show "view (m2[length m := c]) y = Some v" "reach (m2[length m := c]) y \<subseteq> {length m..<length m2}" for c
      using copyable.unwritten_view [OF assms(1) y(3) out, of c] y(4) by auto
  qed
qed

lemma new_copy_run:
  assumes "peek sel m a = Some x" "into x (m @ [zero]) = (Ok y, m2)"
  shows "new_copy mk sel zero into a m = (Ok (length m), m2[length m := mk y])"
  using assms(2) peek_extends [OF assms(1), of "m @ [zero]"]
  by (simp add: new_copy_def bind_eff_def alloc_def load_def store_cell_def)

lemma cell_view_same:
  assumes "copyable view reach into" and same: "same_cells (cell_reach sel reach m a) m m'"
  shows "cell_view sel view m' a = cell_view sel view m a \<and> cell_reach sel reach m' a =
      cell_reach sel reach m a"
proof -
  from same have "peek sel m' a = peek sel m a" by (rule peek_same) (simp add: cell_reach_def)
  moreover have "view m' x = view m x \<and> reach m' x = reach m x" if "peek sel m a = Some x" for x
    using same that by (intro copyable.frame [OF assms(1)]) (auto simp: cell_reach_def elim: same_cells_subset)
  ultimately show ?thesis by (cases "peek sel m a") (auto simp: cell_view_def cell_reach_def)
qed

lemma cell_view_closed:
  assumes "copyable view reach into" "cell_view sel view m a = Some v"
  shows "cell_reach sel reach m a \<subseteq> {..<length m}"
  using assms(2) copyable.closed [OF assms(1)] peek_allocated [of sel m a]
    by (fastforce simp: cell_view_Some cell_reach_def)

text \<open>The new cell may be read through a selector of its own, as that of a slice is.\<close>

lemma new_copy_copied:
  assumes "copyable view reach into" and "cell_view sel view m a = Some v"
    and sel': "\<forall>x m. view m x = Some v \<longrightarrow> sel' (mk x) = Some x"
  shows "\<exists>b m'. new_copy mk sel zero into a m = (Ok b, m') \<and> extends m m' \<and>
    cell_view sel' view m' b = Some v \<and> cell_reach sel' reach m' b \<subseteq> {length m..<length m'}"
proof -
  from assms(2) obtain x where x: "peek sel m a = Some x" "view m x = Some v" by (auto simp: cell_view_Some)
  from copyable_filled [OF assms(1) x(2), of zero] obtain y m2 where y: "into x (m @ [zero]) = (Ok y, m2)"
    "length m < length m2" "\<And>c. extends m (m2[length m := c])" "\<And>c. view (m2[length m := c]) y = Some v"
    "\<And>c. reach (m2[length m := c]) y \<subseteq> {length m..<length m2}" by blast
  let ?m' = "m2[length m := mk y]"
  have "peek sel' ?m' (length m) = Some y" using y(2,4) sel' by auto
  with y(2,4,5) have "cell_view sel' view ?m' (length m) = Some v"
    "cell_reach sel' reach ?m' (length m) \<subseteq> {length m..<length ?m'}"
    by (auto simp: cell_view_Some cell_reach_def)
  with new_copy_run [where into = into and zero = zero, OF x(1) y(1)] y(3) show ?thesis by blast
qed

lemma copyable_cell:
  assumes "copyable view reach into" and "\<And>x. sel (mk x) = Some x"
  shows "copyable (cell_view sel view) (cell_reach sel reach) (new_copy mk sel zero into)"
  by unfold_locales (rule cell_view_same [OF assms(1)], assumption, rule cell_view_closed [OF assms(1)],
      assumption,
    rule new_copy_copied [OF assms(1)], assumption, simp add: assms(2))

text \<open>A pointer that may be nil, of which nothing is copied then.\<close>

definition opt_copy :: "('t \<Rightarrow> ('c memory, 't) eff) \<Rightarrow> 't option \<Rightarrow> ('c memory, 't option) eff" where
  "opt_copy copy p = (case p of None \<Rightarrow> return None | Some x \<Rightarrow> bind_eff (copy x) (\<lambda>y. return (Some y)))"

definition opt_view :: "('c memory \<Rightarrow> 't \<Rightarrow> 'v option) \<Rightarrow> 'c memory \<Rightarrow> 't option \<Rightarrow> 'v option option" where
  "opt_view view m p = (case p of None \<Rightarrow> Some None | Some x \<Rightarrow> map_option Some (view m x))"

definition opt_reach :: "('c memory \<Rightarrow> 't \<Rightarrow> addr set) \<Rightarrow> 'c memory \<Rightarrow> 't option \<Rightarrow> addr set" where
  "opt_reach reach m p = (case p of None \<Rightarrow> {} | Some x \<Rightarrow> reach m x)"

lemma copyable_opt:
  assumes "copyable view reach copy"
  shows "copyable (opt_view view) (opt_reach reach) (opt_copy copy)"
proof
  fix m p m'
  assume "same_cells (opt_reach reach m p) m m'"
  then show "opt_view view m' p = opt_view view m p \<and> opt_reach reach m' p = opt_reach reach m p"
    using copyable.frame [OF assms] by (cases p) (simp_all add: opt_view_def opt_reach_def)
next
  fix m p v
  assume v: "opt_view view m p = Some v"
  show "opt_reach reach m p \<subseteq> {..<length m}"
    using v copyable.closed [OF assms] by (cases p) (auto simp: opt_view_def opt_reach_def)
  show "\<exists>y m'. opt_copy copy p m = (Ok y, m') \<and> extends m m' \<and> opt_view view m' y = Some v \<and>
      opt_reach reach m' y \<subseteq> {length m..<length m'}"
  proof (cases p)
    case None
    then show ?thesis using v by (simp add: opt_copy_def opt_view_def opt_reach_def)
  next
    case (Some x)
    then obtain u where u: "view m x = Some u" "v = Some u" using v by (auto simp: opt_view_def)
    from copyable.copied [OF assms u(1)] obtain y m' where "copy x m = (Ok y, m')" "extends m m'"
        "view m' y = Some u"
      "reach m' y \<subseteq> {length m..<length m'}" by blast
    with Some u(2) show ?thesis
      by (intro exI [of _ "Some y"] exI [of _ m']) (simp add: opt_copy_def opt_view_def opt_reach_def
          bind_eff_def)
  qed
qed

section \<open>Slices\<close>

text \<open>\<open>for i := range in { in[i].DeepCopyInto(&out[i]) }\<close>, with the elements written to \<open>out\<close> as a result.\<close>

fun map_eff :: "('t \<Rightarrow> ('w, 's) eff) \<Rightarrow> 't list \<Rightarrow> ('w, 's list) eff" where
  "map_eff f [] = return []"
| "map_eff f (x # xs) = bind_eff (f x) (\<lambda>y. bind_eff (map_eff f xs) (\<lambda>ys. return (y # ys)))"

definition list_view :: "('c memory \<Rightarrow> 't \<Rightarrow> 'v option) \<Rightarrow> 'c memory \<Rightarrow> 't list \<Rightarrow> 'v list option" where
  "list_view view m xs = those (map (view m) xs)"

definition list_reach :: "('c memory \<Rightarrow> 't \<Rightarrow> addr set) \<Rightarrow> 'c memory \<Rightarrow> 't list \<Rightarrow> addr set" where
  "list_reach reach m xs = (\<Union>x \<in> set xs. reach m x)"

lemma list_view_simps [simp]:
  "list_view view m [] = Some []"
  "list_view view m (x # xs) = Option.bind (view m x) (\<lambda>v. map_option (Cons v) (list_view view m xs))"
  "list_reach reach m [] = {}"
  "list_reach reach m (x # xs) = reach m x \<union> list_reach reach m xs"
  by (simp_all add: list_view_def list_reach_def split: option.split)

lemma list_view_plain [simp]: "list_view (\<lambda>_. Some) m xs = Some xs"
  by (induction xs) simp_all

lemma list_view_same_cells:
  assumes "copyable view reach copy" "same_cells (list_reach reach m xs) m m'"
  shows "list_view view m' xs = list_view view m xs \<and> list_reach reach m' xs = list_reach reach m xs"
  using assms(2)
proof (induction xs)
  case (Cons x xs)
  then have "same_cells (reach m x) m m'" "same_cells (list_reach reach m xs) m m'"
    by (auto elim: same_cells_subset)
  with Cons.IH copyable.frame [OF assms(1)] show ?case by simp
qed simp

lemma copyable_list_copied:
  assumes "copyable view reach copy"
  shows "list_view view m xs = Some vs \<Longrightarrow> \<exists>ys m'. map_eff copy xs m = (Ok ys, m') \<and> extends m m' \<and>
    list_view view m' ys = Some vs \<and> list_reach reach m' ys \<subseteq> {length m..<length m'} \<and> length ys = length xs"
proof (induction xs arbitrary: m vs)
  case (Cons x xs)
  then obtain v vs' where vs: "vs = v # vs'" "view m x = Some v" "list_view view m xs = Some vs'"
    by (auto simp: bind_eq_Some_conv)
  from copyable.copied [OF assms vs(2)] obtain y m1 where one: "copy x m = (Ok y, m1)" "extends m m1"
    "view m1 y = Some v" "reach m1 y \<subseteq> {length m..<length m1}" by blast
  have "list_reach reach m xs \<subseteq> {..<length m}" using vs(3)
    by (induction xs arbitrary: vs') (auto simp: bind_eq_Some_conv dest: copyable.closed [OF assms])
  then have "list_view view m1 xs = Some vs'"
    using list_view_same_cells [OF assms extends_same [OF one(2)]] vs(3) by simp
  from Cons.IH [OF this] obtain ys m' where rest: "map_eff copy xs m1 = (Ok ys, m')" "extends m1 m'"
    "list_view view m' ys = Some vs'" "list_reach reach m' ys \<subseteq> {length m1..<length m'}"
        "length ys = length xs" by blast
  note later = copyable.later_view [OF assms one(3) rest(2)]
  have "list_reach reach m' (y # ys) \<subseteq> {length m..<length m'}"
    using one(4) rest(4) later(2) extends_length [OF one(2)] extends_length [OF rest(2)] by fastforce
  moreover have "map_eff copy (x # xs) m = (Ok (y # ys), m')" using one(1) rest(1) by (simp add: bind_eff_def)
  ultimately show ?case
    using extends_trans [OF one(2) rest(2)] later(1) rest(3,5)
      by (intro exI [of _ "y # ys"] exI [of _ m']) (simp add: vs(1))
qed simp

lemma copyable_list:
  assumes "copyable view reach copy"
  shows "copyable (list_view view) (list_reach reach) (map_eff copy)"
proof
  fix m xs vs
  assume "list_view view m xs = Some vs"
  then show "list_reach reach m xs \<subseteq> {..<length m}"
    by (induction xs arbitrary: vs) (auto simp: bind_eq_Some_conv dest: copyable.closed [OF assms])
  show "\<exists>y m'. map_eff copy xs m = (Ok y, m') \<and> extends m m' \<and> list_view view m' y = Some vs \<and>
      list_reach reach m' y \<subseteq> {length m..<length m'}"
    using copyable_list_copied [OF assms \<open>list_view view m xs = Some vs\<close>] by blast
qed (rule list_view_same_cells [OF assms])

text \<open>
  A slice is nil, or a window of an array: its first element and its length; the capacity plays no
  part. The copy of a slice has an array of its own, of just that length.
\<close>

datatype slice = NilSlice | Slice addr nat nat

definition window :: "('c \<Rightarrow> 't list option) \<Rightarrow> nat \<Rightarrow> nat \<Rightarrow> 'c \<Rightarrow> 't list option" where
  "window sel i n c =
     Option.bind (sel c) (\<lambda>xs. if i + n \<le> length xs then Some (take n (drop i xs)) else None)"

fun copy_slice ::
  "('t list \<Rightarrow> 'c) \<Rightarrow> ('c \<Rightarrow> 't list option) \<Rightarrow> 'c \<Rightarrow> ('t \<Rightarrow> ('c memory, 't) eff) \<Rightarrow> slice \<Rightarrow>
      ('c memory, slice) eff" where
  "copy_slice mk sel zero each NilSlice = return NilSlice"
| "copy_slice mk sel zero each (Slice a i n) =
     bind_eff (alloc zero) (\<lambda>b. bind_eff (load (window sel i n) a) (\<lambda>xs. bind_eff (map_eff each xs) (\<lambda>ys.
     bind_eff (store_cell b (mk ys)) (\<lambda>_. return (Slice b 0 n)))))"

fun slice_view :: "('c \<Rightarrow> 't list option) \<Rightarrow> ('c memory \<Rightarrow> 't \<Rightarrow> 'v option) \<Rightarrow> 'c memory \<Rightarrow> slice \<Rightarrow>
    'v list option" where
  "slice_view sel view m NilSlice = Some []"
| "slice_view sel view m (Slice a i n) = cell_view (window sel i n) (list_view view) m a"

fun slice_reach :: "('c \<Rightarrow> 't list option) \<Rightarrow> ('c memory \<Rightarrow> 't \<Rightarrow> addr set) \<Rightarrow> 'c memory \<Rightarrow> slice \<Rightarrow> addr set" where
  "slice_reach sel reach m NilSlice = {}"
| "slice_reach sel reach m (Slice a i n) = cell_reach (window sel i n) (list_reach reach) m a"

lemma copy_slice_new:
  "copy_slice mk sel zero each (Slice a i n) =
     bind_eff (new_copy mk (window sel i n) zero (map_eff each) a) (\<lambda>b. return (Slice b 0 n))"
  by (simp add: new_copy_def bind_eff_assoc del: lift_result_simps)

lemma length_list_view: "list_view view m xs = Some vs \<Longrightarrow> length vs = length xs"
  by (induction xs arbitrary: vs) (auto simp: bind_eq_Some_conv)

lemma copyable_slice:
  assumes "copyable view reach each" and sel: "\<And>xs. sel (mk xs) = Some xs"
  shows "copyable (slice_view sel view) (slice_reach sel reach) (copy_slice mk sel zero each)"
proof
  note lists = copyable_list [OF assms(1)]
  fix m s
  show "slice_view sel view m' s = slice_view sel view m s \<and> slice_reach sel reach m' s =
      slice_reach sel reach m s"
    if "same_cells (slice_reach sel reach m s) m m'" for m'
    using that cell_view_same [OF lists] by (cases s) simp_all
  fix vs
  assume vs: "slice_view sel view m s = Some vs"
  then show "slice_reach sel reach m s \<subseteq> {..<length m}"
    using cell_view_closed [OF lists] by (cases s) simp_all
  show "\<exists>y m'. copy_slice mk sel zero each s m = (Ok y, m') \<and> extends m m' \<and>
      slice_view sel view m' y = Some vs \<and>
      slice_reach sel reach m' y \<subseteq> {length m..<length m'}"
  proof (cases s)
    case NilSlice
    with vs show ?thesis by simp
  next
    case (Slice a i n)
    then have view: "cell_view (window sel i n) (list_view view) m a = Some vs" using vs by simp
    then have n: "length vs = n"
      by (auto simp: cell_view_Some peek_def window_def bind_eq_Some_conv dest!: length_list_view split:
          if_splits)
    have new: "\<forall>xs m'. list_view view m' xs = Some vs \<longrightarrow> window sel 0 n (mk xs) = Some xs"
      using n by (auto dest!: length_list_view simp: window_def sel)
    from new_copy_copied [where zero = zero and mk = mk and sel' = "window sel 0 n", OF lists view new]
        obtain b m' where
      "new_copy mk (window sel i n) zero (map_eff each) a m = (Ok b, m')" "extends m m'"
      "cell_view (window sel 0 n) (list_view view) m' b = Some vs"
      "cell_reach (window sel 0 n) (list_reach reach) m' b \<subseteq> {length m..<length m'}" by blast
    with Slice show ?thesis
      by (intro exI [of _ "Slice b 0 n"] exI [of _ m']) (simp add: copy_slice_new bind_eff_def del:
          copy_slice.simps)
  qed
qed

section \<open>Maps\<close>

text \<open>
  A map is a cell; a nil map reads as the empty one. The copy is a new map, to which a \<open>range\<close> over
  the old one adds the entries, in the order of the runtime.
\<close>

definition copy_map ::
  "(('k, 'v) fmap \<Rightarrow> 'c) \<Rightarrow> ('c \<Rightarrow> ('k, 'v) fmap option) \<Rightarrow> 'k order \<Rightarrow> addr \<Rightarrow> ('c memory, addr) eff" where
  "copy_map mk sel ord =
     new_copy mk sel (mk fmempty) (\<lambda>kvs. return (range_fold ord (\<lambda>key val out. fmupd key val out) kvs fmempty))"

lemma range_fold_copy: "range_order ord \<Longrightarrow> range_fold ord (\<lambda>k v s. fmupd k v s) m fmempty = m"
  by (rule fmap_ext) (simp add: fmlookup_range_copy [where g = "\<lambda>_ v. v"] split: option.split)

lemma copyable_map:
  assumes "range_order ord" and "\<And>x. sel (mk x) = Some x"
  shows "copyable (cell_view sel (\<lambda>_. Some)) (cell_reach sel (\<lambda>_ _. {})) (copy_map mk sel ord)"
  unfolding copy_map_def range_fold_copy [OF assms(1)]
    by (rule copyable_cell) (rule copyable_plain, rule assms(2))

end
