(* ===== verification/DeepCopy.thy ===== *)
theory DeepCopy
  imports ApiTypes GoMemory
begin

text \<open>
  \<^verbatim>\<open>api/v1beta1/zz_generated.deepcopy.go\<close>: the types of the program's API as they lie in memory,
  with the pointers, slices and maps that ApiTypes reads through, and the generated copies.
  controller-runtime calls them whenever an object leaves the cache that all reconcilers share.

  \<open>in.DeepCopyInto(out)\<close> is a function from the struct that \<open>in\<close> points to, to the one written to \<open>out\<close>:
  it begins with \<open>*out = *in\<close>, and then replaces the fields that refer to memory.
\<close>

section \<open>Types of other packages\<close>

text \<open>
  \<open>'x\<close> stands for the structs of apimachinery and of the core API that the types of the program
  contain: \<open>ObjectMeta\<close>, \<open>ListMeta\<close>, \<open>LabelSelector\<close>, \<open>Container\<close> and \<open>Time\<close>. How they are copied is a
  parameter.
\<close>

section \<open>Structs in memory\<close>

type_synonym pointer = "addr option"

record pod_spec_struct =
  pss_containers :: slice
  pss_hostname :: string

record pod_template_spec_struct =
  pts_object_meta :: pointer
  pts_pod_spec :: pod_spec_struct

record fork_service_struct =
  fss_selector :: pointer

record fork_deployment_struct =
  fds_selector :: pointer
  fds_template :: pointer
  fds_replicas :: pointer

record gateway_options_struct =
  gos_add_request_headers :: pointer
  gos_allow_upgrade :: slice

record fork_spec_struct =
  fps_manager :: string
  fps_identifier :: string
  fps_deadline :: pointer
  fps_gateway_options :: pointer
  fps_services :: pointer
  fps_deployments :: pointer

datatype fork_status = ForkStatus

record 'x fork_struct =
  fks_type :: gvk
  fks_meta :: 'x
  fks_spec :: fork_spec_struct
  fks_status :: fork_status

record 'x fork_list_struct =
  fls_type :: gvk
  fls_meta :: 'x
  fls_items :: slice

record fork_manager_spec_struct =
  fmp_ambassador_id :: string
  fmp_header_key :: string
  fmp_upstreams :: slice

datatype fork_manager_status = ForkManagerStatus

record 'x fork_manager_struct =
  fms_type :: gvk
  fms_meta :: 'x
  fms_spec :: fork_manager_spec_struct
  fms_status :: fork_manager_status

record 'x fork_manager_list_struct =
  fml_type :: gvk
  fml_meta :: 'x
  fml_items :: slice

datatype vsconfig_status = VSConfigStatus

record 'x vsconfig_struct =
  vcs_type :: gvk
  vcs_meta :: 'x
  vcs_spec :: vsconfig_spec
  vcs_status :: vsconfig_status

record 'x vsconfig_list_struct =
  vcl_type :: gvk
  vcl_meta :: 'x
  vcl_items :: slice

section \<open>Cells\<close>

text \<open>A cell holds a struct, a number, a map, or the array of a slice; \<open>Zeroed\<close> is fresh memory.\<close>

datatype 'x cell =
    Zeroed
  | CForeign 'x
  | CInt32 "32 word"
  | CHeaders labels
  | CStrings "string list"
  | CContainers "'x list"
  | CPodSpec pod_spec_struct
  | CPodTemplateSpec pod_template_spec_struct
  | CForkService fork_service_struct
  | CForkDeployment fork_deployment_struct
  | CGatewayOptions gateway_options_struct
  | CForkSpec fork_spec_struct
  | CForkStatus fork_status
  | CFork "'x fork_struct"
  | CForks "'x fork_struct list"
  | CForkList "'x fork_list_struct"
  | CUpstream upstream
  | CUpstreams "upstream list"
  | CForkManagerSpec fork_manager_spec_struct
  | CForkManagerStatus fork_manager_status
  | CForkManager "'x fork_manager_struct"
  | CForkManagers "'x fork_manager_struct list"
  | CForkManagerList "'x fork_manager_list_struct"
  | CVSConfigSpec vsconfig_spec
  | CVSConfigStatus vsconfig_status
  | CVSConfig "'x vsconfig_struct"
  | CVSConfigs "'x vsconfig_struct list"
  | CVSConfigList "'x vsconfig_list_struct"

type_synonym 'x go_memory = "'x cell memory"

definition cell_foreign :: "'x cell \<Rightarrow> 'x option" where
  "cell_foreign c = (case c of CForeign x \<Rightarrow> Some x | _ \<Rightarrow> None)"

definition cell_int32 :: "'x cell \<Rightarrow> (32 word) option" where
  "cell_int32 c = (case c of CInt32 x \<Rightarrow> Some x | _ \<Rightarrow> None)"

definition cell_headers :: "'x cell \<Rightarrow> labels option" where
  "cell_headers c = (case c of CHeaders x \<Rightarrow> Some x | _ \<Rightarrow> None)"

definition cell_strings :: "'x cell \<Rightarrow> (string list) option" where
  "cell_strings c = (case c of CStrings x \<Rightarrow> Some x | _ \<Rightarrow> None)"

definition cell_containers :: "'x cell \<Rightarrow> ('x list) option" where
  "cell_containers c = (case c of CContainers x \<Rightarrow> Some x | _ \<Rightarrow> None)"

definition cell_pod_spec :: "'x cell \<Rightarrow> pod_spec_struct option" where
  "cell_pod_spec c = (case c of CPodSpec x \<Rightarrow> Some x | _ \<Rightarrow> None)"

definition cell_pod_template_spec :: "'x cell \<Rightarrow> pod_template_spec_struct option" where
  "cell_pod_template_spec c = (case c of CPodTemplateSpec x \<Rightarrow> Some x | _ \<Rightarrow> None)"

definition cell_fork_service :: "'x cell \<Rightarrow> fork_service_struct option" where
  "cell_fork_service c = (case c of CForkService x \<Rightarrow> Some x | _ \<Rightarrow> None)"

definition cell_fork_deployment :: "'x cell \<Rightarrow> fork_deployment_struct option" where
  "cell_fork_deployment c = (case c of CForkDeployment x \<Rightarrow> Some x | _ \<Rightarrow> None)"

definition cell_gateway_options :: "'x cell \<Rightarrow> gateway_options_struct option" where
  "cell_gateway_options c = (case c of CGatewayOptions x \<Rightarrow> Some x | _ \<Rightarrow> None)"

definition cell_fork_spec :: "'x cell \<Rightarrow> fork_spec_struct option" where
  "cell_fork_spec c = (case c of CForkSpec x \<Rightarrow> Some x | _ \<Rightarrow> None)"

definition cell_fork_status :: "'x cell \<Rightarrow> fork_status option" where
  "cell_fork_status c = (case c of CForkStatus x \<Rightarrow> Some x | _ \<Rightarrow> None)"

definition cell_fork :: "'x cell \<Rightarrow> ('x fork_struct) option" where
  "cell_fork c = (case c of CFork x \<Rightarrow> Some x | _ \<Rightarrow> None)"

definition cell_forks :: "'x cell \<Rightarrow> ('x fork_struct list) option" where
  "cell_forks c = (case c of CForks x \<Rightarrow> Some x | _ \<Rightarrow> None)"

definition cell_fork_list :: "'x cell \<Rightarrow> ('x fork_list_struct) option" where
  "cell_fork_list c = (case c of CForkList x \<Rightarrow> Some x | _ \<Rightarrow> None)"

definition cell_upstream :: "'x cell \<Rightarrow> upstream option" where
  "cell_upstream c = (case c of CUpstream x \<Rightarrow> Some x | _ \<Rightarrow> None)"

definition cell_upstreams :: "'x cell \<Rightarrow> (upstream list) option" where
  "cell_upstreams c = (case c of CUpstreams x \<Rightarrow> Some x | _ \<Rightarrow> None)"

definition cell_fork_manager_spec :: "'x cell \<Rightarrow> fork_manager_spec_struct option" where
  "cell_fork_manager_spec c = (case c of CForkManagerSpec x \<Rightarrow> Some x | _ \<Rightarrow> None)"

definition cell_fork_manager_status :: "'x cell \<Rightarrow> fork_manager_status option" where
  "cell_fork_manager_status c = (case c of CForkManagerStatus x \<Rightarrow> Some x | _ \<Rightarrow> None)"

definition cell_fork_manager :: "'x cell \<Rightarrow> ('x fork_manager_struct) option" where
  "cell_fork_manager c = (case c of CForkManager x \<Rightarrow> Some x | _ \<Rightarrow> None)"

definition cell_fork_managers :: "'x cell \<Rightarrow> ('x fork_manager_struct list) option" where
  "cell_fork_managers c = (case c of CForkManagers x \<Rightarrow> Some x | _ \<Rightarrow> None)"

definition cell_fork_manager_list :: "'x cell \<Rightarrow> ('x fork_manager_list_struct) option" where
  "cell_fork_manager_list c = (case c of CForkManagerList x \<Rightarrow> Some x | _ \<Rightarrow> None)"

definition cell_vsconfig_spec :: "'x cell \<Rightarrow> vsconfig_spec option" where
  "cell_vsconfig_spec c = (case c of CVSConfigSpec x \<Rightarrow> Some x | _ \<Rightarrow> None)"

definition cell_vsconfig_status :: "'x cell \<Rightarrow> vsconfig_status option" where
  "cell_vsconfig_status c = (case c of CVSConfigStatus x \<Rightarrow> Some x | _ \<Rightarrow> None)"

definition cell_vsconfig :: "'x cell \<Rightarrow> ('x vsconfig_struct) option" where
  "cell_vsconfig c = (case c of CVSConfig x \<Rightarrow> Some x | _ \<Rightarrow> None)"

definition cell_vsconfigs :: "'x cell \<Rightarrow> ('x vsconfig_struct list) option" where
  "cell_vsconfigs c = (case c of CVSConfigs x \<Rightarrow> Some x | _ \<Rightarrow> None)"

definition cell_vsconfig_list :: "'x cell \<Rightarrow> ('x vsconfig_list_struct) option" where
  "cell_vsconfig_list c = (case c of CVSConfigList x \<Rightarrow> Some x | _ \<Rightarrow> None)"

lemma cell_simps [simp]:
  "cell_foreign (CForeign x_foreign) = Some x_foreign"
  "cell_int32 (CInt32 x_int32) = Some x_int32"
  "cell_headers (CHeaders x_headers) = Some x_headers"
  "cell_strings (CStrings x_strings) = Some x_strings"
  "cell_containers (CContainers x_containers) = Some x_containers"
  "cell_pod_spec (CPodSpec x_pod_spec) = Some x_pod_spec"
  "cell_pod_template_spec (CPodTemplateSpec x_pod_template_spec) = Some x_pod_template_spec"
  "cell_fork_service (CForkService x_fork_service) = Some x_fork_service"
  "cell_fork_deployment (CForkDeployment x_fork_deployment) = Some x_fork_deployment"
  "cell_gateway_options (CGatewayOptions x_gateway_options) = Some x_gateway_options"
  "cell_fork_spec (CForkSpec x_fork_spec) = Some x_fork_spec"
  "cell_fork_status (CForkStatus x_fork_status) = Some x_fork_status"
  "cell_fork (CFork x_fork) = Some x_fork"
  "cell_forks (CForks x_forks) = Some x_forks"
  "cell_fork_list (CForkList x_fork_list) = Some x_fork_list"
  "cell_upstream (CUpstream x_upstream) = Some x_upstream"
  "cell_upstreams (CUpstreams x_upstreams) = Some x_upstreams"
  "cell_fork_manager_spec (CForkManagerSpec x_fork_manager_spec) = Some x_fork_manager_spec"
  "cell_fork_manager_status (CForkManagerStatus x_fork_manager_status) = Some x_fork_manager_status"
  "cell_fork_manager (CForkManager x_fork_manager) = Some x_fork_manager"
  "cell_fork_managers (CForkManagers x_fork_managers) = Some x_fork_managers"
  "cell_fork_manager_list (CForkManagerList x_fork_manager_list) = Some x_fork_manager_list"
  "cell_vsconfig_spec (CVSConfigSpec x_vsconfig_spec) = Some x_vsconfig_spec"
  "cell_vsconfig_status (CVSConfigStatus x_vsconfig_status) = Some x_vsconfig_status"
  "cell_vsconfig (CVSConfig x_vsconfig) = Some x_vsconfig"
  "cell_vsconfigs (CVSConfigs x_vsconfigs) = Some x_vsconfigs"
  "cell_vsconfig_list (CVSConfigList x_vsconfig_list) = Some x_vsconfig_list"
  by (simp_all add: cell_foreign_def cell_int32_def cell_headers_def cell_strings_def
      cell_containers_def cell_pod_spec_def cell_pod_template_spec_def cell_fork_service_def
          cell_fork_deployment_def
    cell_gateway_options_def cell_fork_spec_def cell_fork_status_def cell_fork_def cell_forks_def
        cell_fork_list_def cell_upstream_def cell_upstreams_def cell_fork_manager_spec_def
    cell_fork_manager_status_def cell_fork_manager_def cell_fork_managers_def cell_fork_manager_list_def
        cell_vsconfig_spec_def cell_vsconfig_status_def cell_vsconfig_def cell_vsconfigs_def
            cell_vsconfig_list_def)

section \<open>Copies of structs\<close>

text \<open>
  The copies of other packages: \<open>ObjectMeta.DeepCopyInto\<close> and so on; \<open>Time.DeepCopy\<close> takes and returns
  a pointer.
\<close>

record 'x foreign_copies =
  copy_object_meta :: "'x \<Rightarrow> ('x go_memory, 'x) eff"
  copy_list_meta :: "'x \<Rightarrow> ('x go_memory, 'x) eff"
  copy_label_selector :: "'x \<Rightarrow> ('x go_memory, 'x) eff"
  copy_container :: "'x \<Rightarrow> ('x go_memory, 'x) eff"
  copy_time :: "addr \<Rightarrow> ('x go_memory, addr) eff"

definition copy_int32 :: "addr \<Rightarrow> ('x go_memory, addr) eff" where
  "copy_int32 = new_copy CInt32 cell_int32 Zeroed (\<lambda>n. return n)"

definition pod_spec_deep_copy_into :: "'x foreign_copies \<Rightarrow> pod_spec_struct \<Rightarrow>
    ('x go_memory, pod_spec_struct) eff" where
  "pod_spec_deep_copy_into F this =
     bind_eff (copy_slice CContainers cell_containers Zeroed (copy_container F) (pss_containers this)) (\<lambda>cs.
     return (this\<lparr>pss_containers := cs\<rparr>))"

definition pod_template_spec_deep_copy_into ::
  "'x foreign_copies \<Rightarrow> pod_template_spec_struct \<Rightarrow> ('x go_memory, pod_template_spec_struct) eff" where
  "pod_template_spec_deep_copy_into F this =
     bind_eff (opt_copy (new_copy CForeign cell_foreign Zeroed (copy_object_meta F))
         (pts_object_meta this)) (\<lambda>om.
     bind_eff (pod_spec_deep_copy_into F (pts_pod_spec this)) (\<lambda>spec.
     return (this\<lparr>pts_object_meta := om, pts_pod_spec := spec\<rparr>)))"

definition fork_service_deep_copy_into ::
  "'x foreign_copies \<Rightarrow> fork_service_struct \<Rightarrow> ('x go_memory, fork_service_struct) eff" where
  "fork_service_deep_copy_into F this =
     bind_eff (opt_copy (new_copy CForeign cell_foreign Zeroed (copy_label_selector F))
         (fss_selector this)) (\<lambda>sel.
     return (this\<lparr>fss_selector := sel\<rparr>))"

definition fork_deployment_deep_copy_into ::
  "'x foreign_copies \<Rightarrow> fork_deployment_struct \<Rightarrow> ('x go_memory, fork_deployment_struct) eff" where
  "fork_deployment_deep_copy_into F this =
     bind_eff (opt_copy (new_copy CForeign cell_foreign Zeroed (copy_label_selector F))
         (fds_selector this)) (\<lambda>sel.
     bind_eff (opt_copy (new_copy CPodTemplateSpec cell_pod_template_spec Zeroed
         (pod_template_spec_deep_copy_into F))
       (fds_template this)) (\<lambda>tmpl.
     bind_eff (opt_copy copy_int32 (fds_replicas this)) (\<lambda>reps.
     return (this\<lparr>fds_selector := sel, fds_template := tmpl, fds_replicas := reps\<rparr>))))"

definition gateway_options_deep_copy_into ::
  "string order \<Rightarrow> gateway_options_struct \<Rightarrow> ('x go_memory, gateway_options_struct) eff" where
  "gateway_options_deep_copy_into ord this =
     bind_eff (opt_copy (copy_map CHeaders cell_headers ord) (gos_add_request_headers this)) (\<lambda>hs.
     bind_eff (copy_slice CStrings cell_strings Zeroed (\<lambda>s. return s) (gos_allow_upgrade this)) (\<lambda>us.
     return (this\<lparr>gos_add_request_headers := hs, gos_allow_upgrade := us\<rparr>)))"

definition fork_spec_deep_copy_into ::
  "'x foreign_copies \<Rightarrow> string order \<Rightarrow> fork_spec_struct \<Rightarrow> ('x go_memory, fork_spec_struct) eff" where
  "fork_spec_deep_copy_into F ord this =
     bind_eff (opt_copy (copy_time F) (fps_deadline this)) (\<lambda>deadline.
     bind_eff (opt_copy (new_copy CGatewayOptions cell_gateway_options Zeroed
         (gateway_options_deep_copy_into ord))
       (fps_gateway_options this)) (\<lambda>gateway.
     bind_eff (opt_copy (new_copy CForkService cell_fork_service Zeroed (fork_service_deep_copy_into F))
       (fps_services this)) (\<lambda>services.
     bind_eff (opt_copy (new_copy CForkDeployment cell_fork_deployment Zeroed
         (fork_deployment_deep_copy_into F))
       (fps_deployments this)) (\<lambda>deployments.
     return (this\<lparr>fps_deadline := deadline, fps_gateway_options := gateway, fps_services := services,
       fps_deployments := deployments\<rparr>)))))"

definition fork_status_deep_copy_into :: "fork_status \<Rightarrow> ('x go_memory, fork_status) eff" where
  "fork_status_deep_copy_into this = return this"

definition fork_deep_copy_into ::
  "'x foreign_copies \<Rightarrow> string order \<Rightarrow> 'x fork_struct \<Rightarrow> ('x go_memory, 'x fork_struct) eff" where
  "fork_deep_copy_into F ord this =
     bind_eff (copy_object_meta F (fks_meta this)) (\<lambda>om.
     bind_eff (fork_spec_deep_copy_into F ord (fks_spec this)) (\<lambda>spec.
     return (this\<lparr>fks_type := fks_type this, fks_meta := om, fks_spec := spec,
         fks_status := fks_status this\<rparr>)))"

definition fork_list_deep_copy_into ::
  "'x foreign_copies \<Rightarrow> string order \<Rightarrow> 'x fork_list_struct \<Rightarrow> ('x go_memory, 'x fork_list_struct) eff" where
  "fork_list_deep_copy_into F ord this =
     bind_eff (copy_list_meta F (fls_meta this)) (\<lambda>lm.
     bind_eff (copy_slice CForks cell_forks Zeroed (fork_deep_copy_into F ord) (fls_items this)) (\<lambda>items.
     return (this\<lparr>fls_type := fls_type this, fls_meta := lm, fls_items := items\<rparr>)))"

definition upstream_deep_copy_into :: "upstream \<Rightarrow> ('x go_memory, upstream) eff" where
  "upstream_deep_copy_into this = return this"

definition fork_manager_spec_deep_copy_into ::
  "fork_manager_spec_struct \<Rightarrow> ('x go_memory, fork_manager_spec_struct) eff" where
  "fork_manager_spec_deep_copy_into this =
     bind_eff (copy_slice CUpstreams cell_upstreams Zeroed (\<lambda>u. return u) (fmp_upstreams this)) (\<lambda>us.
     return (this\<lparr>fmp_upstreams := us\<rparr>))"

definition fork_manager_status_deep_copy_into :: "fork_manager_status \<Rightarrow>
    ('x go_memory, fork_manager_status) eff" where
  "fork_manager_status_deep_copy_into this = return this"

definition fork_manager_deep_copy_into ::
  "'x foreign_copies \<Rightarrow> 'x fork_manager_struct \<Rightarrow> ('x go_memory, 'x fork_manager_struct) eff" where
  "fork_manager_deep_copy_into F this =
     bind_eff (copy_object_meta F (fms_meta this)) (\<lambda>om.
     bind_eff (fork_manager_spec_deep_copy_into (fms_spec this)) (\<lambda>spec.
     return (this\<lparr>fms_type := fms_type this, fms_meta := om, fms_spec := spec,
         fms_status := fms_status this\<rparr>)))"

definition fork_manager_list_deep_copy_into ::
  "'x foreign_copies \<Rightarrow> 'x fork_manager_list_struct \<Rightarrow> ('x go_memory, 'x fork_manager_list_struct) eff" where
  "fork_manager_list_deep_copy_into F this =
     bind_eff (copy_list_meta F (fml_meta this)) (\<lambda>lm.
     bind_eff (copy_slice CForkManagers cell_fork_managers Zeroed (fork_manager_deep_copy_into F)
         (fml_items this)) (\<lambda>items.
     return (this\<lparr>fml_type := fml_type this, fml_meta := lm, fml_items := items\<rparr>)))"

definition vsconfig_spec_deep_copy_into :: "vsconfig_spec \<Rightarrow> ('x go_memory, vsconfig_spec) eff" where
  "vsconfig_spec_deep_copy_into this = return this"

definition vsconfig_status_deep_copy_into :: "vsconfig_status \<Rightarrow> ('x go_memory, vsconfig_status) eff" where
  "vsconfig_status_deep_copy_into this = return this"

definition vsconfig_deep_copy_into ::
  "'x foreign_copies \<Rightarrow> 'x vsconfig_struct \<Rightarrow> ('x go_memory, 'x vsconfig_struct) eff" where
  "vsconfig_deep_copy_into F this =
     bind_eff (copy_object_meta F (vcs_meta this)) (\<lambda>om.
     return (this\<lparr>vcs_type := vcs_type this, vcs_meta := om, vcs_spec := vcs_spec this,
         vcs_status := vcs_status this\<rparr>))"

definition vsconfig_list_deep_copy_into ::
  "'x foreign_copies \<Rightarrow> 'x vsconfig_list_struct \<Rightarrow> ('x go_memory, 'x vsconfig_list_struct) eff" where
  "vsconfig_list_deep_copy_into F this =
     bind_eff (copy_list_meta F (vcl_meta this)) (\<lambda>lm.
     bind_eff (copy_slice CVSConfigs cell_vsconfigs Zeroed (vsconfig_deep_copy_into F) (vcl_items this))
         (\<lambda>items.
     return (this\<lparr>vcl_type := vcl_type this, vcl_meta := lm, vcl_items := items\<rparr>)))"

section \<open>Copies behind a pointer\<close>

text \<open>\<open>DeepCopy\<close>: nil for nil, and otherwise a new struct that \<open>DeepCopyInto\<close> fills.\<close>

definition fork_deep_copy :: "'x foreign_copies \<Rightarrow> string order \<Rightarrow> pointer \<Rightarrow> ('x go_memory, pointer) eff" where
  "fork_deep_copy F ord = opt_copy (new_copy CFork cell_fork Zeroed (fork_deep_copy_into F ord))"

definition fork_deployment_deep_copy :: "'x foreign_copies \<Rightarrow> pointer \<Rightarrow> ('x go_memory, pointer) eff" where
  "fork_deployment_deep_copy F = opt_copy (new_copy CForkDeployment cell_fork_deployment Zeroed
      (fork_deployment_deep_copy_into F))"

definition fork_list_deep_copy :: "'x foreign_copies \<Rightarrow> string order \<Rightarrow> pointer \<Rightarrow>
    ('x go_memory, pointer) eff" where
  "fork_list_deep_copy F ord = opt_copy (new_copy CForkList cell_fork_list Zeroed
      (fork_list_deep_copy_into F ord))"

definition fork_manager_deep_copy :: "'x foreign_copies \<Rightarrow> pointer \<Rightarrow> ('x go_memory, pointer) eff" where
  "fork_manager_deep_copy F = opt_copy (new_copy CForkManager cell_fork_manager Zeroed
      (fork_manager_deep_copy_into F))"

definition fork_manager_list_deep_copy :: "'x foreign_copies \<Rightarrow> pointer \<Rightarrow> ('x go_memory, pointer) eff" where
  "fork_manager_list_deep_copy F = opt_copy (new_copy CForkManagerList cell_fork_manager_list Zeroed
      (fork_manager_list_deep_copy_into F))"

definition fork_manager_spec_deep_copy :: "pointer \<Rightarrow> ('x go_memory, pointer) eff" where
  "fork_manager_spec_deep_copy = opt_copy (new_copy CForkManagerSpec cell_fork_manager_spec Zeroed
      fork_manager_spec_deep_copy_into)"

definition fork_manager_status_deep_copy :: "pointer \<Rightarrow> ('x go_memory, pointer) eff" where
  "fork_manager_status_deep_copy = opt_copy (new_copy CForkManagerStatus cell_fork_manager_status Zeroed
      fork_manager_status_deep_copy_into)"

definition fork_service_deep_copy :: "'x foreign_copies \<Rightarrow> pointer \<Rightarrow> ('x go_memory, pointer) eff" where
  "fork_service_deep_copy F = opt_copy (new_copy CForkService cell_fork_service Zeroed
      (fork_service_deep_copy_into F))"

definition fork_spec_deep_copy :: "'x foreign_copies \<Rightarrow> string order \<Rightarrow> pointer \<Rightarrow>
    ('x go_memory, pointer) eff" where
  "fork_spec_deep_copy F ord = opt_copy (new_copy CForkSpec cell_fork_spec Zeroed
      (fork_spec_deep_copy_into F ord))"

definition fork_status_deep_copy :: "pointer \<Rightarrow> ('x go_memory, pointer) eff" where
  "fork_status_deep_copy = opt_copy (new_copy CForkStatus cell_fork_status Zeroed fork_status_deep_copy_into)"

definition gateway_options_deep_copy :: "string order \<Rightarrow> pointer \<Rightarrow> ('x go_memory, pointer) eff" where
  "gateway_options_deep_copy ord = opt_copy (new_copy CGatewayOptions cell_gateway_options Zeroed
      (gateway_options_deep_copy_into ord))"

definition pod_spec_deep_copy :: "'x foreign_copies \<Rightarrow> pointer \<Rightarrow> ('x go_memory, pointer) eff" where
  "pod_spec_deep_copy F = opt_copy (new_copy CPodSpec cell_pod_spec Zeroed (pod_spec_deep_copy_into F))"

definition pod_template_spec_deep_copy :: "'x foreign_copies \<Rightarrow> pointer \<Rightarrow> ('x go_memory, pointer) eff" where
  "pod_template_spec_deep_copy F = opt_copy (new_copy CPodTemplateSpec cell_pod_template_spec Zeroed
      (pod_template_spec_deep_copy_into F))"

definition upstream_deep_copy :: "pointer \<Rightarrow> ('x go_memory, pointer) eff" where
  "upstream_deep_copy = opt_copy (new_copy CUpstream cell_upstream Zeroed upstream_deep_copy_into)"

definition vsconfig_deep_copy :: "'x foreign_copies \<Rightarrow> pointer \<Rightarrow> ('x go_memory, pointer) eff" where
  "vsconfig_deep_copy F = opt_copy (new_copy CVSConfig cell_vsconfig Zeroed (vsconfig_deep_copy_into F))"

definition vsconfig_list_deep_copy :: "'x foreign_copies \<Rightarrow> pointer \<Rightarrow> ('x go_memory, pointer) eff" where
  "vsconfig_list_deep_copy F = opt_copy (new_copy CVSConfigList cell_vsconfig_list Zeroed
      (vsconfig_list_deep_copy_into F))"

definition vsconfig_spec_deep_copy :: "pointer \<Rightarrow> ('x go_memory, pointer) eff" where
  "vsconfig_spec_deep_copy = opt_copy (new_copy CVSConfigSpec cell_vsconfig_spec Zeroed
      vsconfig_spec_deep_copy_into)"

definition vsconfig_status_deep_copy :: "pointer \<Rightarrow> ('x go_memory, pointer) eff" where
  "vsconfig_status_deep_copy = opt_copy (new_copy CVSConfigStatus cell_vsconfig_status Zeroed
      vsconfig_status_deep_copy_into)"

section \<open>Copies behind an interface\<close>

text \<open>
  A \<open>runtime.Object\<close> is an interface: a type and a pointer, which may be nil. \<open>DeepCopyObject\<close> returns
  the nil interface for a nil pointer, not an interface that holds one.
\<close>

datatype runtime_object =
    ForkObject pointer
  | ForkListObject pointer
  | ForkManagerObject pointer
  | ForkManagerListObject pointer
  | VSConfigObject pointer
  | VSConfigListObject pointer

definition as_object :: "(pointer \<Rightarrow> runtime_object) \<Rightarrow> ('x go_memory, pointer) eff \<Rightarrow>
    ('x go_memory, runtime_object option) eff" where
  "as_object wrap copy = bind_eff copy (\<lambda>c. if c \<noteq> None then return (Some (wrap c)) else return None)"

definition fork_deep_copy_object :: "'x foreign_copies \<Rightarrow> string order \<Rightarrow> pointer \<Rightarrow>
    ('x go_memory, runtime_object option) eff" where
  "fork_deep_copy_object F ord p = as_object ForkObject (fork_deep_copy F ord p)"

definition fork_list_deep_copy_object :: "'x foreign_copies \<Rightarrow> string order \<Rightarrow> pointer \<Rightarrow>
    ('x go_memory, runtime_object option) eff" where
  "fork_list_deep_copy_object F ord p = as_object ForkListObject (fork_list_deep_copy F ord p)"

definition fork_manager_deep_copy_object :: "'x foreign_copies \<Rightarrow> pointer \<Rightarrow>
    ('x go_memory, runtime_object option) eff" where
  "fork_manager_deep_copy_object F p = as_object ForkManagerObject (fork_manager_deep_copy F p)"

definition fork_manager_list_deep_copy_object :: "'x foreign_copies \<Rightarrow> pointer \<Rightarrow>
    ('x go_memory, runtime_object option) eff" where
  "fork_manager_list_deep_copy_object F p = as_object ForkManagerListObject (fork_manager_list_deep_copy F p)"

definition vsconfig_deep_copy_object :: "'x foreign_copies \<Rightarrow> pointer \<Rightarrow>
    ('x go_memory, runtime_object option) eff" where
  "vsconfig_deep_copy_object F p = as_object VSConfigObject (vsconfig_deep_copy F p)"

definition vsconfig_list_deep_copy_object :: "'x foreign_copies \<Rightarrow> pointer \<Rightarrow>
    ('x go_memory, runtime_object option) eff" where
  "vsconfig_list_deep_copy_object F p = as_object VSConfigListObject (vsconfig_list_deep_copy F p)"

text \<open>The method call: the type in the interface picks the function.\<close>

fun deep_copy_object ::
  "'x foreign_copies \<Rightarrow> string order \<Rightarrow> runtime_object \<Rightarrow> ('x go_memory, runtime_object option) eff" where
  "deep_copy_object F ord (ForkObject p) = fork_deep_copy_object F ord p"
| "deep_copy_object F ord (ForkListObject p) = fork_list_deep_copy_object F ord p"
| "deep_copy_object F ord (ForkManagerObject p) = fork_manager_deep_copy_object F p"
| "deep_copy_object F ord (ForkManagerListObject p) = fork_manager_list_deep_copy_object F p"
| "deep_copy_object F ord (VSConfigObject p) = vsconfig_deep_copy_object F p"
| "deep_copy_object F ord (VSConfigListObject p) = vsconfig_list_deep_copy_object F p"

end
