(* ===== verification/DeepCopyFacts.thy ===== *)
theory DeepCopyFacts
  imports DeepCopy
begin

text \<open>
  What the structs of DeepCopy stand for, in the types of ApiTypes that the rest of the model
  computes with, and that every generated copy is one (\<open>copyable\<close>), given that those of other
  packages are (\<open>foreign_deep_copies\<close>).
\<close>

section \<open>Values\<close>

record list_meta =
  lm_resource_version :: string
  lm_continue :: string

record fork_list =
  fl_type :: gvk
  fl_meta :: list_meta
  fl_items :: "fork list"

record fork_manager_list =
  fmlv_type :: gvk
  fmlv_meta :: list_meta
  fmlv_items :: "fork_manager list"

record vsconfig_list =
  vl_type :: gvk
  vl_meta :: list_meta
  vl_items :: "vsconfig list"

datatype object_value =
    ForkValue fork
  | ForkListValue fork_list
  | ForkManagerValue fork_manager
  | ForkManagerListValue fork_manager_list
  | VSConfigValue vsconfig
  | VSConfigListValue vsconfig_list

text \<open>The values and footprints of the structs of other packages.\<close>

record 'x foreign_views =
  view_object_meta :: "'x go_memory \<Rightarrow> 'x \<Rightarrow> object_meta option"
  reach_object_meta :: "'x go_memory \<Rightarrow> 'x \<Rightarrow> addr set"
  view_list_meta :: "'x go_memory \<Rightarrow> 'x \<Rightarrow> list_meta option"
  reach_list_meta :: "'x go_memory \<Rightarrow> 'x \<Rightarrow> addr set"
  view_label_selector :: "'x go_memory \<Rightarrow> 'x \<Rightarrow> label_selector option"
  reach_label_selector :: "'x go_memory \<Rightarrow> 'x \<Rightarrow> addr set"
  view_container :: "'x go_memory \<Rightarrow> 'x \<Rightarrow> container option"
  reach_container :: "'x go_memory \<Rightarrow> 'x \<Rightarrow> addr set"
  view_time :: "'x go_memory \<Rightarrow> addr \<Rightarrow> time option"
  reach_time :: "'x go_memory \<Rightarrow> addr \<Rightarrow> addr set"

definition pod_spec_view ::
  "'x foreign_views \<Rightarrow> 'x go_memory \<Rightarrow> pod_spec_struct \<Rightarrow> pod_spec option" where
  "pod_spec_view V = struct_view (pss_containers)
    (\<lambda>s cs. \<lparr>ps_containers = cs, ps_hostname = pss_hostname s\<rparr>)
    (slice_view cell_containers (view_container V))"

definition pod_spec_reach ::
  "'x foreign_views \<Rightarrow> 'x go_memory \<Rightarrow> pod_spec_struct \<Rightarrow> addr set" where
  "pod_spec_reach V = struct_reach (pss_containers)
    (slice_reach cell_containers (reach_container V))"

definition pod_template_spec_view ::
  "'x foreign_views \<Rightarrow> 'x go_memory \<Rightarrow> pod_template_spec_struct \<Rightarrow> pod_template_spec option" where
  "pod_template_spec_view V = struct_view (\<lambda>s. (pts_object_meta s, pts_pod_spec s))
    (\<lambda>s (om, spec). \<lparr>pts_metadata = om, pts_spec = spec\<rparr>)
    (pair_view (opt_view (cell_view cell_foreign (view_object_meta V))) (pod_spec_view V))"

definition pod_template_spec_reach ::
  "'x foreign_views \<Rightarrow> 'x go_memory \<Rightarrow> pod_template_spec_struct \<Rightarrow> addr set" where
  "pod_template_spec_reach V = struct_reach (\<lambda>s. (pts_object_meta s, pts_pod_spec s))
    (pair_reach (opt_reach (cell_reach cell_foreign (reach_object_meta V))) (pod_spec_reach V))"

definition fork_service_view ::
  "'x foreign_views \<Rightarrow> 'x go_memory \<Rightarrow> fork_service_struct \<Rightarrow> fork_service option" where
  "fork_service_view V = struct_view (fss_selector)
    (\<lambda>s sel. \<lparr>fs_selector = sel\<rparr>)
    (opt_view (cell_view cell_foreign (view_label_selector V)))"

definition fork_service_reach ::
  "'x foreign_views \<Rightarrow> 'x go_memory \<Rightarrow> fork_service_struct \<Rightarrow> addr set" where
  "fork_service_reach V = struct_reach (fss_selector)
    (opt_reach (cell_reach cell_foreign (reach_label_selector V)))"

definition fork_deployment_view ::
  "'x foreign_views \<Rightarrow> 'x go_memory \<Rightarrow> fork_deployment_struct \<Rightarrow> fork_deployment option" where
  "fork_deployment_view V = struct_view (\<lambda>s. (fds_selector s, fds_template s, fds_replicas s))
    (\<lambda>s (sel, tmpl, reps). \<lparr>fd_selector = sel, fd_template = tmpl, fd_replicas = reps\<rparr>)
    (pair_view (opt_view (cell_view cell_foreign (view_label_selector V)))
      (pair_view (opt_view (cell_view cell_pod_template_spec (pod_template_spec_view V)))
          (opt_view (cell_view cell_int32 (\<lambda>_. Some)))))"

definition fork_deployment_reach ::
  "'x foreign_views \<Rightarrow> 'x go_memory \<Rightarrow> fork_deployment_struct \<Rightarrow> addr set" where
  "fork_deployment_reach V = struct_reach (\<lambda>s. (fds_selector s, fds_template s, fds_replicas s))
    (pair_reach (opt_reach (cell_reach cell_foreign (reach_label_selector V)))
      (pair_reach (opt_reach (cell_reach cell_pod_template_spec (pod_template_spec_reach V)))
          (opt_reach (cell_reach cell_int32 (\<lambda>_ _. {})))))"

definition gateway_options_view ::
  "'x go_memory \<Rightarrow> gateway_options_struct \<Rightarrow> gateway_options option" where
  "gateway_options_view = struct_view (\<lambda>s. (gos_add_request_headers s, gos_allow_upgrade s))
    (\<lambda>s (hs, us). \<lparr>go_add_request_headers = (case hs of None \<Rightarrow> fmempty | Some m \<Rightarrow> m), go_allow_upgrade = us\<rparr>)
    (pair_view (opt_view (cell_view cell_headers (\<lambda>_. Some))) (slice_view cell_strings (\<lambda>_. Some)))"

definition gateway_options_reach :: "'x go_memory \<Rightarrow> gateway_options_struct \<Rightarrow> addr set" where
  "gateway_options_reach = struct_reach (\<lambda>s. (gos_add_request_headers s, gos_allow_upgrade s))
    (pair_reach (opt_reach (cell_reach cell_headers (\<lambda>_ _. {}))) (slice_reach cell_strings (\<lambda>_ _. {})))"

definition fork_spec_view ::
  "'x foreign_views \<Rightarrow> 'x go_memory \<Rightarrow> fork_spec_struct \<Rightarrow> fork_spec option" where
  "fork_spec_view V = struct_view (\<lambda>s. (fps_deadline s, fps_gateway_options s, fps_services s,
      fps_deployments s))
    (\<lambda>s (d, g, ss, ds).
       \<lparr>spec_manager = fps_manager s, spec_identifier = fps_identifier s, spec_deadline = d,
        spec_gateway_options = g, spec_services = ss, spec_deployments = ds\<rparr>)
    (pair_view (opt_view (view_time V))
      (pair_view (opt_view (cell_view cell_gateway_options gateway_options_view))
      (pair_view (opt_view (cell_view cell_fork_service (fork_service_view V)))
          (opt_view (cell_view cell_fork_deployment (fork_deployment_view V))))))"

definition fork_spec_reach ::
  "'x foreign_views \<Rightarrow> 'x go_memory \<Rightarrow> fork_spec_struct \<Rightarrow> addr set" where
  "fork_spec_reach V = struct_reach (\<lambda>s. (fps_deadline s, fps_gateway_options s, fps_services s,
      fps_deployments s))
    (pair_reach (opt_reach (reach_time V))
      (pair_reach (opt_reach (cell_reach cell_gateway_options gateway_options_reach))
      (pair_reach (opt_reach (cell_reach cell_fork_service (fork_service_reach V)))
          (opt_reach (cell_reach cell_fork_deployment (fork_deployment_reach V))))))"

definition fork_view ::
  "'x foreign_views \<Rightarrow> 'x go_memory \<Rightarrow> 'x fork_struct \<Rightarrow> fork option" where
  "fork_view V = struct_view (\<lambda>s. (fks_meta s, fks_spec s))
    (\<lambda>s (om, spec). \<lparr>fork_type = fks_type s, fork_meta = om, fork_spec = spec\<rparr>)
    (pair_view (view_object_meta V) (fork_spec_view V))"

definition fork_reach ::
  "'x foreign_views \<Rightarrow> 'x go_memory \<Rightarrow> 'x fork_struct \<Rightarrow> addr set" where
  "fork_reach V = struct_reach (\<lambda>s. (fks_meta s, fks_spec s))
    (pair_reach (reach_object_meta V) (fork_spec_reach V))"

definition fork_list_view ::
  "'x foreign_views \<Rightarrow> 'x go_memory \<Rightarrow> 'x fork_list_struct \<Rightarrow> fork_list option" where
  "fork_list_view V = struct_view (\<lambda>s. (fls_meta s, fls_items s))
    (\<lambda>s (lm, items). \<lparr>fl_type = fls_type s, fl_meta = lm, fl_items = items\<rparr>)
    (pair_view (view_list_meta V) (slice_view cell_forks (fork_view V)))"

definition fork_list_reach ::
  "'x foreign_views \<Rightarrow> 'x go_memory \<Rightarrow> 'x fork_list_struct \<Rightarrow> addr set" where
  "fork_list_reach V = struct_reach (\<lambda>s. (fls_meta s, fls_items s))
    (pair_reach (reach_list_meta V) (slice_reach cell_forks (fork_reach V)))"

definition fork_manager_spec_view ::
  "'x go_memory \<Rightarrow> fork_manager_spec_struct \<Rightarrow> fork_manager_spec option" where
  "fork_manager_spec_view = struct_view (fmp_upstreams)
    (\<lambda>s us. \<lparr>fm_ambassador_id = fmp_ambassador_id s, fm_header_key = fmp_header_key s, fm_upstreams = us\<rparr>)
    (slice_view cell_upstreams (\<lambda>_. Some))"

definition fork_manager_spec_reach ::
  "'x go_memory \<Rightarrow> fork_manager_spec_struct \<Rightarrow> addr set" where
  "fork_manager_spec_reach = struct_reach (fmp_upstreams)
    (slice_reach cell_upstreams (\<lambda>_ _. {}))"

definition fork_manager_view ::
  "'x foreign_views \<Rightarrow> 'x go_memory \<Rightarrow> 'x fork_manager_struct \<Rightarrow> fork_manager option" where
  "fork_manager_view V = struct_view (\<lambda>s. (fms_meta s, fms_spec s))
    (\<lambda>s (om, spec). \<lparr>fm_type = fms_type s, fm_meta = om, fm_spec = spec\<rparr>)
    (pair_view (view_object_meta V) (fork_manager_spec_view))"

definition fork_manager_reach ::
  "'x foreign_views \<Rightarrow> 'x go_memory \<Rightarrow> 'x fork_manager_struct \<Rightarrow> addr set" where
  "fork_manager_reach V = struct_reach (\<lambda>s. (fms_meta s, fms_spec s))
    (pair_reach (reach_object_meta V) (fork_manager_spec_reach))"

definition fork_manager_list_view ::
  "'x foreign_views \<Rightarrow> 'x go_memory \<Rightarrow> 'x fork_manager_list_struct \<Rightarrow> fork_manager_list option" where
  "fork_manager_list_view V = struct_view (\<lambda>s. (fml_meta s, fml_items s))
    (\<lambda>s (lm, items). \<lparr>fmlv_type = fml_type s, fmlv_meta = lm, fmlv_items = items\<rparr>)
    (pair_view (view_list_meta V) (slice_view cell_fork_managers (fork_manager_view V)))"

definition fork_manager_list_reach ::
  "'x foreign_views \<Rightarrow> 'x go_memory \<Rightarrow> 'x fork_manager_list_struct \<Rightarrow> addr set" where
  "fork_manager_list_reach V = struct_reach (\<lambda>s. (fml_meta s, fml_items s))
    (pair_reach (reach_list_meta V) (slice_reach cell_fork_managers (fork_manager_reach V)))"

definition vsconfig_view ::
  "'x foreign_views \<Rightarrow> 'x go_memory \<Rightarrow> 'x vsconfig_struct \<Rightarrow> vsconfig option" where
  "vsconfig_view V = struct_view (vcs_meta)
    (\<lambda>s om. \<lparr>vsc_type = vcs_type s, vsc_meta = om, vsc_spec = vcs_spec s\<rparr>)
    (view_object_meta V)"

definition vsconfig_reach ::
  "'x foreign_views \<Rightarrow> 'x go_memory \<Rightarrow> 'x vsconfig_struct \<Rightarrow> addr set" where
  "vsconfig_reach V = struct_reach (vcs_meta)
    (reach_object_meta V)"

definition vsconfig_list_view ::
  "'x foreign_views \<Rightarrow> 'x go_memory \<Rightarrow> 'x vsconfig_list_struct \<Rightarrow> vsconfig_list option" where
  "vsconfig_list_view V = struct_view (\<lambda>s. (vcl_meta s, vcl_items s))
    (\<lambda>s (lm, items). \<lparr>vl_type = vcl_type s, vl_meta = lm, vl_items = items\<rparr>)
    (pair_view (view_list_meta V) (slice_view cell_vsconfigs (vsconfig_view V)))"

definition vsconfig_list_reach ::
  "'x foreign_views \<Rightarrow> 'x go_memory \<Rightarrow> 'x vsconfig_list_struct \<Rightarrow> addr set" where
  "vsconfig_list_reach V = struct_reach (\<lambda>s. (vcl_meta s, vcl_items s))
    (pair_reach (reach_list_meta V) (slice_reach cell_vsconfigs (vsconfig_reach V)))"

section \<open>The structs of the program are copyable\<close>

lemma copy_int32_copyable:
    "copyable (cell_view cell_int32 (\<lambda>_. Some)) (cell_reach cell_int32 (\<lambda>_ _. {})) copy_int32"
  unfolding copy_int32_def by (rule copyable_cell [OF copyable_plain]) simp

text \<open>The documented behaviour of the deep copies of other packages.\<close>

locale foreign_deep_copies =
  fixes F :: "'x foreign_copies" and V :: "'x foreign_views"
  assumes object_meta_copyable: "copyable (view_object_meta V) (reach_object_meta V) (copy_object_meta F)"
    and list_meta_copyable: "copyable (view_list_meta V) (reach_list_meta V) (copy_list_meta F)"
    and label_selector_copyable: "copyable (view_label_selector V) (reach_label_selector V)
        (copy_label_selector F)"
    and container_copyable: "copyable (view_container V) (reach_container V) (copy_container F)"
    and time_copyable: "copyable (view_time V) (reach_time V) (copy_time F)"

text \<open>Copies of the fields of a struct, one after the other.\<close>

lemmas copyable_intros = copyable_plain copyable_pair copyable_opt copyable_slice copyable_cell
    copyable_map copy_int32_copyable
  foreign_deep_copies.object_meta_copyable foreign_deep_copies.list_meta_copyable
      foreign_deep_copies.label_selector_copyable
  foreign_deep_copies.container_copyable foreign_deep_copies.time_copyable

lemma pod_spec_copyable:
  assumes "foreign_deep_copies F V"
  shows "copyable (pod_spec_view V) (pod_spec_reach V) (pod_spec_deep_copy_into F)"
  unfolding pod_spec_view_def pod_spec_reach_def
  by (rule copyable_struct [where put = "\<lambda>t s. s\<lparr>pss_containers := t\<rparr>"
      and copy = "copy_slice CContainers cell_containers Zeroed (copy_container F)"],
    (rule copyable_intros  assms cell_simps)+)
    (simp_all add: pod_spec_deep_copy_into_def pair_copy_def bind_eff_assoc del: lift_result_simps)

lemma pod_template_spec_copyable:
  assumes "foreign_deep_copies F V"
  shows "copyable (pod_template_spec_view V) (pod_template_spec_reach V) (pod_template_spec_deep_copy_into F)"
  unfolding pod_template_spec_view_def pod_template_spec_reach_def
  by (rule copyable_struct [where put = "\<lambda>t s. s\<lparr>pts_object_meta := fst t, pts_pod_spec := snd t\<rparr>"
      and copy = "pair_copy (opt_copy (new_copy CForeign cell_foreign Zeroed (copy_object_meta F)))
          (pod_spec_deep_copy_into F)"],
    (rule copyable_intros pod_spec_copyable assms cell_simps)+)
    (simp_all add: pod_template_spec_deep_copy_into_def pair_copy_def bind_eff_assoc del: lift_result_simps)

lemma fork_service_copyable:
  assumes "foreign_deep_copies F V"
  shows "copyable (fork_service_view V) (fork_service_reach V) (fork_service_deep_copy_into F)"
  unfolding fork_service_view_def fork_service_reach_def
  by (rule copyable_struct [where put = "\<lambda>t s. s\<lparr>fss_selector := t\<rparr>"
      and copy = "opt_copy (new_copy CForeign cell_foreign Zeroed (copy_label_selector F))"],
    (rule copyable_intros  assms cell_simps)+)
    (simp_all add: fork_service_deep_copy_into_def pair_copy_def bind_eff_assoc del: lift_result_simps)

lemma fork_deployment_copyable:
  assumes "foreign_deep_copies F V"
  shows "copyable (fork_deployment_view V) (fork_deployment_reach V) (fork_deployment_deep_copy_into F)"
  unfolding fork_deployment_view_def fork_deployment_reach_def
  by (rule copyable_struct [where put = "\<lambda>t s. s\<lparr>fds_selector := fst t, fds_template := fst (snd t),
      fds_replicas := snd (snd t)\<rparr>"
      and copy = "pair_copy (opt_copy (new_copy CForeign cell_foreign Zeroed (copy_label_selector F)))
          (pair_copy (opt_copy (new_copy CPodTemplateSpec cell_pod_template_spec Zeroed
          (pod_template_spec_deep_copy_into F))) (opt_copy copy_int32))"],
    (rule copyable_intros pod_template_spec_copyable assms cell_simps)+)
    (simp_all add: fork_deployment_deep_copy_into_def pair_copy_def bind_eff_assoc del: lift_result_simps)

lemma gateway_options_copyable:
  assumes "range_order ord"
  shows "copyable (gateway_options_view) (gateway_options_reach) (gateway_options_deep_copy_into ord)"
  unfolding gateway_options_view_def gateway_options_reach_def
  by (rule copyable_struct [where put = "\<lambda>t s. s\<lparr>gos_add_request_headers := fst t, gos_allow_upgrade := snd t\<rparr>"
      and copy = "pair_copy (opt_copy (copy_map CHeaders cell_headers ord))
          (copy_slice CStrings cell_strings Zeroed (\<lambda>s. return s))"],
    (rule copyable_intros  assms cell_simps)+)
    (simp_all add: gateway_options_deep_copy_into_def pair_copy_def bind_eff_assoc del: lift_result_simps)

lemma fork_spec_copyable:
  assumes "foreign_deep_copies F V" and "range_order ord"
  shows "copyable (fork_spec_view V) (fork_spec_reach V) (fork_spec_deep_copy_into F ord)"
  unfolding fork_spec_view_def fork_spec_reach_def
  by (rule copyable_struct [where put =
      "\<lambda>t s. s\<lparr>fps_deadline := fst t, fps_gateway_options := fst (snd t),
      fps_services := fst (snd (snd t)), fps_deployments := snd (snd (snd t))\<rparr>"
      and copy = "pair_copy (opt_copy (copy_time F))
          (pair_copy (opt_copy (new_copy CGatewayOptions cell_gateway_options Zeroed
          (gateway_options_deep_copy_into ord)))
          (pair_copy (opt_copy (new_copy CForkService cell_fork_service Zeroed
          (fork_service_deep_copy_into F))) (opt_copy (new_copy CForkDeployment cell_fork_deployment
          Zeroed (fork_deployment_deep_copy_into F)))))"],
    (rule copyable_intros gateway_options_copyable fork_service_copyable fork_deployment_copyable assms
        cell_simps)+)
    (simp_all add: fork_spec_deep_copy_into_def pair_copy_def bind_eff_assoc del: lift_result_simps)

lemma fork_copyable:
  assumes "foreign_deep_copies F V" and "range_order ord"
  shows "copyable (fork_view V) (fork_reach V) (fork_deep_copy_into F ord)"
  unfolding fork_view_def fork_reach_def
  by (rule copyable_struct [where put = "\<lambda>t s. s\<lparr>fks_meta := fst t, fks_spec := snd t\<rparr>"
      and copy = "pair_copy (copy_object_meta F) (fork_spec_deep_copy_into F ord)"],
    (rule copyable_intros fork_spec_copyable assms cell_simps)+)
    (simp_all add: fork_deep_copy_into_def pair_copy_def bind_eff_assoc del: lift_result_simps)

lemma fork_list_copyable:
  assumes "foreign_deep_copies F V" and "range_order ord"
  shows "copyable (fork_list_view V) (fork_list_reach V) (fork_list_deep_copy_into F ord)"
  unfolding fork_list_view_def fork_list_reach_def
  by (rule copyable_struct [where put = "\<lambda>t s. s\<lparr>fls_meta := fst t, fls_items := snd t\<rparr>"
      and copy = "pair_copy (copy_list_meta F) (copy_slice CForks cell_forks Zeroed
          (fork_deep_copy_into F ord))"],
    (rule copyable_intros fork_copyable assms cell_simps)+)
    (simp_all add: fork_list_deep_copy_into_def pair_copy_def bind_eff_assoc del: lift_result_simps)

lemma fork_manager_spec_copyable:
  "copyable (fork_manager_spec_view) (fork_manager_spec_reach) (fork_manager_spec_deep_copy_into)"
  unfolding fork_manager_spec_view_def fork_manager_spec_reach_def
  by (rule copyable_struct [where put = "\<lambda>t s. s\<lparr>fmp_upstreams := t\<rparr>"
      and copy = "copy_slice CUpstreams cell_upstreams Zeroed (\<lambda>u. return u)"],
    (rule copyable_intros  cell_simps)+)
    (simp_all add: fork_manager_spec_deep_copy_into_def pair_copy_def bind_eff_assoc del: lift_result_simps)

lemma fork_manager_copyable:
  assumes "foreign_deep_copies F V"
  shows "copyable (fork_manager_view V) (fork_manager_reach V) (fork_manager_deep_copy_into F)"
  unfolding fork_manager_view_def fork_manager_reach_def
  by (rule copyable_struct [where put = "\<lambda>t s. s\<lparr>fms_meta := fst t, fms_spec := snd t\<rparr>"
      and copy = "pair_copy (copy_object_meta F) (fork_manager_spec_deep_copy_into)"],
    (rule copyable_intros fork_manager_spec_copyable assms cell_simps)+)
    (simp_all add: fork_manager_deep_copy_into_def pair_copy_def bind_eff_assoc del: lift_result_simps)

lemma fork_manager_list_copyable:
  assumes "foreign_deep_copies F V"
  shows "copyable (fork_manager_list_view V) (fork_manager_list_reach V) (fork_manager_list_deep_copy_into F)"
  unfolding fork_manager_list_view_def fork_manager_list_reach_def
  by (rule copyable_struct [where put = "\<lambda>t s. s\<lparr>fml_meta := fst t, fml_items := snd t\<rparr>"
      and copy = "pair_copy (copy_list_meta F) (copy_slice CForkManagers cell_fork_managers Zeroed
          (fork_manager_deep_copy_into F))"],
    (rule copyable_intros fork_manager_copyable assms cell_simps)+)
    (simp_all add: fork_manager_list_deep_copy_into_def pair_copy_def bind_eff_assoc del: lift_result_simps)

lemma vsconfig_copyable:
  assumes "foreign_deep_copies F V"
  shows "copyable (vsconfig_view V) (vsconfig_reach V) (vsconfig_deep_copy_into F)"
  unfolding vsconfig_view_def vsconfig_reach_def
  by (rule copyable_struct [where put = "\<lambda>t s. s\<lparr>vcs_meta := t\<rparr>"
      and copy = "copy_object_meta F"],
    (rule copyable_intros  assms cell_simps)+)
    (simp_all add: vsconfig_deep_copy_into_def pair_copy_def bind_eff_assoc del: lift_result_simps)

lemma vsconfig_list_copyable:
  assumes "foreign_deep_copies F V"
  shows "copyable (vsconfig_list_view V) (vsconfig_list_reach V) (vsconfig_list_deep_copy_into F)"
  unfolding vsconfig_list_view_def vsconfig_list_reach_def
  by (rule copyable_struct [where put = "\<lambda>t s. s\<lparr>vcl_meta := fst t, vcl_items := snd t\<rparr>"
      and copy = "pair_copy (copy_list_meta F) (copy_slice CVSConfigs cell_vsconfigs Zeroed
          (vsconfig_deep_copy_into F))"],
    (rule copyable_intros vsconfig_copyable assms cell_simps)+)
    (simp_all add: vsconfig_list_deep_copy_into_def pair_copy_def bind_eff_assoc del: lift_result_simps)

text \<open>The laws of other packages give those of the program's types.\<close>

sublocale foreign_deep_copies \<subseteq> pod_template_spec:
  copyable "pod_template_spec_view V" "pod_template_spec_reach V" "pod_template_spec_deep_copy_into F"
  by (rule pod_template_spec_copyable) unfold_locales

sublocale foreign_deep_copies \<subseteq> fork_service: copyable "fork_service_view V" "fork_service_reach V"
    "fork_service_deep_copy_into F"
  by (rule fork_service_copyable) unfold_locales

sublocale foreign_deep_copies \<subseteq> fork_deployment:
  copyable "fork_deployment_view V" "fork_deployment_reach V" "fork_deployment_deep_copy_into F"
  by (rule fork_deployment_copyable) unfold_locales

sublocale foreign_deep_copies \<subseteq> fork_manager: copyable "fork_manager_view V" "fork_manager_reach V"
    "fork_manager_deep_copy_into F"
  by (rule fork_manager_copyable) unfold_locales

sublocale foreign_deep_copies \<subseteq> vsconfig: copyable "vsconfig_view V" "vsconfig_reach V"
    "vsconfig_deep_copy_into F"
  by (rule vsconfig_copyable) unfold_locales

interpretation manager_spec: copyable fork_manager_spec_view fork_manager_spec_reach
    fork_manager_spec_deep_copy_into
  by (rule fork_manager_spec_copyable)

section \<open>Every pointer to a struct is copied\<close>

text \<open>The \<open>DeepCopy\<close> of the parts of an object; those of the objects are in the next section.\<close>

lemma part_deep_copies:
  assumes "foreign_deep_copies F V" "range_order ord"
  shows "copyable (opt_view (cell_view cell_pod_spec (pod_spec_view V)))
      (opt_reach (cell_reach cell_pod_spec (pod_spec_reach V))) (pod_spec_deep_copy F)"
    "copyable (opt_view (cell_view cell_pod_template_spec (pod_template_spec_view V)))
      (opt_reach (cell_reach cell_pod_template_spec (pod_template_spec_reach V)))
          (pod_template_spec_deep_copy F)"
    "copyable (opt_view (cell_view cell_fork_service (fork_service_view V)))
      (opt_reach (cell_reach cell_fork_service (fork_service_reach V))) (fork_service_deep_copy F)"
    "copyable (opt_view (cell_view cell_fork_deployment (fork_deployment_view V)))
      (opt_reach (cell_reach cell_fork_deployment (fork_deployment_reach V))) (fork_deployment_deep_copy F)"
    "copyable (opt_view (cell_view cell_gateway_options gateway_options_view))
      (opt_reach (cell_reach cell_gateway_options gateway_options_reach)) (gateway_options_deep_copy ord)"
    "copyable (opt_view (cell_view cell_fork_spec (fork_spec_view V)))
      (opt_reach (cell_reach cell_fork_spec (fork_spec_reach V))) (fork_spec_deep_copy F ord)"
    "copyable (opt_view (cell_view cell_fork_manager_spec fork_manager_spec_view))
      (opt_reach (cell_reach cell_fork_manager_spec fork_manager_spec_reach)) fork_manager_spec_deep_copy"
  unfolding pod_spec_deep_copy_def pod_template_spec_deep_copy_def fork_service_deep_copy_def
      fork_deployment_deep_copy_def
    gateway_options_deep_copy_def fork_spec_deep_copy_def fork_manager_spec_deep_copy_def
  by (rule copyable_opt, rule copyable_cell,
      rule pod_spec_copyable pod_template_spec_copyable fork_service_copyable fork_deployment_copyable
        gateway_options_copyable fork_spec_copyable fork_manager_spec_copyable, (rule assms)?,
            (rule assms)?, simp)+

lemma flat_deep_copies:
  "copyable (opt_view (cell_view cell_upstream (\<lambda>_. Some)))
      (opt_reach (cell_reach cell_upstream (\<lambda>_ _. {}))) upstream_deep_copy"
  "copyable (opt_view (cell_view cell_vsconfig_spec (\<lambda>_. Some)))
    (opt_reach (cell_reach cell_vsconfig_spec (\<lambda>_ _. {}))) vsconfig_spec_deep_copy"
  "copyable (opt_view (cell_view cell_fork_status (\<lambda>_. Some)))
    (opt_reach (cell_reach cell_fork_status (\<lambda>_ _. {}))) fork_status_deep_copy"
  "copyable (opt_view (cell_view cell_fork_manager_status (\<lambda>_. Some)))
    (opt_reach (cell_reach cell_fork_manager_status (\<lambda>_ _. {}))) fork_manager_status_deep_copy"
  "copyable (opt_view (cell_view cell_vsconfig_status (\<lambda>_. Some)))
    (opt_reach (cell_reach cell_vsconfig_status (\<lambda>_ _. {}))) vsconfig_status_deep_copy"
  unfolding upstream_deep_copy_def vsconfig_spec_deep_copy_def fork_status_deep_copy_def
      fork_manager_status_deep_copy_def
    vsconfig_status_deep_copy_def upstream_deep_copy_into_def vsconfig_spec_deep_copy_into_def
        fork_status_deep_copy_into_def
    fork_manager_status_deep_copy_into_def vsconfig_status_deep_copy_into_def
  by (rule copyable_opt, rule copyable_cell, rule copyable_plain, simp)+

section \<open>Objects\<close>

fun object_pointer :: "runtime_object \<Rightarrow> pointer" where
  "object_pointer (ForkObject p) = p"
| "object_pointer (ForkListObject p) = p"
| "object_pointer (ForkManagerObject p) = p"
| "object_pointer (ForkManagerListObject p) = p"
| "object_pointer (VSConfigObject p) = p"
| "object_pointer (VSConfigListObject p) = p"

definition value_at ::
  "('v \<Rightarrow> object_value) \<Rightarrow> ('x go_memory \<Rightarrow> addr \<Rightarrow> 'v option) \<Rightarrow> 'x go_memory \<Rightarrow> pointer \<Rightarrow> object_value option" where
  "value_at mk view m p = Option.bind p (\<lambda>a. map_option mk (view m a))"

text \<open>The value of an object, which a nil pointer does not have.\<close>

fun object_view :: "'x foreign_views \<Rightarrow> 'x go_memory \<Rightarrow> runtime_object \<Rightarrow> object_value option" where
  "object_view V m (ForkObject p) = value_at ForkValue (cell_view cell_fork (fork_view V)) m p"
| "object_view V m (ForkListObject p) = value_at ForkListValue (cell_view cell_fork_list
    (fork_list_view V)) m p"
| "object_view V m (ForkManagerObject p) = value_at ForkManagerValue (cell_view cell_fork_manager
    (fork_manager_view V)) m p"
| "object_view V m (ForkManagerListObject p) =
     value_at ForkManagerListValue (cell_view cell_fork_manager_list (fork_manager_list_view V)) m p"
| "object_view V m (VSConfigObject p) = value_at VSConfigValue (cell_view cell_vsconfig (vsconfig_view V)) m p"
| "object_view V m (VSConfigListObject p) = value_at VSConfigListValue (cell_view cell_vsconfig_list
    (vsconfig_list_view V)) m p"

fun object_reach :: "'x foreign_views \<Rightarrow> 'x go_memory \<Rightarrow> runtime_object \<Rightarrow> addr set" where
  "object_reach V m (ForkObject p) = opt_reach (cell_reach cell_fork (fork_reach V)) m p"
| "object_reach V m (ForkListObject p) = opt_reach (cell_reach cell_fork_list (fork_list_reach V)) m p"
| "object_reach V m (ForkManagerObject p) = opt_reach (cell_reach cell_fork_manager (fork_manager_reach V)) m p"
| "object_reach V m (ForkManagerListObject p) = opt_reach (cell_reach cell_fork_manager_list
    (fork_manager_list_reach V)) m p"
| "object_reach V m (VSConfigObject p) = opt_reach (cell_reach cell_vsconfig (vsconfig_reach V)) m p"
| "object_reach V m (VSConfigListObject p) =
    opt_reach (cell_reach cell_vsconfig_list (vsconfig_list_reach V)) m p"

lemma as_object_private:
  assumes "copyable view reach copy" and "value_at mk view m p = Some v"
    and "\<And>m q. object_view V m (wrap q) = value_at mk view m q"
    and "\<And>m q. object_reach V m (wrap q) = opt_reach reach m q"
  shows "\<exists>c m'. as_object wrap (opt_copy copy p) m = (Ok (Some c), m') \<and>
    private_copy (object_view V) (object_reach V) m (wrap p) m' c"
proof -
  from assms(2) obtain a u where a: "p = Some a" "view m a = Some u"
    by (auto simp: value_at_def bind_eq_Some_conv)
  from copyable.copy_private [OF assms(1) a(2)] obtain b m' where
    "copy a m = (Ok b, m')" "private_copy view reach m a m' b" by blast
  then have "as_object wrap (opt_copy copy p) m = (Ok (Some (wrap (Some b))), m')"
    "private_copy (object_view V) (object_reach V) m (wrap p) m' (wrap (Some b))"
    by (simp_all add: a(1) as_object_def opt_copy_def bind_eff_def private_copy_def assms(3,4)
        value_at_def opt_reach_def)
  then show ?thesis by blast
qed

lemmas deep_copy_object_defs = fork_deep_copy_object_def fork_list_deep_copy_object_def
    fork_manager_deep_copy_object_def
  fork_manager_list_deep_copy_object_def vsconfig_deep_copy_object_def vsconfig_list_deep_copy_object_def
  fork_deep_copy_def fork_list_deep_copy_def fork_manager_deep_copy_def fork_manager_list_deep_copy_def
  vsconfig_deep_copy_def vsconfig_list_deep_copy_def

lemmas object_copyable = fork_copyable fork_list_copyable fork_manager_copyable fork_manager_list_copyable
  vsconfig_copyable vsconfig_list_copyable

lemma deep_copy_object_private:
  assumes "foreign_deep_copies F V" "range_order ord" "object_view V m obj = Some v"
  shows "\<exists>c m'. deep_copy_object F ord obj m = (Ok (Some c), m') \<and>
    private_copy (object_view V) (object_reach V) m obj m' c"
  using assms(3)
  by (cases obj; simp only: deep_copy_object.simps deep_copy_object_defs object_view.simps,
      elim as_object_private [rotated], simp_all only: object_view.simps object_reach.simps)
    (rule copyable_cell, rule object_copyable, (rule assms)?, (rule assms)?, simp)+

lemma deep_copy_object_nil: "object_pointer obj = None \<Longrightarrow> deep_copy_object F ord obj m = (Ok None, m)"
  by (cases obj) (simp_all add: deep_copy_object_defs as_object_def opt_copy_def)

end
