(* ===== verification/DeepCopyProperties.thy ===== *)
theory DeepCopyProperties
  imports DeepCopyFacts
begin

text \<open>
  The property of the generated deep copies, and an instance of what they rely on: structs of
  other packages whose maps lie in memory, copied in the way the generated code copies those of the program.
\<close>

section \<open>An instance of the structs of other packages\<close>

record meta_struct =
  ms_name :: string
  ms_namespace :: string
  ms_labels :: pointer
  ms_annotations :: pointer
  ms_owner_refs :: "owner_reference list"
  ms_resource_version :: string

record selector_struct =
  sls_match_labels :: pointer
  sls_match_expressions :: "label_selector_requirement list"

datatype package_struct =
    ObjectMetaStruct meta_struct
  | ListMetaStruct list_meta
  | LabelSelectorStruct selector_struct
  | ContainerStruct container
  | TimeStruct time

definition object_meta_struct :: "package_struct \<Rightarrow> meta_struct option" where
  "object_meta_struct x = (case x of ObjectMetaStruct s \<Rightarrow> Some s | _ \<Rightarrow> None)"

definition list_meta_struct :: "package_struct \<Rightarrow> list_meta option" where
  "list_meta_struct x = (case x of ListMetaStruct s \<Rightarrow> Some s | _ \<Rightarrow> None)"

definition label_selector_struct :: "package_struct \<Rightarrow> selector_struct option" where
  "label_selector_struct x = (case x of LabelSelectorStruct s \<Rightarrow> Some s | _ \<Rightarrow> None)"

definition container_struct :: "package_struct \<Rightarrow> container option" where
  "container_struct x = (case x of ContainerStruct s \<Rightarrow> Some s | _ \<Rightarrow> None)"

definition time_struct :: "package_struct \<Rightarrow> time option" where
  "time_struct x = (case x of TimeStruct s \<Rightarrow> Some s | _ \<Rightarrow> None)"

lemma package_struct_simps [simp]:
  "object_meta_struct (ObjectMetaStruct s) = Some s"
  "list_meta_struct (ListMetaStruct l) = Some l"
  "label_selector_struct (LabelSelectorStruct e) = Some e"
  "container_struct (ContainerStruct c) = Some c"
  "time_struct (TimeStruct t) = Some t"
  by (simp_all add: object_meta_struct_def list_meta_struct_def label_selector_struct_def
      container_struct_def time_struct_def)

text \<open>One kind of struct among several.\<close>

definition kind_view :: "('x \<Rightarrow> 's option) \<Rightarrow> ('c memory \<Rightarrow> 's \<Rightarrow> 'v option) \<Rightarrow> 'c memory \<Rightarrow> 'x \<Rightarrow> 'v option" where
  "kind_view sel view m x = Option.bind (sel x) (view m)"

definition kind_reach :: "('x \<Rightarrow> 's option) \<Rightarrow> ('c memory \<Rightarrow> 's \<Rightarrow> addr set) \<Rightarrow> 'c memory \<Rightarrow> 'x \<Rightarrow> addr set" where
  "kind_reach sel reach m x = (case sel x of None \<Rightarrow> {} | Some s \<Rightarrow> reach m s)"

definition kind_copy :: "('s \<Rightarrow> 'x) \<Rightarrow> ('x \<Rightarrow> 's option) \<Rightarrow> ('s \<Rightarrow> ('c memory, 's) eff) \<Rightarrow> 'x \<Rightarrow>
    ('c memory, 'x) eff" where
  "kind_copy mk sel copy x =
     (case sel x of None \<Rightarrow> lift_result (Panic NilDereference) | Some s \<Rightarrow> bind_eff (copy s) (\<lambda>t. return (mk t)))"

lemma copyable_kind:
  assumes "copyable view reach copy" "\<And>s. sel (mk s) = Some s"
  shows "copyable (kind_view sel view) (kind_reach sel reach) (kind_copy mk sel copy)"
proof
  fix m x m'
  assume "same_cells (kind_reach sel reach m x) m m'"
  then show "kind_view sel view m' x = kind_view sel view m x \<and> kind_reach sel reach m' x =
      kind_reach sel reach m x"
    using copyable.frame [OF assms(1)] by (cases "sel x") (simp_all add: kind_view_def kind_reach_def)
next
  fix m x v
  assume "kind_view sel view m x = Some v"
  then obtain s where s: "sel x = Some s" "view m s = Some v" by (auto simp: kind_view_def bind_eq_Some_conv)
  show "kind_reach sel reach m x \<subseteq> {..<length m}" using copyable.closed [OF assms(1) s(2)] s(1)
    by (simp add: kind_reach_def)
  from copyable.copied [OF assms(1) s(2)] obtain t m' where
    "copy s m = (Ok t, m')" "extends m m'" "view m' t = Some v" "reach m' t \<subseteq> {length m..<length m'}" by blast
  with s(1) show "\<exists>y m'. kind_copy mk sel copy x m = (Ok y, m') \<and> extends m m' \<and>
      kind_view sel view m' y = Some v \<and>
      kind_reach sel reach m' y \<subseteq> {length m..<length m'}"
    by (intro exI [of _ "mk t"] exI [of _ m']) (simp add: kind_copy_def kind_view_def kind_reach_def
        bind_eff_def assms(2))
qed

definition map_of_pointer :: "labels option \<Rightarrow> labels" where
  "map_of_pointer l = (case l of None \<Rightarrow> fmempty | Some l \<Rightarrow> l)"

definition copy_meta_struct :: "meta_struct \<Rightarrow> (package_struct go_memory, meta_struct) eff" where
  "copy_meta_struct s =
     bind_eff (pair_copy (opt_copy (copy_map CHeaders cell_headers sorted_list_of_fset))
         (opt_copy (copy_map CHeaders cell_headers sorted_list_of_fset)) (ms_labels s, ms_annotations s))
       (\<lambda>t. return (s\<lparr>ms_labels := fst t, ms_annotations := snd t\<rparr>))"

definition copy_selector_struct :: "selector_struct \<Rightarrow> (package_struct go_memory, selector_struct) eff" where
  "copy_selector_struct s =
     bind_eff (opt_copy (copy_map CHeaders cell_headers sorted_list_of_fset) (sls_match_labels s))
       (\<lambda>t. return (s\<lparr>sls_match_labels := t\<rparr>))"

definition package_copies :: "package_struct foreign_copies" where
  "package_copies =
     \<lparr>copy_object_meta = kind_copy ObjectMetaStruct object_meta_struct copy_meta_struct,
      copy_list_meta = kind_copy ListMetaStruct list_meta_struct (\<lambda>l. return l),
      copy_label_selector = kind_copy LabelSelectorStruct label_selector_struct copy_selector_struct,
      copy_container = kind_copy ContainerStruct container_struct (\<lambda>c. return c),
      copy_time = new_copy CForeign cell_foreign Zeroed (kind_copy TimeStruct time_struct (\<lambda>t. return t))\<rparr>"

definition package_views :: "package_struct foreign_views" where
  "package_views =
     \<lparr>view_object_meta = kind_view object_meta_struct (struct_view (\<lambda>s. (ms_labels s, ms_annotations s))
        (\<lambda>s (ls, as). \<lparr>meta_name = ms_name s, meta_namespace = ms_namespace s, meta_labels = map_of_pointer ls,
           meta_annotations = map_of_pointer as, meta_owner_refs = ms_owner_refs s,
           meta_resource_version = ms_resource_version s\<rparr>)
        (pair_view (opt_view (cell_view cell_headers (\<lambda>_. Some)))
            (opt_view (cell_view cell_headers (\<lambda>_. Some))))),
      reach_object_meta = kind_reach object_meta_struct (struct_reach (\<lambda>s. (ms_labels s, ms_annotations s))
        (pair_reach (opt_reach (cell_reach cell_headers (\<lambda>_ _. {})))
            (opt_reach (cell_reach cell_headers (\<lambda>_ _. {}))))),
      view_list_meta = kind_view list_meta_struct (\<lambda>_. Some),
      reach_list_meta = kind_reach list_meta_struct (\<lambda>_ _. {}),
      view_label_selector = kind_view label_selector_struct (struct_view sls_match_labels
        (\<lambda>s ls. \<lparr>match_labels = ls, match_expressions = sls_match_expressions s\<rparr>)
        (opt_view (cell_view cell_headers (\<lambda>_. Some)))),
      reach_label_selector = kind_reach label_selector_struct (struct_reach sls_match_labels
        (opt_reach (cell_reach cell_headers (\<lambda>_ _. {})))),
      view_container = kind_view container_struct (\<lambda>_. Some),
      reach_container = kind_reach container_struct (\<lambda>_ _. {}),
      view_time = cell_view cell_foreign (kind_view time_struct (\<lambda>_. Some)),
      reach_time = cell_reach cell_foreign (kind_reach time_struct (\<lambda>_ _. {}))\<rparr>"

lemmas package_intros = copyable_kind copyable_cell copyable_plain copyable_pair copyable_opt copyable_map
  range_order_sorted cell_simps package_struct_simps

interpretation package: foreign_deep_copies package_copies package_views
proof (rule foreign_deep_copies.intro)
  show "copyable (view_object_meta package_views) (reach_object_meta package_views)
      (copy_object_meta package_copies)"
    unfolding package_views_def package_copies_def foreign_copies.simps foreign_views.simps
    by (rule copyable_kind, rule copyable_struct [where put =
        "\<lambda>t s. s\<lparr>ms_labels := fst t, ms_annotations := snd t\<rparr>"],
        (rule package_intros)+) (simp_all add: copy_meta_struct_def)
  show "copyable (view_label_selector package_views) (reach_label_selector package_views)
      (copy_label_selector package_copies)"
    unfolding package_views_def package_copies_def foreign_copies.simps foreign_views.simps
    by (rule copyable_kind, rule copyable_struct [where put = "\<lambda>t s. s\<lparr>sls_match_labels := t\<rparr>"],
        (rule package_intros)+) (simp_all add: copy_selector_struct_def)
qed (unfold package_views_def package_copies_def foreign_copies.simps foreign_views.simps,
    (rule package_intros)+)

section \<open>The property\<close>

text \<open>A fork in memory, with a part of every kind: the first cell holds the struct.\<close>

definition fork_memory :: "package_struct go_memory" where
  "fork_memory =
     [CFork \<lparr>fks_type = fork_group_kind ''Fork'',
        fks_meta = ObjectMetaStruct \<lparr>ms_name = ''some-fork'', ms_namespace = ''some-namespace'',
            ms_labels = Some 1,
          ms_annotations = None, ms_owner_refs = [], ms_resource_version = ''1''\<rparr>,
        fks_spec = \<lparr>fps_manager = ''some-namespace/some-manager'', fps_identifier = ''some-fork'',
          fps_deadline = Some 2, fps_gateway_options = Some 3, fps_services = Some 6, fps_deployments = Some 9\<rparr>,
        fks_status = ForkStatus\<rparr>,
      CHeaders (fmupd ''team'' ''infra'' fmempty),
      CForeign (TimeStruct 5),
      CGatewayOptions \<lparr>gos_add_request_headers = Some 4, gos_allow_upgrade = Slice 5 1 1\<rparr>,
      CHeaders (fmupd ''x-debug'' ''1'' fmempty),
      CStrings [''spdy'', ''websocket''],
      CForkService \<lparr>fss_selector = Some 7\<rparr>,
      CForeign (LabelSelectorStruct \<lparr>sls_match_labels = Some 8, sls_match_expressions = []\<rparr>),
      CHeaders (fmupd ''app'' ''some-app'' fmempty),
      CForkDeployment \<lparr>fds_selector = Some 7, fds_template = Some 10, fds_replicas = Some 12\<rparr>,
      CPodTemplateSpec \<lparr>pts_object_meta = None, pts_pod_spec = \<lparr>pss_containers = Slice 11 0 1,
          pss_hostname = ''''\<rparr>\<rparr>,
      CContainers [ContainerStruct \<lparr>ctr_name = ''some-container'', ctr_image = ''some-image'', ctr_env = []\<rparr>],
      CInt32 2]"

definition fork_in_memory :: fork where
  "fork_in_memory =
     \<lparr>fork_type = fork_group_kind ''Fork'',
      fork_meta = (object_meta_of ''some-fork'' ''some-namespace'')
        \<lparr>meta_labels := fmupd ''team'' ''infra'' fmempty, meta_resource_version := ''1''\<rparr>,
      fork_spec = \<lparr>spec_manager = ''some-namespace/some-manager'', spec_identifier = ''some-fork'',
          spec_deadline = Some 5,
        spec_gateway_options = Some \<lparr>go_add_request_headers = fmupd ''x-debug'' ''1'' fmempty,
            go_allow_upgrade = [''websocket'']\<rparr>,
        spec_services = Some \<lparr>fs_selector =
            Some \<lparr>match_labels = Some (fmupd ''app'' ''some-app'' fmempty), match_expressions = []\<rparr>\<rparr>,
        spec_deployments = Some \<lparr>fd_selector =
            Some \<lparr>match_labels = Some (fmupd ''app'' ''some-app'' fmempty), match_expressions = []\<rparr>,
          fd_template = Some \<lparr>pts_metadata = None, pts_spec = \<lparr>ps_containers =
            [\<lparr>ctr_name = ''some-container'', ctr_image = ''some-image'', ctr_env = []\<rparr>], ps_hostname = ''''\<rparr>\<rparr>,
          fd_replicas = Some 2\<rparr>\<rparr>\<rparr>"

lemma fork_memory_view: "object_view package_views fork_memory (ForkObject (Some 0)) =
    Some (ForkValue fork_in_memory)"
  by (simp add: fork_memory_def fork_in_memory_def package_views_def value_at_def cell_view_def peek_def
      cell_at_def
      fork_view_def fork_spec_view_def fork_deployment_view_def fork_service_view_def pod_template_spec_view_def
      pod_spec_view_def gateway_options_view_def struct_view_def pair_view_def opt_view_def
          kind_view_def window_def
      map_of_pointer_def object_meta_of_def)

text \<open>
  C18. An object of the program's API that leaves the shared cache is a private copy: DeepCopyObject
  of any of the six kinds returns an object of the same value, all of whose pointers, slices and maps
  are new, down to the last field, while nothing that was in memory before is written. What a
  reconcile later writes to its copy cannot reach the original, nor the other way round. A nil
  pointer gives the nil interface.
\<close>

theorem deep_copies_are_private:
  assumes "foreign_deep_copies F V" and "range_order ord"
  shows "(object_pointer obj = None \<longrightarrow> deep_copy_object F ord obj m = (Ok None, m)) \<and>
    (\<forall>v. object_view V m obj = Some v \<longrightarrow>
      (\<exists>c m'. deep_copy_object F ord obj m = (Ok (Some c), m') \<and> object_view V m' c = Some v \<and>
        private_copy (object_view V) (object_reach V) m obj m' c))"
proof (intro conjI allI impI)
  fix v
  assume "object_view V m obj = Some v"
  from deep_copy_object_private [OF assms this] this
  show "\<exists>c m'. deep_copy_object F ord obj m = (Ok (Some c), m') \<and> object_view V m' c = Some v \<and>
      private_copy (object_view V) (object_reach V) m obj m' c" by (auto simp: private_copy_def)
qed (rule deep_copy_object_nil)

theorem deep_copies_are_private_witness:
  "\<exists>c m'. deep_copy_object package_copies sorted_list_of_fset (ForkObject (Some 0)) fork_memory =
      (Ok (Some c), m') \<and>
     object_view package_views m' c = Some (ForkValue fork_in_memory) \<and>
     private_copy (object_view package_views) (object_reach package_views) fork_memory
         (ForkObject (Some 0)) m' c"
  using deep_copies_are_private [OF package.foreign_deep_copies_axioms range_order_sorted]
      fork_memory_view by blast

end
