(* ===== verification/Interfaces.thy ===== *)
theory Interfaces
  imports Controllers Kubeforkctl
begin

text \<open>
  The interfaces of the program, \<open>Builder\<close>, \<open>Lister\<close> and \<open>Refresher\<close> of \<^verbatim>\<open>pkg/refresh/refresh.go\<close>,
  \<open>Updater\<close> of \<^verbatim>\<open>domain/updater/updater.go\<close> and \<open>Client\<close> of \<^verbatim>\<open>kubeforkctl/client/client.go\<close>, as records of
  their methods, with the constructors that return them. The functions of the other theories call
  the methods directly; the lemmas say that this is what they are when written through the
  interfaces, as in the code.
\<close>

section \<open>Builders, listers and refreshers\<close>

record 'u lister_interface =
  generate_lists :: "'u object_list list result"

record ('w, 'u) builder_interface =
  builder_build :: "('w, 'u lister_interface) eff"

record ('w, 'u) refresher_interface =
  refresher_refresh :: "owner \<Rightarrow> 'u object_list \<Rightarrow> ('w, unit) eff"

text \<open>\<open>env\<close> stands for the client and the scheme that the constructors are given.\<close>

definition new_refresher :: "('w, 'u) env \<Rightarrow> ('w, 'u) refresher_interface" where
  "new_refresher env = \<lparr>refresher_refresh = refresh env\<rparr>"

definition new_builder :: "('w, 'u) env \<Rightarrow> string order \<Rightarrow> fork \<Rightarrow> ('w, 'u) builder_interface" where
  "new_builder env ord fork =
     \<lparr>builder_build = bind_eff (build_app env ord fork) (\<lambda>a. return \<lparr>generate_lists =
         generate_app_lists env ord a\<rparr>)\<rparr>"

text \<open>\<^verbatim>\<open>domain/lister/application.go\<close>: the name under which the other packages reach it.\<close>

definition new_app_builder :: "('w, 'u) env \<Rightarrow> string order \<Rightarrow> fork \<Rightarrow> ('w, 'u) builder_interface" where
  "new_app_builder = new_builder"

definition new_virtual_service_builder :: "('w, 'u) env \<Rightarrow> namespaced_name \<Rightarrow> ('w, 'u) builder_interface" where
  "new_virtual_service_builder env service_slug =
     \<lparr>builder_build = bind_eff (build_vs_lister env service_slug) (\<lambda>a. return \<lparr>generate_lists =
         Ok (generate_vs_lists env a)\<rparr>)\<rparr>"

section \<open>Updaters\<close>

record 'w updater_interface =
  updater_update :: "namespaced_name \<Rightarrow> ('w, unit) eff"
  updater_update_all :: "list_options \<Rightarrow> ('w, unit) eff"

definition new_mapping_updater ::
  "('w, 'u) env \<Rightarrow> string order \<Rightarrow> namespaced_name order \<Rightarrow> 'w updater_interface" where
  "new_mapping_updater env ord nn_ord =
     \<lparr>updater_update = mapping_update env ord nn_ord, updater_update_all = mapping_update_all env ord nn_ord\<rparr>"

definition new_microservice_updater :: "('w, 'u) env \<Rightarrow> string order \<Rightarrow> 'w updater_interface" where
  "new_microservice_updater env ord =
     \<lparr>updater_update = microservice_update env ord, updater_update_all = microservice_update_all env ord\<rparr>"

definition new_virtual_service_updater :: "('w, 'u) env \<Rightarrow> 'w updater_interface" where
  "new_virtual_service_updater env =
     \<lparr>updater_update = virtual_service_update env, updater_update_all = virtual_service_update_all env\<rparr>"

section \<open>The client of the tool\<close>

record 'w client_interface =
  client_service_labels :: "string \<Rightarrow> string \<Rightarrow> ('w, labels option) eff"
  client_deployment_labels :: "string \<Rightarrow> string \<Rightarrow> ('w, labels option) eff"
  client_containers :: "string \<Rightarrow> string \<Rightarrow> label_selector \<Rightarrow> label_selector \<Rightarrow> ('w, string list) eff"

definition k8s_client_go :: "string order \<Rightarrow> 'w clientset \<Rightarrow> 'w client_interface" where
  "k8s_client_go ord cs =
     \<lparr>client_service_labels = get_all_service_labels cs, client_deployment_labels =
         get_all_deployment_labels cs,
      client_containers = get_all_containers cs ord\<rparr>"

section \<open>The code as it is written\<close>

text \<open>Build, generate, and refresh every list: what the two updaters over listers have in common.\<close>

definition refresh_built ::
  "('w, 'u) refresher_interface \<Rightarrow> owner \<Rightarrow> ('w, 'u) builder_interface \<Rightarrow> ('w, unit) eff" where
  "refresh_built rf parent b =
     bind_eff (builder_build b) (\<lambda>l. bind_eff (lift_result (generate_lists l)) (\<lambda>lsts.
     for_each lsts (refresher_refresh rf parent)))"

lemma refresh_built_app:
  "refresh_built (new_refresher env) (fork_owner fork) (new_app_builder env ord fork) =
     bind_eff (build_app env ord fork) (\<lambda>a. bind_eff (lift_result (generate_app_lists env ord a)) (\<lambda>lsts.
     for_each lsts (refresh env (fork_owner fork))))"
  by (simp add: refresh_built_def new_refresher_def new_app_builder_def new_builder_def bind_eff_assoc
      del: lift_result_simps)

lemma microservice_update_interfaces:
  "microservice_update env ord slug w =
     (case api_get (env_forks env) slug w of
        (Err NotFound, w1) \<Rightarrow> (Ok (), w1)
      | (Err e, w1) \<Rightarrow> (Err e, w1)
      | (Panic p, w1) \<Rightarrow> (Panic p, w1)
      | (Ok fork, w1) \<Rightarrow> refresh_built (new_refresher env) (fork_owner fork) (new_app_builder env ord fork) w1)"
  by (simp only: refresh_built_app microservice_update_def)

lemma virtual_service_update_interfaces:
  "virtual_service_update env slug =
     bind_eff (api_get (env_services env) slug) (\<lambda>service.
     refresh_built (new_refresher env) (service_owner service) (new_virtual_service_builder env slug))"
  by (simp add: virtual_service_update_def refresh_built_def new_refresher_def new_virtual_service_builder_def
      bind_eff_assoc del: lift_result_simps)

lemma reconcile_fork_found_interfaces:
  "reconcile_fork_found env ord nn_ord now slug frk =
     (if (case spec_deadline (fork_spec frk) of None \<Rightarrow> False | Some d \<Rightarrow> env_time_before env d now)
      then api_delete (env_forks env) frk
      else bind_eff (lift_result (parse_manager_slug (spec_manager (fork_spec frk)))) (\<lambda>nn.
           bind_eff (updater_update (new_mapping_updater env ord nn_ord) nn) (\<lambda>_.
           updater_update (new_microservice_updater env ord) slug)))"
  by (simp add: reconcile_fork_found_def new_mapping_updater_def new_microservice_updater_def)

lemma manifest_fork_interfaces:
  "manifest_fork cs ord now opt =
     (let client = k8s_client_go ord cs in
      bind_eff (case opt_service_name opt of None \<Rightarrow> return (Some fmempty)
        | Some n \<Rightarrow> client_service_labels client (opt_namespace opt) n) (\<lambda>service_labels.
      bind_eff (lift_result (new_selector (opt_service_label opt) service_labels)) (\<lambda>ssel.
      bind_eff (case opt_deployment_name opt of None \<Rightarrow> return (Some fmempty)
        | Some n \<Rightarrow> client_deployment_labels client (opt_namespace opt) n) (\<lambda>deployment_labels.
      bind_eff (lift_result (new_selector (opt_deployment_label opt) deployment_labels)) (\<lambda>dsel.
      bind_eff (client_containers client (opt_namespace opt) (opt_image opt) ssel dsel) (\<lambda>names.
      return (new_fork now (opt_identifier opt) (opt_namespace opt) (opt_fork_manager_name opt)
        (opt_replica_num opt) (opt_valid_time opt) ssel dsel
        (new_containers (opt_image opt) names (new_env ord (opt_identifier opt) (opt_env opt)))
        (opt_deployment_annotation opt))))))))"
  by (simp add: manifest_fork_def k8s_client_go_def Let_def cong: option.case_cong)

end
