(* ===== verification/Spec2Isabelle.thy ===== *)
theory Spec2Isabelle
  imports EnvironmentProperties RefreshProperties ForkProperties MappingProperties RoutingProperties
    ControllerProperties ToolProperties TraceProperties LongNameProperties DeepCopyProperties Interfaces
begin

text \<open>
  A verification library for kubefork-controller, the Kubernetes controller that makes forked
  environments: a Fork names services and deployments of a namespace, the controller makes
  copies of them, and requests that carry the header of the fork's manager are routed to the
  copies.

  \<^bold>\<open>The program.\<close>
  A Fork is reconciled by \<^verbatim>\<open>controllers/fork_controller.go\<close>: an expired one is deleted; for a live
  one the Ambassador Mappings of its manager are updated (\<^verbatim>\<open>domain/updater/mapping.go\<close>), then its
  DeploymentCopies, Services and VSConfigs (\<^verbatim>\<open>domain/updater/microservice.go\<close>). The latter
  builds an application from the API server and turns it into three lists of desired objects
  (\<^verbatim>\<open>domain/lister/internal\<close>); each list is given to the refresher (\<^verbatim>\<open>pkg/refresh/refresh.go\<close>),
  which deletes the objects of the fork that are no longer wanted and creates or updates the
  others. A VSConfig made this way is reconciled by \<^verbatim>\<open>controllers/vsconfig_controller.go\<close>, and a
  Service by \<^verbatim>\<open>controllers/service_controller.go\<close>: both update the Istio VirtualService of a service
  (\<^verbatim>\<open>domain/updater/virtualservice.go\<close>), whose routes are built from the VSConfigs
  (\<^verbatim>\<open>domain/lister/virtualservice.go\<close>) and written by the same refresher. A watcher
  (\<^verbatim>\<open>controllers/fork_watcher.go\<close>) enqueues forks past their deadline. The command line tool
  (\<^verbatim>\<open>kubeforkctl\<close>) writes the manifests of Forks.

  \<^bold>\<open>The model.\<close>
  Go's errors and panics are values of \<open>result\<close>, and a function that talks to the API server is
  an \<open>eff\<close>, a function from the world to a result and a world, so that what was written
  before an error is kept. The definitions that follow the code are:

  \<^item> Prelude, GoStrings and Float64: errors, panics and effects; \<open>range\<close> over a map (every definition
    that ranges over a map takes the order as an argument) and \<open>sort.Slice\<close>; \<open>strings.Split\<close>,
    \<open>ReplaceAll\<close>, \<open>Sprintf\<close> and slices of strings; rounding to IEEE binary64, in which
    \<open>createResourceName\<close> computes.
  \<^item> ApiTypes: the types of \<^verbatim>\<open>api/v1beta1\<close>, field by field, and those fields of the Kubernetes, Istio
    and Ambassador types that the program reads or writes. 32-bit and 64-bit integers are words.
    Environment: everything that is called and is not in the repository, as one record of
    functions: the API server, the scheme, label selectors, string sets, comparison of instants.
  \<^item> GoMemory and DeepCopy: \<^verbatim>\<open>api/v1beta1/zz_generated.deepcopy.go\<close>, the same types as they lie in a memory
    of cells, with pointers, slices and maps, and every \<open>DeepCopyInto\<close>, \<open>DeepCopy\<close> and \<open>DeepCopyObject\<close>.
    Objects leave the cache of controller-runtime by these copies; that they are private
    (DeepCopyProperties) is why the other theories may take objects to be values.
  \<^item> Refresh: \<^verbatim>\<open>pkg/refresh/refresh.go\<close>. AppLister: \<^verbatim>\<open>domain/lister/internal\<close>. VSLister:
    \<^verbatim>\<open>domain/lister/virtualservice.go\<close>. Updaters and MappingUpdater: \<^verbatim>\<open>domain/updater\<close>. Controllers:
    the three reconcile functions and \<^verbatim>\<open>pkg/middleware/honeybadger.go\<close>. Interfaces: the Go interfaces
    \<open>Builder\<close>, \<open>Lister\<close>, \<open>Refresher\<close>, \<open>Updater\<close> and \<open>Client\<close> as records of methods, with their constructors; the
    theories above call the methods directly, and lemmas show that this is the same.
  \<^item> ForkWatcher: \<^verbatim>\<open>controllers/fork_watcher.go\<close>, as an executable step function over ticks, loop
    iterations, the send on the unbuffered channel, handled events and cancellation, and as the
    step relation \<open>watch_step\<close>. Kubeforkctl: the tool. Startup: \<^verbatim>\<open>main.go\<close>, the registration of types with
    the scheme, the \<open>SetupWithManager\<close> functions of \<^verbatim>\<open>controllers\<close>, the configuration of Honeybadger
    and the command tree of \<^verbatim>\<open>kubeforkctl/cmd/root.go\<close>; \<open>logging\<close> records the calls that \<open>main\<close> makes on the
    manager with their outcomes, and \<open>start_protocol\<close> says which they are and how \<open>main\<close> ends after them.
  \<^item> CallTrace and MappingTrace: the environment \<open>traced env\<close>, which makes the calls of \<open>env\<close> and records those
    of the refresher and those on Mappings with their replies, so that the order of calls can be stated
    whatever the replies are. Schedules: the controller as a whole, handling any list of requests.
    Interleaving: the controllers of the process at the same time, \<open>interleaved act env\<close>, where \<open>act n\<close> is
    what the others do before the \<open>n\<close>-th call, and \<open>foreign_step\<close>, the single calls they make.

  Each definition carries the name of the Go function, in snake case; a loop body that is
  reasoned about on its own is a definition of its own. Every definition computes.

  \<^bold>\<open>The interfaces.\<close>
  ClusterLaws states what the refresher relies on. \<open>object_cluster\<close> is the API server as it sees
  it: a view of the stored objects by resource and name, how each call changes it, that reads
  and failing calls change nothing, and that \<open>spec\<close> and metadata come back as written, up to
  defaults the API server fills in. \<open>identity_contract\<close> is what a list promises: its identity
  function is total, and does not depend on whether an object is read typed or unstructured.
  \<open>refresher\<close> joins the two, \<open>stable_refresher\<close> adds that an object keeps its identity when written.
  AppFacts interprets the contract on the three lists of the program; the
  DeploymentCopies meet the last law only when their names are not cut. BuilderFacts has
  \<open>steady_reads\<close>, a cluster that does not change while the builder reads it; MappingCluster has
  \<open>mapping_cluster\<close>, the laws of the calls on Mappings; ControllerFacts has \<open>updater\<close>, the interface of
  \<^verbatim>\<open>domain/updater/updater.go\<close>, and \<open>fork_cluster\<close>, all of the above with the calls on forks, of which
  the three updaters are sublocales. RoutedCluster has \<open>routed_cluster\<close>, which joins that with the
  steady reads and ties what typed reads return to the objects stored, so that what one reconciler
  writes is what another one reads; ForkRouting composes the reconcilers over it. GoMemory has
  \<open>copyable\<close>, what a copy function owes: the copied value, everything else as it was, and no
  cell shared; it is closed under structs, pointers, slices and maps. DeepCopyFacts assumes it of the
  types of other packages (\<open>foreign_deep_copies\<close>) and proves it of all 18 of the program. Store is an
  executable API server, association lists of objects with create-or-update, owner references
  and resource versions; all cluster locales are interpreted on it, so their laws can hold
  together, and the witnesses run the program on it by evaluation, on the objects of
  \<^verbatim>\<open>pkg/testing/helper.go\<close> (Fixtures).

  \<^bold>\<open>What is shown.\<close>
  EnvironmentProperties: on the whole path of the controller, the reconcile of a fork refines
  \<open>fork_realised\<close>, a specification of its environment that mentions neither lists nor refreshes; a
  request with the fork's header then reaches the copy of its service and the pods of the right
  copies, and a request that nothing asks for stays with the original; updates converge, also after
  one that failed half way, unless the selector of the fork admits its own copies, which are then
  copied again; an object that has the name of a copy is taken over; and the environment survives every
  schedule of requests of forks, some of which fail half way, with the calls of the reconcilers of VSConfigs
  and Services between any two calls of theirs, provided that the forks of its namespace do not
  select each other's copies and share no names. The proof is by rely and guarantee: the calls of those
  reconcilers change VirtualServices only, and the reconciler of forks neither reads nor writes them,
  so that it does the same in an environment that refuses calls on them, in which all laws hold.
  TraceProperties: whatever the API server replies and whoever else writes in between, the calls of
  a refresh follow a protocol; those of an update are of the right kinds and types, in the
  namespace of the fork; no VSConfig is written before the Service it routes to, under the name it routes
  to; and no Mapping is deleted before all desired ones are written.
  DeepCopyProperties: deep copies are equal to the original and share nothing with it.
  RefreshProperties: a successful refresh realises its list exactly, whatever the outcome it
  touches only objects of the parent and desired ones, a second run creates and deletes nothing,
  and names fit 63 bytes, with the floating point arithmetic bounded. ForkProperties: a
  successful update realises the lists generated for a fork; the copies of
  services select the copies of deployments exactly as the originals do; the order of Go maps
  cannot be observed; the only failure of the lister is a nil dereference, which is characterised.
  MappingProperties: after an update of a manager its Mappings are exactly the desired ones, with their
  destinations, headers and protocols. RoutingProperties: what the routes do with
  a request, and that the VirtualService stored is the one the VSConfigs ask for.
  ControllerProperties: when forks are deleted, what the watcher enqueues in every interleaving, when it
  returns, and the calls that the start of the controller makes, how it ends after each failure, and that it
  never registers the reconciler of Services. LongNameProperties: what becomes of names over 63 bytes.
  ToolProperties: the label options, the panic on nil labels, the deadline and the containers, whose
  images are confused when they come from a registry with a port (\<open>containers_to_switch\<close>).
  This theory has properties that span components: forks past their deadline get deleted by the
  watcher and the reconciler together, and the forks of the tool are handled by the controller.
  Several theorems state behaviour that is not intended: selectors that take the copies for
  services to fork (\<open>copies_are_forked_again\<close>), a watcher that cannot be cancelled while it sends
  (\<open>blocked_watcher_never_returns\<close>), a reconciler that is not registered
  (\<open>startup_protocol\<close>), names over 63 bytes
  (\<open>long_copies_made_again\<close>, \<open>long_service_name_unroutable\<close>), protocols to upgrade that are
  ignored without headers (\<open>mapping_upgrades\<close>), managers of the same name
  (\<open>same_named_manager_loses_mappings\<close>), objects of others that are overwritten
  (\<open>existing_service_taken_over\<close>), names of Mappings that coincide (\<open>mapping_names_coincide\<close>),
  events that name another fork (\<open>late_events_enqueue_last_fork\<close>).

  \<^bold>\<open>Bounds.\<close>
  No definition needs fuel: every loop of the program is over a finite list or map, except the
  endless one of the watcher, which is a step relation (\<open>watcher_returns\<close>). The float bounds
  hold for names of less than \<open>2 ^ 47\<close> bytes, below which \<open>float64(len(s))\<close> is exact, and
  with or without fused multiply-subtract. The tool's deadline is exact up to 2562047 hours either
  way, beyond which the product of durations wraps at 64 bits. Instants are integers, in
  nanoseconds in the tool.

  \<^bold>\<open>Not modelled.\<close>
  Logging; the help texts of the commands; the YAML snapshots of \<^verbatim>\<open>pkg/testing\<close>; stack traces of
  errors. The laws of the clusters speak of single calls, of which \<open>CreateOrUpdate\<close> is
  one, although it reads and then writes; a write that comes in between makes it fail. What is not modelled
  of concurrency are edits by users while a reconcile is running, except in TraceProperties, which assumes no
  law, and several reconciles of forks at a time, which controller-runtime does not start by default. The
  work queue of controller-runtime, which merges equal requests and retries failed ones, is outside: a
  schedule is an arbitrary list of requests, and so are the watcher's.
\<close>

section \<open>Properties that span components\<close>

text \<open>
  The two halves of the program fit together: when the VSConfig that the lister of forks
  makes for a service and a fork is among the configs of the service, the fork has an
  identifier, and no other config of the service asks for the same header and value, then a
  request that carries the fork's header goes to the forked service.
\<close>

theorem fork_header_routes_to_fork:
  assumes "build_vsconfig s fork header \<in> set (vl_sorted_configs a)"
    and "meta_name (svc_meta s) = meta_name (svc_meta (vl_service a))"
    and "spec_identifier (fork_spec fork) \<noteq> ''''"
    and "\<forall>c \<in> set (vl_sorted_configs a). config_applies a c \<and> requests hs c \<longrightarrow> c = build_vsconfig s fork header"
    and "fmlookup hs header = Some (spec_identifier (fork_spec fork))"
  shows "route_destination rx (build_http_routes a) hs = Some [service_name s fork]"
proof -
  have "route_destination rx (build_http_routes a) hs =
      Some [vsc_service (vsc_spec (build_vsconfig s fork header))]"
  proof (rule route_destination_unique [OF assms(1)])
    show "config_applies a (build_vsconfig s fork header)" using assms(2,3)
      by (simp add: build_vsconfig_applies)
    show "requests hs (build_vsconfig s fork header)" using assms(5) by (simp add: build_vsconfig_requests)
  qed (use assms(4) in blast)
  then show ?thesis by (simp add: build_vsconfig_def)
qed

theorem fork_header_routes_to_fork_witness:
  "route_destination (\<lambda>_ _. False)
     (build_http_routes \<lparr>vl_sorted_configs = [build_vsconfig some_service some_fork ''fork-identifier'',
        gen_vsconfig ''some-service'' ''some-id''], vl_service = some_service\<rparr>)
     (fmupd ''fork-identifier'' ''some-fork'' fmempty) = Some [''some-service-some-fork'']"
proof -
  have "route_destination (\<lambda>_ _. False)
     (build_http_routes \<lparr>vl_sorted_configs = [build_vsconfig some_service some_fork ''fork-identifier'',
        gen_vsconfig ''some-service'' ''some-id''], vl_service = some_service\<rparr>)
     (fmupd ''fork-identifier'' ''some-fork'' fmempty) = Some [service_name some_service some_fork]"
    by (rule fork_header_routes_to_fork [where header = "''fork-identifier''"])
      (simp_all add: requests_def gen_vsconfig_def full_fork_def Let_def gen_fork_def)
  then show ?thesis
    by (simp add: service_name_def some_service_def gen_service_def full_fork_def Let_def gen_fork_def
        sprintf_dash_def)
qed

text \<open>
  When the reconcile of a fork that has not expired succeeds, its manager is well formed and
  the Mappings of that manager have been updated first, then the objects of the fork, each
  update leaving alone what the other one writes.
\<close>

theorem live_fork_updates_mappings_then_objects:
  assumes "fork_cluster env scheme objs maps frks"
    and "reconcile_fork env ord nn_ord now q w = (Ok u, w')"
    and "frks w q = Some fork"
    and "case spec_deadline (fork_spec fork) of None \<Rightarrow> True | Some d \<Rightarrow> \<not> env_time_before env d now"
  shows "\<exists>ns n w0 w1. spec_manager (fork_spec fork) = ns @ ''/'' @ n \<and>
    (objs w0, maps w0, frks w0) = (objs w, maps w, frks w) \<and>
    mapping_update env ord nn_ord (NN ns n) w0 = (Ok (), w1) \<and> objs w1 = objs w \<and>
    microservice_update env ord q w1 = (Ok u, w') \<and> maps w' = maps w1 \<and> frks w' = frks w"
proof -
  from fork_cluster.live_fork_reconciled [OF assms] obtain slug w0 w1 where
    slug: "parse_manager_slug (spec_manager (fork_spec fork)) = Ok slug" and
    rest: "(objs w0, maps w0, frks w0) = (objs w, maps w, frks w)"
      "mapping_update env ord nn_ord slug w0 = (Ok (), w1)" "objs w1 = objs w"
      "microservice_update env ord q w1 = (Ok u, w')" "maps w' = maps w1" by blast
  from slug obtain ns n where parts: "slug = NN ns n" "spec_manager (fork_spec fork) = ns @ ''/'' @ n"
    by (rule manager_slug_parts)
  from parts(2) have "spec_manager (fork_spec fork) = ns @ ''/'' @ n" .
  moreover have "frks w' = frks w"
    using keepsD [OF fork_cluster.mapping_update_keeps [OF assms(1)] rest(2)]
      keepsD [OF fork_cluster.microservice_update_keeps [OF assms(1)] rest(4)] rest(1) by simp
  ultimately show ?thesis using rest parts(1) by metis
qed

theorem live_fork_updates_mappings_then_objects_witness:
  "\<exists>w' ns n w0 w1. reconcile_fork store_env name_order slug_order 3 some_fork_key expired_world = (Ok (), w') \<and>
     spec_manager (fork_spec (add_fork_deadline 5 some_fork)) = ns @ ''/'' @ n \<and>
     mapping_update store_env name_order slug_order (NN ns n) w0 = (Ok (), w1) \<and>
     microservice_update store_env name_order some_fork_key w1 = (Ok (), w') \<and>
     store_maps w' = store_maps w1 \<and> store_objs w1 = store_objs expired_world"
proof -
  let ?run = "reconcile_fork store_env name_order slug_order 3 some_fork_key expired_world"
  have "is_ok (fst ?run)" by code_simp
  from returned [OF this] obtain w' where run: "?run = (Ok (), w')" by auto
  have live: "case spec_deadline (fork_spec (add_fork_deadline 5 some_fork)) of None \<Rightarrow> True
      | Some d \<Rightarrow> \<not> env_time_before store_env d 3"
    by (simp add: add_fork_deadline_def)
  from live_fork_updates_mappings_then_objects [OF store.fork_cluster_axioms run expired_world_forks live] run
  show ?thesis by blast
qed

text \<open>
  C10. Forks past their deadline go: when the watcher ticks on the current list of forks, every event is
  handled before the loop goes on, and the requests it enqueues are reconciled later without a
  failure, then all forks of the list that were past their deadline at the tick are deleted, and
  no other fork is.
\<close>

theorem expired_forks_get_deleted:
  assumes "fork_cluster env scheme objs maps frks"
    and "waiting s" "fw_inflight s = []" "fw_receiving s"
    and "\<forall>f \<in> set forks. frks w (fork_key f) = Some f"
  shows "\<exists>s' ks. watch_run (Tick now forks # prompt_schedule now forks) s = Some s' \<and> waiting s' \<and>
    fw_queue s' = fw_queue s @ ks \<and>
    (\<forall>ts u w'. map snd ts = ks \<and> (\<forall>(t, k) \<in> set ts. \<forall>d \<le> now. env_time_before env d t) \<and>
       for_each ts (\<lambda>(t, k). reconcile_fork env ord nn_ord t k) w = (Ok u, w') \<longrightarrow>
       (\<forall>k. frks w' k = (if k \<in> fork_key ` {f \<in> set forks. outdated now f} then None else frks w k)))"
proof -
  from prompt_tick [OF assms(2-4), of now forks] obtain s' where
    tick: "watch_run (Tick now forks # prompt_schedule now forks) s = Some s'" "waiting s'"
      "fw_queue s' = fw_queue s @ map fork_key (filter (outdated now) forks)" by blast
  have "frks w' k = (if k \<in> fork_key ` {f \<in> set forks. outdated now f} then None else frks w k)"
    if ts: "map snd ts = map fork_key (filter (outdated now) forks)"
      and later: "\<forall>(t, k) \<in> set ts. \<forall>d \<le> now. env_time_before env d t"
      and run: "for_each ts (\<lambda>(t, k). reconcile_fork env ord nn_ord t k) w = (Ok u, w')" for ts u w' k
  proof -
    have keys: "snd ` set ts = fork_key ` {f \<in> set forks. outdated now f}"
      using arg_cong [OF ts, of set] by simp
    have "\<forall>(t, k) \<in> set ts. \<forall>f. frks w k = Some f \<longrightarrow> (\<exists>d. spec_deadline (fork_spec f) = Some d \<and>
        env_time_before env d t)"
    proof (clarify)
      fix t k f
      assume p: "(t, k) \<in> set ts" and f: "frks w k = Some f"
      from keys imageI [OF p, of snd] obtain g where g: "g \<in> set forks" "outdated now g"
          "k = fork_key g" by auto
      with assms(5) f have "f = g" by auto
      with g(2) p later show "\<exists>d. spec_deadline (fork_spec f) = Some d \<and> env_time_before env d t"
        by (fastforce simp: outdated_def split: option.splits)
    qed
    from fork_cluster.expired_forks_reconciled [OF assms(1) run this, of k] show ?thesis by (simp only: keys)
  qed
  with tick show ?thesis by blast
qed

theorem expired_forks_get_deleted_witness:
  "\<exists>s' w'. watch_run (Tick 6 [add_fork_deadline 5 some_fork] # prompt_schedule 6
      [add_fork_deadline 5 some_fork]) start_watcher = Some s' \<and>
     fw_queue s' = [some_fork_key] \<and>
     for_each [(7, some_fork_key)] (\<lambda>(t, k). reconcile_fork store_env name_order slug_order t k)
         expired_world = (Ok (), w') \<and>
     store_frks w' some_fork_key = None"
proof -
  let ?f = "add_fork_deadline 5 some_fork"
  have key: "fork_key ?f = some_fork_key" by (simp add: fork_key_def add_fork_deadline_def meta_key_def)
  have late: "outdated 6 ?f" by (simp add: outdated_def add_fork_deadline_def)
  have listed: "\<forall>f \<in> set [?f]. store_frks expired_world (fork_key f) = Some f"
    using expired_world_forks key by simp
  have "is_ok (fst (for_each [(7, some_fork_key)] (\<lambda>(t, k). reconcile_fork store_env name_order
      slug_order t k) expired_world))"
    by code_simp
  from returned [OF this] obtain w' where
    run: "for_each [(7, some_fork_key)] (\<lambda>(t, k). reconcile_fork store_env name_order slug_order t k)
        expired_world = (Ok (), w')"
    by auto
  have start: "waiting start_watcher" "fw_inflight start_watcher = []" "fw_receiving start_watcher"
      "fw_queue start_watcher = []"
    by (simp_all add: start_watcher_def waiting_def)
  from expired_forks_get_deleted [OF store.fork_cluster_axioms start(1-3) listed, of 6 name_order slug_order]
  obtain s' ks where s': "watch_run (Tick 6 [?f] # prompt_schedule 6 [?f]) start_watcher = Some s'"
      "fw_queue s' = ks"
    and gone: "\<forall>ts u w'. map snd ts = ks \<and> (\<forall>(t, k) \<in> set ts. \<forall>d \<le> 6. env_time_before store_env d t) \<and>
       for_each ts (\<lambda>(t, k). reconcile_fork store_env name_order slug_order t k) expired_world = (Ok u, w') \<longrightarrow>
       (\<forall>k. store_frks w' k = (if k \<in> fork_key ` {f \<in> set [?f]. outdated 6 f} then None else store_frks
           expired_world k))"
    unfolding start(4) by auto
  have queue: "ks = [some_fork_key]"
    using prompt_tick [OF start(1-3), of 6 "[?f]"] s' late key start(4) by (auto simp del: watch_run.simps)
  from gone [THEN spec, of "[(7, some_fork_key)]", THEN spec, of "()", THEN spec, of w']
  have "store_frks w' some_fork_key = None" using run queue late key by simp
  with s' queue run show ?thesis by blast
qed

text \<open>
  C40. Forks written by the tool never make the controller panic, and their template leaves the
  routing labels alone, so the routing of their copies mirrors that of the originals.
\<close>

theorem tool_forks_are_handled:
  assumes "manifest_fork client ord now opt v = (Ok fork, v')" and "app_fork a = fork"
  shows "is_ok (generate_app_lists env ord' a) \<and> template_keeps_routing fork service \<and>
    meta_namespace (fork_meta fork) = opt_namespace opt \<and> spec_identifier (fork_spec fork) = opt_identifier opt"
proof -
  from manifest_fork_shape [OF assms(1)] obtain ss ds ctrs where
    fork: "fork = new_fork now (opt_identifier opt) (opt_namespace opt) (opt_fork_manager_name opt)
      (opt_replica_num opt) (opt_valid_time opt) ss ds ctrs (opt_deployment_annotation opt)" by blast
  have "generate_app_lists env ord' a \<noteq> Panic p" for p
    using new_fork_handled by (simp add: generate_app_lists_Panic assms(2) fork)
  then have "is_ok (generate_app_lists env ord' a)"
    using generate_app_lists_not_Err [of env ord' a] by (cases "generate_app_lists env ord' a") auto
  then show ?thesis by (simp add: fork new_fork_keeps_routing) (simp add: new_fork_def)
qed

theorem tool_forks_are_handled_witness:
  "\<exists>fork. manifest_fork tool_client name_order 0 tool_options () = (Ok fork, ()) \<and>
     is_ok (generate_app_lists store_env name_order (long_app\<lparr>app_fork := fork\<rparr>))"
proof -
  have "is_ok (fst (manifest_fork tool_client name_order 0 tool_options ()))" by code_simp
  from returned [OF this] obtain fork
      where run: "manifest_fork tool_client name_order 0 tool_options () = (Ok fork, ())"
    by auto
  from tool_forks_are_handled [OF run, of "long_app\<lparr>app_fork := fork\<rparr>" store_env name_order] run show
      ?thesis by simp
qed

end
